(* ===== verification/Prelude.thy ===== *)
theory Prelude
  imports Main "HOL-Library.Word"
begin

text \<open>
  Shared vocabulary of the development.  It fixes the names of the C integer types, the
  outcome monad in which every stateful operation of the kernel is written (a state is
  threaded through, and a power-off, a wild access or a loop that never ends is a value),
  the little-endian encoding of integers that the on-disk structures and the virtio request
  headers use, and the list operations \<open>slice\<close> and \<open>patch\<close> to which \<open>memcpy\<close> on a
  buffer amounts.
\<close>

unbundle bit_operations_syntax

named_theorems monad_simps \<open>evaluation of the outcome monad\<close>
named_theorems bytes_simps \<open>slices, patches and little-endian encodings\<close>

type_synonym u8 = "8 word"
type_synonym u16 = "16 word"
type_synonym u32 = "32 word"
type_synonym u64 = "64 word"
type_synonym bytes = "u8 list"

section \<open>Outcomes of kernel code\<close>

text \<open>
  The ways in which a kernel function ends without returning to its caller: the machine is
  switched off, a null function or data pointer is followed, an array is accessed outside
  its bounds, an integer is divided by zero, an \<open>assert\<close> fails, a loop spins for ever, or the
  processor jumps to an address where the kernel has no code.
\<close>

datatype fault = PowerOff | NullPointer | OutOfBounds | DivisionByZero | AssertionFailed | Diverges | WildJump

datatype ('s, 'a) outcome = Ok 'a 's | Fault fault 's

type_synonym ('s, 'a) kernel_op = "'s \<Rightarrow> ('s, 'a) outcome"

definition mreturn :: "'a \<Rightarrow> ('s, 'a) kernel_op" where
  "mreturn x s = Ok x s"

definition mbind :: "('s, 'a) kernel_op \<Rightarrow> ('a \<Rightarrow> ('s, 'b) kernel_op) \<Rightarrow> ('s, 'b) kernel_op" where
  "mbind m f s = (case m s of Ok x t \<Rightarrow> f x t | Fault e t \<Rightarrow> Fault e t)"

definition mthen :: "('s, 'a) kernel_op \<Rightarrow> ('s, 'b) kernel_op \<Rightarrow> ('s, 'b) kernel_op" where
  "mthen m n s = (case m s of Ok x t \<Rightarrow> n t | Fault e t \<Rightarrow> Fault e t)"

definition mgets :: "('s \<Rightarrow> 'a) \<Rightarrow> ('s, 'a) kernel_op" where
  "mgets f s = Ok (f s) s"

definition mmodify :: "('s \<Rightarrow> 's) \<Rightarrow> ('s, unit) kernel_op" where
  "mmodify f s = Ok () (f s)"

definition mfault :: "fault \<Rightarrow> ('s, 'a) kernel_op" where
  "mfault e s = Fault e s"

declare mreturn_def [monad_simps] mgets_def [monad_simps] mmodify_def [monad_simps]
  mfault_def [monad_simps]

lemma mbind_simps [monad_simps]:
  "m s = Ok x t \<Longrightarrow> mbind m f s = f x t"
  "m s = Fault e t \<Longrightarrow> mbind m f s = Fault e t"
  by (simp_all add: mbind_def)

lemma mthen_simps [monad_simps]:
  "m s = Ok x t \<Longrightarrow> mthen m n s = n t"
  "m s = Fault e t \<Longrightarrow> mthen m n s = Fault e t"
  by (simp_all add: mthen_def)

lemma mbind_Ok_iff:
  "mbind m f s = Ok y u \<longleftrightarrow> (\<exists>x t. m s = Ok x t \<and> f x t = Ok y u)"
  by (auto simp: mbind_def split: outcome.splits)

lemma mbind_assoc: "mbind (mbind m f) g = mbind m (\<lambda>x. mbind (f x) g)"
  by (rule ext) (simp add: mbind_def split: outcome.splits)

section \<open>Words as natural numbers\<close>

lemma unat_of_nat_small: "i < 2 ^ LENGTH('a) \<Longrightarrow> unat (of_nat i :: 'a::len word) = i"
  by (simp add: unat_of_nat)

lemma of_nat_unat_eq [simp]: "of_nat (unat w) = (w :: 'a::len word)"
  by (simp add: unsigned_word_eqI unat_of_nat)

lemma unat_add_small:
  "unat (p :: 'a::len word) + unat q < 2 ^ LENGTH('a) \<Longrightarrow> unat (p + q) = unat p + unat q"
  by (simp add: unat_word_ariths)

lemma unat_add_of_nat:
  fixes p :: "'a::len word"
  assumes "unat p + i < 2 ^ LENGTH('a)"
  shows "unat (p + of_nat i) = unat p + i"
proof -
  have "unat (of_nat i :: 'a word) = i"
    using assms by (intro unat_of_nat_small) simp
  with assms show ?thesis by (simp add: unat_add_small)
qed

lemma unat_diff_le: "(q :: 'a::len word) \<le> p \<Longrightarrow> unat (p - q) = unat p - unat q"
  by (rule unat_sub)

lemma unat_u64_less: "unat (w :: u64) < 18446744073709551616"
  using unsigned_less [of w, where 'a = nat] by simp

lemma word_eq_unatI: "unat w = unat v \<Longrightarrow> w = (v :: 'a::len word)"
  by (rule unsigned_word_eqI)

lemma unat_ucast_up:
  fixes w :: "'a::len word"
  assumes "LENGTH('a) \<le> LENGTH('b::len)"
  shows "unat (ucast w :: 'b word) = unat w"
proof -
  have "unat w < 2 ^ LENGTH('a)" by (rule unsigned_less)
  also have "\<dots> \<le> 2 ^ LENGTH('b)" using assms by (intro power_increasing) simp_all
  finally show ?thesis by (simp add: unsigned_ucast_eq take_bit_nat_eq_self)
qed

lemma div_mod_add_small:
  fixes p :: nat
  assumes "p mod m + i < m"
  shows "(p + i) div m = p div m" and "(p + i) mod m = p mod m + i"
proof -
  define q r where "q = p div m" and "r = p mod m"
  have "r + i < m" using assms by (simp add: r_def)
  then have "(m * q + (r + i)) div m = q" "(m * q + (r + i)) mod m = r + i" by simp_all
  moreover have "p + i = m * q + (r + i)" by (simp add: q_def r_def)
  ultimately have "(p + i) div m = q" "(p + i) mod m = r + i" by (simp_all only:)
  then show "(p + i) div m = p div m" and "(p + i) mod m = p mod m + i" by (simp_all add: q_def r_def)
qed

section \<open>Slices and patches of byte buffers\<close>

definition slice :: "nat \<Rightarrow> nat \<Rightarrow> 'a list \<Rightarrow> 'a list" where
  "slice i n xs = take n (drop i xs)"

definition patch :: "nat \<Rightarrow> 'a list \<Rightarrow> 'a list \<Rightarrow> 'a list" where
  "patch i ys xs = take i xs @ ys @ drop (i + length ys) xs"

lemma length_slice [simp]: "length (slice i n xs) = min n (length xs - i)"
  by (simp add: slice_def)

lemma nth_slice [bytes_simps]: "i + k < length xs \<Longrightarrow> k < n \<Longrightarrow> slice i n xs ! k = xs ! (i + k)"
  by (simp add: slice_def)

lemma length_patch [simp]: "i + length ys \<le> length xs \<Longrightarrow> length (patch i ys xs) = length xs"
  by (simp add: patch_def)

lemma nth_patch [bytes_simps]:
  "i + length ys \<le> length xs \<Longrightarrow> k < length xs \<Longrightarrow>
   patch i ys xs ! k = (if i \<le> k \<and> k < i + length ys then ys ! (k - i) else xs ! k)"
  by (auto simp: patch_def nth_append)

lemma slice_patch_same [bytes_simps]:
  "i + length ys \<le> length xs \<Longrightarrow> slice i (length ys) (patch i ys xs) = ys"
  by (simp add: slice_def patch_def)

lemma slice_patch_other:
  "i + length ys \<le> length xs \<Longrightarrow> j + n \<le> length xs \<Longrightarrow> j + n \<le> i \<or> i + length ys \<le> j \<Longrightarrow>
   slice j n (patch i ys xs) = slice j n xs"
  by (rule nth_equalityI) (auto simp: nth_slice nth_patch)

lemma nth_update_const:
  "\<forall>i<n. xs ! i = c \<Longrightarrow> n \<le> length xs \<Longrightarrow> i < n \<Longrightarrow> xs[k := c] ! i = c"
  by (cases "k = i") simp_all

section \<open>Flat byte stores\<close>

text \<open>A disk or a file seen as a function from positions to bytes: reading and overwriting a range.\<close>

definition bytes_at :: "(nat \<Rightarrow> 'a) \<Rightarrow> nat \<Rightarrow> nat \<Rightarrow> 'a list" where
  "bytes_at f p n = map f [p..<p + n]"

definition overwrite :: "nat \<Rightarrow> 'a list \<Rightarrow> (nat \<Rightarrow> 'a) \<Rightarrow> nat \<Rightarrow> 'a" where
  "overwrite p xs f = (\<lambda>q. if p \<le> q \<and> q < p + length xs then xs ! (q - p) else f q)"

text \<open>
  A transfer of \<open>n\<close> bytes from position \<open>p\<close> that stops at the first position that is not \<open>ok\<close>
  transfers \<open>r\<close> bytes.
\<close>

definition stops_after :: "(nat \<Rightarrow> bool) \<Rightarrow> nat \<Rightarrow> nat \<Rightarrow> nat \<Rightarrow> bool" where
  "stops_after ok p n r \<longleftrightarrow> r \<le> n \<and> (\<forall>i<r. ok (p + i)) \<and> (r = n \<or> \<not> ok (p + r))"

lemma stops_after_all: "stops_after ok p n r \<Longrightarrow> (\<And>i. i < n \<Longrightarrow> ok (p + i)) \<Longrightarrow> r = n"
  by (cases "r < n") (auto simp: stops_after_def)

lemma stops_after_none: "stops_after ok p n r \<Longrightarrow> \<not> ok p \<Longrightarrow> r = 0"
  by (cases r) (auto simp: stops_after_def dest: spec [where x = 0])

lemma stops_after_add:
  assumes "\<And>i. i < c \<Longrightarrow> ok (p + i)" and "stops_after ok (p + c) n r"
  shows "stops_after ok p (c + n) (c + r)"
  unfolding stops_after_def
proof (intro conjI allI impI)
  fix i assume "i < c + r"
  show "ok (p + i)"
  proof (cases "i < c")
    case False
    then have "p + i = p + c + (i - c)" "i - c < r" using \<open>i < c + r\<close> by simp_all
    with assms(2) show ?thesis by (simp only: stops_after_def)
  qed (use assms(1) in simp)
qed (use assms(2) in \<open>auto simp: stops_after_def add.assoc\<close>)

lemma length_bytes_at [simp]: "length (bytes_at f p n) = n"
  by (simp add: bytes_at_def)

lemma nth_bytes_at [bytes_simps]: "i < n \<Longrightarrow> bytes_at f p n ! i = f (p + i)"
  by (simp add: bytes_at_def)

lemma bytes_at_0 [simp]: "bytes_at f p 0 = []"
  by (simp add: bytes_at_def)

lemma bytes_at_append: "bytes_at f p (m + n) = bytes_at f p m @ bytes_at f (p + m) n"
  by (rule nth_equalityI) (auto simp: nth_bytes_at nth_append add.assoc)

lemma slice_bytes_at: "i + n \<le> k \<Longrightarrow> slice i n (bytes_at f p k) = bytes_at f (p + i) n"
  by (rule nth_equalityI) (simp_all add: nth_slice nth_bytes_at add.assoc)

lemma overwrite_Nil [simp]: "overwrite p [] f = f"
  by (rule ext) (auto simp: overwrite_def)

lemma overwrite_append: "overwrite (p + length xs) ys (overwrite p xs f) = overwrite p (xs @ ys) f"
  by (rule ext) (auto simp: overwrite_def nth_append)

lemma bytes_at_overwrite_same: "bytes_at (overwrite p xs f) p (length xs) = xs"
  by (rule nth_equalityI) (simp_all add: nth_bytes_at overwrite_def)

lemma bytes_at_overwrite_inside:
  "p + i + n \<le> p + length xs \<Longrightarrow> bytes_at (overwrite p xs f) (p + i) n = slice i n xs"
  by (rule nth_equalityI) (simp_all add: nth_bytes_at nth_slice overwrite_def add.assoc)

lemma bytes_at_overwrite_other:
  "q + n \<le> p \<or> p + length xs \<le> q \<Longrightarrow> bytes_at (overwrite p xs f) q n = bytes_at f q n"
  by (rule nth_equalityI) (auto simp: nth_bytes_at overwrite_def)

section \<open>Little-endian integers\<close>

definition le_bytes :: "nat \<Rightarrow> 'a::len word \<Rightarrow> bytes" where
  "le_bytes n w = map (\<lambda>i. ucast (drop_bit (8 * i) w)) [0..<n]"

primrec le_word :: "bytes \<Rightarrow> 'a::len word" where
  "le_word [] = 0"
| "le_word (b # bs) = (ucast b OR push_bit 8 (le_word bs))"

lemma length_le_bytes [simp]: "length (le_bytes n w) = n"
  by (simp add: le_bytes_def)

lemma nth_le_bytes: "i < n \<Longrightarrow> le_bytes n w ! i = ucast (drop_bit (8 * i) w)"
  by (simp add: le_bytes_def)

lemma bit_le_word:
  "bit (le_word bs :: 'a::len word) k \<longleftrightarrow> k < LENGTH('a) \<and> k div 8 < length bs \<and> bit (bs ! (k div 8)) (k mod 8)"
proof (induction bs arbitrary: k)
  case Nil
  then show ?case by simp
next
  case (Cons b bs)
  show ?case
  proof (cases "k < 8")
    case True
    then show ?thesis by (auto simp: bit_simps)
  next
    case False
    then obtain j where k: "k = j + 8"
      by (metis add.commute le_Suc_ex not_less)
    then have "bit (le_word (b # bs) :: 'a word) k \<longleftrightarrow> k < LENGTH('a) \<and> bit (le_word bs :: 'a word) j"
      by (auto simp: bit_simps dest: bit_imp_le_length)
    moreover have "k div 8 = Suc (j div 8)" and "k mod 8 = j mod 8"
      using k by simp_all
    ultimately show ?thesis
      using Cons.IH [of j] k by auto
  qed
qed

lemma le_word_le_bytes:
  fixes w :: "'a::len word"
  assumes "LENGTH('a) \<le> 8 * n"
  shows "le_word (le_bytes n w) = w"
proof (rule bit_word_eqI)
  fix k assume "k < LENGTH('a)"
  moreover with assms have "k div 8 < n" by simp
  ultimately show "bit (le_word (le_bytes n w) :: 'a word) k \<longleftrightarrow> bit w k"
    by (simp add: bit_le_word nth_le_bytes bit_simps)
qed

lemma le_bytes_le_word:
  assumes "length bs = n" and "8 * n \<le> LENGTH('a::len)"
  shows "le_bytes n (le_word bs :: 'a word) = bs"
proof (rule nth_equalityI)
  fix i assume "i < length (le_bytes n (le_word bs :: 'a word))"
  then have i: "i < n" by simp
  have "bit (le_bytes n (le_word bs :: 'a word) ! i) k \<longleftrightarrow> bit (bs ! i) k" if "k < 8" for k
    using i that assms by (auto simp: nth_le_bytes bit_simps bit_le_word)
  then show "le_bytes n (le_word bs :: 'a word) ! i = bs ! i"
    by (intro bit_word_eqI) simp
qed (use assms in simp)

end
