(* ===== verification/Bus.thy ===== *)
theory Bus
  imports Prelude
begin

text \<open>
  What the kernel shares with the hardware.  The \<open>bus\<close> record holds the memory that both the
  CPU and a virtio device can access: plain RAM as a byte memory over 64-bit addresses, and
  the three parts of every virtqueue (descriptor table, available ring, used ring; the structs
  of include/virtio.h) as typed memories, each indexed by the address of the part.  The
  platform itself (the emulated devices, the PCI configuration space, the real-time clock
  and the time counter) is not code of the repository: it is the parameter \<open>hw\<close>, a record
  of functions over the bus and over a device state of an arbitrary type \<open>'d\<close>.
\<close>

section \<open>Virtqueue memory (include/virtio.h)\<close>

record vring_desc_item =
  d_addr :: u64
  d_len :: u32
  d_flags :: u16
  d_next :: u16

record vring_used_item =
  ui_id :: u32
  ui_len :: u32

record vring_avail =
  a_flags :: u16
  a_idx :: u16
  a_ring :: "u16 list"

record vring_used =
  u_flags :: u16
  u_idx :: u16
  u_ring :: "vring_used_item list"

section \<open>The bus and the platform\<close>

record 'd bus =
  mem :: "u64 \<Rightarrow> u8"
  desc_mem :: "u64 \<Rightarrow> vring_desc_item list"
  avail_mem :: "u64 \<Rightarrow> vring_avail"
  used_mem :: "u64 \<Rightarrow> vring_used"
  dev :: 'd

text \<open>
  \<open>hw_step\<close> is one step of the devices, taken while the CPU polls; \<open>hw_store a n v\<close> and
  \<open>hw_load a n\<close> are an \<open>n\<close>-byte write and read of a device register; \<open>hw_time\<close> is the
  \<open>time\<close> counter.
\<close>

record 'd hw =
  hw_step :: "'d bus \<Rightarrow> 'd bus"
  hw_store :: "u64 \<Rightarrow> nat \<Rightarrow> u64 \<Rightarrow> 'd bus \<Rightarrow> 'd bus"
  hw_load :: "u64 \<Rightarrow> nat \<Rightarrow> 'd bus \<Rightarrow> u64"
  hw_time :: "'d bus \<Rightarrow> u64"

text \<open>The state every kernel component has: the bus, and what was sent to the SBI console.\<close>

record 'd base_state =
  bus :: "'d bus"
  console :: "u64 list"

section \<open>Byte memory\<close>

definition load_bytes :: "u64 \<Rightarrow> nat \<Rightarrow> (u64 \<Rightarrow> u8) \<Rightarrow> bytes" where
  "load_bytes p n m = map (\<lambda>i. m (p + of_nat i)) [0..<n]"

definition store_bytes :: "u64 \<Rightarrow> bytes \<Rightarrow> (u64 \<Rightarrow> u8) \<Rightarrow> u64 \<Rightarrow> u8" where
  "store_bytes p bs m = (\<lambda>a. if unat (a - p) < length bs then bs ! unat (a - p) else m a)"

text \<open>The byte ranges \<open>[p, p + n)\<close> and \<open>[q, q + k)\<close> of the address space have no byte in common.\<close>

definition disjoint_ranges :: "u64 \<Rightarrow> nat \<Rightarrow> u64 \<Rightarrow> nat \<Rightarrow> bool" where
  "disjoint_ranges p n q k \<longleftrightarrow> (\<forall>i<n. \<forall>j<k. p + of_nat i \<noteq> q + of_nat j)"

lemma length_load_bytes [simp]: "length (load_bytes p n m) = n"
  by (simp add: load_bytes_def)

lemma nth_load_bytes [bytes_simps]: "i < n \<Longrightarrow> load_bytes p n m ! i = m (p + of_nat i)"
  by (simp add: load_bytes_def)

lemma store_bytes_at:
  assumes "i < length bs" and "length bs \<le> 2 ^ 64"
  shows "store_bytes p bs m (p + of_nat i) = bs ! i"
proof -
  have "unat (of_nat i :: u64) = i"
    using assms by (intro unat_of_nat_small) simp
  with assms show ?thesis by (simp add: store_bytes_def)
qed

lemma load_store_same:
  "length bs \<le> 2 ^ 64 \<Longrightarrow> load_bytes p (length bs) (store_bytes p bs m) = bs"
  by (rule nth_equalityI) (simp_all add: nth_load_bytes store_bytes_at)

lemma store_bytes_outside:
  "(\<And>j. j < length bs \<Longrightarrow> a \<noteq> p + of_nat j) \<Longrightarrow> store_bytes p bs m a = m a"
  by (auto simp: store_bytes_def) (metis add.commute diff_add_cancel of_nat_unat_eq)

lemma load_store_other:
  "disjoint_ranges q n p (length bs) \<Longrightarrow> load_bytes q n (store_bytes p bs m) = load_bytes q n m"
  by (rule nth_equalityI)
    (auto simp: nth_load_bytes disjoint_ranges_def intro!: store_bytes_outside)

lemma disjoint_ranges_sym: "disjoint_ranges p n q k \<longleftrightarrow> disjoint_ranges q k p n"
  unfolding disjoint_ranges_def by metis

lemma disjoint_ranges_mono:
  "disjoint_ranges p n q k \<Longrightarrow> n' \<le> n \<Longrightarrow> k' \<le> k \<Longrightarrow> disjoint_ranges p n' q k'"
  by (auto simp: disjoint_ranges_def)

lemma load_bytes_split: "load_bytes p (n + k) m = load_bytes p n m @ load_bytes (p + of_nat n) k m"
  by (rule nth_equalityI) (auto simp: nth_load_bytes nth_append add.assoc)

lemma disjoint_rangesI:
  assumes "unat p + n \<le> unat q \<or> unat q + k \<le> unat p"
    and "unat p + n \<le> 2 ^ 64" and "unat q + k \<le> 2 ^ 64"
  shows "disjoint_ranges p n q k"
  unfolding disjoint_ranges_def
proof (intro allI impI)
  fix i j assume "i < n" "j < k"
  have "unat (p + of_nat i) = unat p + i" "unat (q + of_nat j) = unat q + j"
    using \<open>i < n\<close> \<open>j < k\<close> assms(2,3) by (simp_all add: unat_add_of_nat)
  moreover have "unat p + i \<noteq> unat q + j"
    using \<open>i < n\<close> \<open>j < k\<close> assms(1) by linarith
  ultimately show "p + of_nat i \<noteq> q + of_nat j" by metis
qed

lemma disjoint_offsets:
  assumes "a + n \<le> b" and "b + k \<le> 2 ^ 64"
  shows "disjoint_ranges (p + of_nat a) n (p + of_nat b) k"
  unfolding disjoint_ranges_def
proof (intro allI impI notI)
  fix i j assume "i < n" "j < k" and "p + of_nat a + of_nat i = p + of_nat b + of_nat j"
  then have "of_nat (a + i) = (of_nat (b + j) :: u64)" by (simp add: add.assoc)
  moreover have "unat (of_nat (a + i) :: u64) = a + i" "unat (of_nat (b + j) :: u64) = b + j"
    using \<open>i < n\<close> \<open>j < k\<close> assms by (intro unat_of_nat_small; simp)+
  ultimately show False using \<open>i < n\<close> assms(1) by simp
qed

lemma disjoint_ranges_sub:
  assumes "disjoint_ranges p n q k" and "o' + n' \<le> n"
  shows "disjoint_ranges (p + of_nat o') n' q k"
  unfolding disjoint_ranges_def
proof (intro allI impI)
  fix i j assume "i < n'" "j < k"
  from \<open>i < n'\<close> assms(2) have "o' + i < n" by simp
  with assms(1) \<open>j < k\<close> have "p + of_nat (o' + i) \<noteq> q + of_nat j"
    unfolding disjoint_ranges_def by blast
  then show "p + of_nat o' + of_nat i \<noteq> q + of_nat j" by (simp add: add.assoc)
qed

lemma load_bytes_slice: "i + n \<le> k \<Longrightarrow> load_bytes (p + of_nat i) n m = slice i n (load_bytes p k m)"
  by (rule nth_equalityI) (simp_all add: nth_load_bytes nth_slice add.assoc)

lemma load_store_patch:
  assumes "i + length bs \<le> k" and "k \<le> 2 ^ 64"
  shows "load_bytes p k (store_bytes (p + of_nat i) bs m) = patch i bs (load_bytes p k m)"
proof (rule nth_equalityI)
  fix j assume "j < length (load_bytes p k (store_bytes (p + of_nat i) bs m))"
  then have j: "j < k" by simp
  show "load_bytes p k (store_bytes (p + of_nat i) bs m) ! j = patch i bs (load_bytes p k m) ! j"
  proof (cases "i \<le> j \<and> j < i + length bs")
    case True
    then have "p + of_nat j = p + of_nat i + of_nat (j - i)" by simp
    moreover have "j - i < length bs" and "length bs \<le> 2 ^ 64" using True assms by linarith+
    ultimately have "store_bytes (p + of_nat i) bs m (p + of_nat j) = bs ! (j - i)"
      by (simp only: store_bytes_at)
    with True j assms show ?thesis by (simp add: nth_load_bytes nth_patch)
  next
    case False
    have "disjoint_ranges (p + of_nat j) 1 (p + of_nat i) (length bs)"
      using False j assms disjoint_offsets [of j 1 i "length bs" p] disjoint_offsets [of i "length bs" j 1 p]
      by (auto simp: disjoint_ranges_sym)
    then have "store_bytes (p + of_nat i) bs m (p + of_nat j) = m (p + of_nat j)"
      by (intro store_bytes_outside) (auto simp: disjoint_ranges_def)
    with False j assms show ?thesis by (auto simp: nth_load_bytes nth_patch)
  qed
qed (use assms in simp)

end
