(* ===== verification/Ecall.thy ===== *)
theory Ecall
  imports Bus
begin

text \<open>
  The firmware console and the power switch (src/e.c, src/util.c and \<open>sys_poweroff\<close> of
  src/system.c): every character printed is one SBI call, recorded in the \<open>console\<close> field in
  the order of the calls.  The definitions are those of the default build
  (\<open>DEBUG_LEVEL\<close> 1), in which no trace output is compiled in.
\<close>

definition eprint :: "u64 \<Rightarrow> (('d, 'z) base_state_scheme, unit) kernel_op" where
  "eprint p = mmodify (\<lambda>s. s\<lparr>console := console s @ [p]\<rparr>)"

text \<open>The reset call of the firmware with type 0 (shutdown) does not come back.\<close>

abbreviation sys_poweroff :: "('s, 'a) kernel_op" where
  "sys_poweroff \<equiv> mfault PowerOff"

definition epoweroff :: "(('d, 'z) base_state_scheme, 'a) kernel_op" where
  "epoweroff = sys_poweroff"

definition eprint_num :: "u64 \<Rightarrow> (('d, 'z) base_state_scheme, unit) kernel_op" where
  "eprint_num num =
     (let orig = num; num = num mod 1000 in
      mthen (if orig \<noteq> num then eprint (of_char (CHR ''~'')) else mreturn ())
       (let v = num div 100 in
        mthen (eprint (of_char (CHR ''0'') + v))
         (let num = num - v * 100; v = num div 10 in
          mthen (eprint (of_char (CHR ''0'') + v))
           (let num = num - v * 10 in
            eprint (of_char (CHR ''0'') + num)))))"

text \<open>A C string is given by the characters before its terminating zero.\<close>

primrec eprint_str :: "string \<Rightarrow> (('d, 'z) base_state_scheme, unit) kernel_op" where
  "eprint_str [] = mreturn ()"
| "eprint_str (c # cs) = mthen (eprint (of_char c)) (eprint_str cs)"

fun eprint_strn :: "string \<Rightarrow> nat \<Rightarrow> (('d, 'z) base_state_scheme, unit) kernel_op" where
  "eprint_strn (c # cs) (Suc n) = mthen (eprint (of_char c)) (eprint_strn cs n)"
| "eprint_strn _ _ = mreturn ()"

primrec eprint_buffer_loop :: "bytes \<Rightarrow> (('d, 'z) base_state_scheme, unit) kernel_op" where
  "eprint_buffer_loop [] = mreturn ()"
| "eprint_buffer_loop (b # bs) =
     mthen (eprint_num (ucast b)) (mthen (eprint (of_char (CHR ''-''))) (eprint_buffer_loop bs))"

definition eprint_buffer :: "string \<Rightarrow> bytes \<Rightarrow> (('d, 'z) base_state_scheme, unit) kernel_op" where
  "eprint_buffer msg buffer =
     mthen (eprint_str msg) (mthen (eprint (of_char (CHR '':'')))
      (mthen (eprint 10) (mthen (eprint_buffer_loop buffer) (eprint 10))))"

definition breakpoint :: "u64 \<Rightarrow> (('d, 'z) base_state_scheme, unit) kernel_op" where
  "breakpoint value = eprint_str (''We are at a breakpoint (with 1 value).'' @ [CHR 0x0A])"

definition sys_breakpoint ::
    "u64 \<Rightarrow> u64 \<Rightarrow> u64 \<Rightarrow> u64 \<Rightarrow> u64 \<Rightarrow> u64 \<Rightarrow> (('d, 'z) base_state_scheme, u64) kernel_op" where
  "sys_breakpoint a b c d e f =
     mthen (eprint_str (''We are at a breakpoint (with 5 values).'' @ [CHR 0x0A])) (mreturn 0)"

section \<open>What is printed\<close>

text \<open>
  The characters that \<open>eprint_num\<close> is meant to send: a tilde when higher digits are left out,
  then the three lowest decimal digits.
\<close>

definition num_chars :: "nat \<Rightarrow> u64 list" where
  "num_chars n = (if n < 1000 then [] else [of_char (CHR ''~'')]) @
     map (\<lambda>d. of_char (CHR ''0'') + of_nat d) [n div 100 mod 10, n div 10 mod 10, n mod 10]"

lemma eprint_eq [monad_simps]: "eprint p s = Ok () (s\<lparr>console := console s @ [p]\<rparr>)"
  by (simp add: eprint_def mmodify_def)

lemma eprint_str_eq [monad_simps]:
  "eprint_str cs s = Ok () (s\<lparr>console := console s @ map of_char cs\<rparr>)"
  by (induction cs arbitrary: s) (simp_all add: monad_simps)

lemma eprint_strn_eq [monad_simps]:
  "eprint_strn cs n s = Ok () (s\<lparr>console := console s @ map of_char (take n cs)\<rparr>)"
  by (induction cs n arbitrary: s rule: eprint_strn.induct) (simp_all add: monad_simps)

lemma epoweroff_eq [monad_simps]: "epoweroff s = Fault PowerOff s"
  by (simp add: epoweroff_def mfault_def)

lemma nat_digits:
  fixes m :: nat
  shows "m mod 1000 div 100 = m div 100 mod 10" and "m mod 1000 mod 100 div 10 = m div 10 mod 10"
    and "m mod 1000 mod 100 mod 10 = m mod 10"
proof -
  have "m mod 1000 = 100 * (m div 100 mod 10) + m mod 100"
    using mod_mult2_eq [of m 100 10] by simp
  then show "m mod 1000 div 100 = m div 100 mod 10" by (simp del: mod_mod_trivial)
  have "m mod 1000 mod 100 = m mod 100" by (simp add: mod_mod_cancel)
  moreover have "m mod 100 = 10 * (m div 10 mod 10) + m mod 10"
    using mod_mult2_eq [of m 10 10] by simp
  ultimately show "m mod 1000 mod 100 div 10 = m div 10 mod 10"
    and "m mod 1000 mod 100 mod 10 = m mod 10" by simp_all
qed

lemma digit_words:
  fixes n :: u64
  shows "n mod 1000 div 100 = of_nat (unat n div 100 mod 10)"
    and "n mod 1000 mod 100 div 10 = of_nat (unat n div 10 mod 10)"
    and "n mod 1000 mod 100 mod 10 = of_nat (unat n mod 10)"
  by (rule word_eq_unatI,
      simp add: unat_div_distrib unat_mod_distrib unat_of_nat nat_digits)+

lemma mod_1000_word: "n = n mod 1000 \<longleftrightarrow> unat (n :: u64) < 1000"
proof
  assume "n = n mod 1000"
  then have "unat n = unat n mod 1000"
    using unat_mod_distrib [of n 1000] by simp
  then show "unat n < 1000" by (metis mod_less_divisor zero_less_numeral)
next
  assume "unat n < 1000"
  then show "n = n mod 1000"
    by (intro word_eq_unatI) (simp add: unat_mod_distrib)
qed

lemma eprint_num_eq [monad_simps]:
  "eprint_num n s = Ok () (s\<lparr>console := console s @ num_chars (unat n)\<rparr>)"
proof -
  have "eprint_num n s = Ok () (s\<lparr>console := console s @ (if n \<noteq> n mod 1000 then [126] else []) @
     [48 + n mod 1000 div 100, 48 + n mod 1000 mod 100 div 10, 48 + n mod 1000 mod 100 mod 10]\<rparr>)"
    by (simp add: eprint_num_def Let_def monad_simps minus_div_mult_eq_mod)
  then show ?thesis
    using mod_1000_word [of n] by (simp add: num_chars_def digit_words)
qed

lemma eprint_buffer_loop_eq [monad_simps]:
  "eprint_buffer_loop bs s = Ok () (s\<lparr>console := console s @
     concat (map (\<lambda>b. num_chars (unat b) @ [of_char (CHR ''-'')]) bs)\<rparr>)"
  by (induction bs arbitrary: s) (simp_all add: monad_simps unat_ucast_up)

text \<open>
  Printing a number always returns and sends its three lowest decimal digits to the console,
  after a tilde if the number has more; printing a buffer sends the message and every byte in that
  form.
\<close>

theorem eprint_buffer_correct:
  "eprint_buffer msg bs s = Ok () (s\<lparr>console := console s @ map of_char msg @ [of_char (CHR '':''), 10] @
     concat (map (\<lambda>b. num_chars (unat b) @ [of_char (CHR ''-'')]) bs) @ [10]\<rparr>) \<and>
   eprint_num n s = Ok () (s\<lparr>console := console s @ num_chars (unat n)\<rparr>)"
  by (simp add: eprint_buffer_def monad_simps)

end
