(* ===== verification/Memory.thy ===== *)
theory Memory
  imports Ecall
begin

text \<open>
  The two allocators of the kernel (src/memory.c, include/memory.h).  The kernel heap is cut
  into five arenas of ten elements; the \<open>used\<close> byte of an element lives in RAM in front of its
  buffer, so the model reads and writes it through the byte memory of the bus.  The "forever"
  storage hands out aligned blocks behind a frontier that only grows.  The addresses that the
  linker script defines are a parameter (\<open>linker\<close>).
\<close>

section \<open>State\<close>

record linker =
  ld_heap_start :: u64
  ld_heap_end :: u64
  ld_forever_storage_start :: u64
  ld_forever_storage_stop :: u64

record 'd heap_state = "'d base_state" +
  heap_start :: u64
  heap_end :: u64
  arena_start_32 :: u64
  arena_end_32 :: u64
  arena_start_64 :: u64
  arena_end_64 :: u64
  arena_start_128 :: u64
  arena_end_128 :: u64
  arena_start_256 :: u64
  arena_end_256 :: u64
  arena_start_512 :: u64
  arena_end_512 :: u64
  forever_storage_frontier :: u64

abbreviation "ram s \<equiv> mem (bus s)"

definition ARENA_ELEMENT_COUNT :: nat where
  "ARENA_ELEMENT_COUNT = 10"

text \<open>The size of \<open>struct arena_element_x\<close>: the \<open>used\<close> byte and the buffer.\<close>

definition arena_element_size :: "nat \<Rightarrow> nat" where
  "arena_element_size x = 1 + x"

definition arena_element :: "nat \<Rightarrow> u64 \<Rightarrow> nat \<Rightarrow> u64" where
  "arena_element x start i = start + of_nat (i * arena_element_size x)"

section \<open>Laying out the heap\<close>

definition arena_mismatch :: "string \<Rightarrow> u64 \<Rightarrow> u64 \<Rightarrow> (('d, 'z) base_state_scheme, unit) kernel_op" where
  "arena_mismatch which prev_end start =
     (if prev_end \<noteq> start then
        mthen (eprint_str (''Error occurred initializing the '' @ which @ '' arena.'' @ [CHR 0x0A])) epoweroff
      else mreturn ())"

definition initialize_heap :: "linker \<Rightarrow> (('d, 'z) heap_state_scheme, unit) kernel_op" where
  "initialize_heap ld =
     (let len = (\<lambda>x. of_nat (ARENA_ELEMENT_COUNT * arena_element_size x)) in
      mthen (mmodify (\<lambda>s. s\<lparr>heap_start := ld_heap_start ld, heap_end := ld_heap_end ld\<rparr>))
      (mthen (mmodify (\<lambda>s. s\<lparr>arena_start_32 := heap_start s, arena_end_32 := heap_start s + len 32\<rparr>))
      (mthen (mmodify (\<lambda>s. s\<lparr>arena_start_64 := arena_end_32 s, arena_end_64 := arena_end_32 s + len 64\<rparr>))
      (mthen (\<lambda>s. arena_mismatch ''32/64'' (arena_end_32 s) (arena_start_64 s) s)
      (mthen (mmodify (\<lambda>s. s\<lparr>arena_start_128 := arena_end_64 s, arena_end_128 := arena_end_64 s + len 128\<rparr>))
      (mthen (\<lambda>s. arena_mismatch ''64/128'' (arena_end_64 s) (arena_start_128 s) s)
      (mthen (mmodify (\<lambda>s. s\<lparr>arena_start_256 := arena_end_128 s, arena_end_256 := arena_end_128 s + len 256\<rparr>))
      (mthen (\<lambda>s. arena_mismatch ''128/256'' (arena_end_128 s) (arena_start_256 s) s)
      (mthen (mmodify (\<lambda>s. s\<lparr>arena_start_512 := arena_end_256 s, arena_end_512 := arena_end_256 s + len 512\<rparr>))
      (mthen (\<lambda>s. arena_mismatch ''256/512'' (arena_end_256 s) (arena_start_512 s) s)
      (\<lambda>s. if arena_end_512 s > heap_end s then
             mthen (eprint_str (''Not enough room in the heap to allocate all arenas.'' @ [CHR 0x0A])) epoweroff s
           else mreturn () s)))))))))))"

section \<open>Allocating from the arenas\<close>

text \<open>The loop of the macro \<open>TRY_ALLOC_FROM\<close> over the indices that are left.\<close>

primrec try_alloc_scan :: "nat \<Rightarrow> u64 \<Rightarrow> nat list \<Rightarrow> (('d, 'z) base_state_scheme, u64 option) kernel_op" where
  "try_alloc_scan x start [] = mreturn None"
| "try_alloc_scan x start (i # is) =
     (\<lambda>s. let e = arena_element x start i in
        if ram s e = 0
        then Ok (Some (e + 1)) (s\<lparr>bus := (bus s)\<lparr>mem := (ram s)(e := 1)\<rparr>\<rparr>)
        else try_alloc_scan x start is s)"

definition TRY_ALLOC_FROM ::
    "nat \<Rightarrow> u64 \<Rightarrow> u64 \<Rightarrow> (('d, 'z) base_state_scheme, u64 option) kernel_op" where
  "TRY_ALLOC_FROM x start sz =
     (if sz < of_nat x then try_alloc_scan x start [0..<ARENA_ELEMENT_COUNT] else mreturn None)"

definition or_else ::
    "('s, 'a option) kernel_op \<Rightarrow> ('s, 'a) kernel_op \<Rightarrow> ('s, 'a) kernel_op" where
  "or_else m n = mbind m (\<lambda>r. case r of Some p \<Rightarrow> mreturn p | None \<Rightarrow> n)"

definition malloc :: "u64 \<Rightarrow> (('d, 'z) heap_state_scheme, u64) kernel_op" where
  "malloc sz =
     or_else (\<lambda>s. TRY_ALLOC_FROM 32 (arena_start_32 s) sz s)
     (or_else (\<lambda>s. TRY_ALLOC_FROM 64 (arena_start_64 s) sz s)
     (or_else (\<lambda>s. TRY_ALLOC_FROM 128 (arena_start_128 s) sz s)
     (or_else (\<lambda>s. TRY_ALLOC_FROM 256 (arena_start_256 s) sz s)
     (or_else (\<lambda>s. TRY_ALLOC_FROM 512 (arena_start_512 s) sz s)
     (mthen (eprint_str (''Found nothing to allocate -- return NULL'' @ [CHR 0x0A])) epoweroff)))))"

text \<open>
  The variant with trace output (\<open>TRY_ALLOC_FROM_DEBUG\<close>); \<open>label\<close> is the size as text.
\<close>

definition arena_message :: "string \<Rightarrow> string \<Rightarrow> string \<Rightarrow> nat \<Rightarrow> (('d, 'z) base_state_scheme, unit) kernel_op" where
  "arena_message before label after i =
     mthen (eprint_str (before @ label @ after)) (mthen (eprint_num (of_nat i)) (eprint (of_char (CHR 0x0A))))"

primrec try_alloc_scan_debug ::
    "nat \<Rightarrow> string \<Rightarrow> u64 \<Rightarrow> nat list \<Rightarrow> (('d, 'z) base_state_scheme, u64 option) kernel_op" where
  "try_alloc_scan_debug x label start [] = mreturn None"
| "try_alloc_scan_debug x label start (i # is) =
     (let e = arena_element x start i in
      mbind (mgets (\<lambda>s. ram s e)) (\<lambda>used.
        if used = 0
        then mthen (arena_message ''Allocating from the '' label '' arena at index: '' i)
          (\<lambda>s. Ok (Some (e + 1)) (s\<lparr>bus := (bus s)\<lparr>mem := (ram s)(e := 1)\<rparr>\<rparr>))
        else mthen (arena_message ''Skipping already used '' label '' arena element at index: '' i)
          (try_alloc_scan_debug x label start is)))"

definition TRY_ALLOC_FROM_DEBUG ::
    "nat \<Rightarrow> string \<Rightarrow> u64 \<Rightarrow> u64 \<Rightarrow> (('d, 'z) base_state_scheme, u64 option) kernel_op" where
  "TRY_ALLOC_FROM_DEBUG x label start sz =
     (if sz < of_nat x then try_alloc_scan_debug x label start [0..<ARENA_ELEMENT_COUNT] else mreturn None)"

definition malloc_debug :: "u64 \<Rightarrow> (('d, 'z) heap_state_scheme, u64) kernel_op" where
  "malloc_debug sz =
     or_else (\<lambda>s. TRY_ALLOC_FROM_DEBUG 32 ''32'' (arena_start_32 s) sz s)
     (or_else (\<lambda>s. TRY_ALLOC_FROM_DEBUG 64 ''64'' (arena_start_64 s) sz s)
     (or_else (\<lambda>s. TRY_ALLOC_FROM_DEBUG 128 ''128'' (arena_start_128 s) sz s)
     (or_else (\<lambda>s. TRY_ALLOC_FROM_DEBUG 256 ''256'' (arena_start_256 s) sz s)
     (or_else (\<lambda>s. TRY_ALLOC_FROM_DEBUG 512 ''512'' (arena_start_512 s) sz s)
     (mthen (eprint_str (''Found nothing to allocate -- return NULL'' @ [CHR 0x0A])) epoweroff)))))"

section \<open>Allocating for ever\<close>

definition ALIGN_UP :: "'a::len word \<Rightarrow> 'a word \<Rightarrow> 'a word" where
  "ALIGN_UP start align = ((start + align - 1) AND NOT (align - 1))"

definition forever_alloc_aligned ::
    "linker \<Rightarrow> u64 \<Rightarrow> u64 \<Rightarrow> (('d, 'z) heap_state_scheme, u64) kernel_op" where
  "forever_alloc_aligned ld sz align =
     (\<lambda>s. let aligned_start = ALIGN_UP (forever_storage_frontier s) align in
        if aligned_start + sz > ld_forever_storage_stop ld then
          mthen (eprint_str (''There is no more forever space left!'' @ [CHR 0x0A])) (mreturn 0) s
        else Ok aligned_start (s\<lparr>forever_storage_frontier := aligned_start + sz\<rparr>))"

section \<open>First fit\<close>

text \<open>
  The reference for \<open>malloc\<close>: the free elements of the arenas whose buffers are larger than
  the request, in the order of the arenas and of the indices; the first one is taken.
\<close>

definition arenas :: "('d, 'z) heap_state_scheme \<Rightarrow> (nat \<times> u64) list" where
  "arenas s = [(32, arena_start_32 s), (64, arena_start_64 s), (128, arena_start_128 s),
     (256, arena_start_256 s), (512, arena_start_512 s)]"

definition arena_free :: "(u64 \<Rightarrow> u8) \<Rightarrow> u64 \<Rightarrow> nat \<times> u64 \<Rightarrow> (nat \<times> u64) list" where
  "arena_free m sz = (\<lambda>(x, start). if sz < of_nat x
     then filter (\<lambda>(x, e). m e = 0) (map (\<lambda>i. (x, arena_element x start i)) [0..<10]) else [])"

definition free_elements :: "u64 \<Rightarrow> ('d, 'z) heap_state_scheme \<Rightarrow> (nat \<times> u64) list" where
  "free_elements sz s = concat (map (arena_free (ram s) sz) (arenas s))"

definition mark_used :: "u64 \<Rightarrow> ('d, 'z) base_state_scheme \<Rightarrow> ('d, 'z) base_state_scheme" where
  "mark_used e s = s\<lparr>bus := (bus s)\<lparr>mem := (ram s)(e := 1)\<rparr>\<rparr>"

lemma try_alloc_scan_eq:
  "try_alloc_scan x start is s =
     (case filter (\<lambda>(x, e). ram s e = 0) (map (\<lambda>i. (x, arena_element x start i)) is) of
        [] \<Rightarrow> Ok None s | (y, e) # _ \<Rightarrow> Ok (Some (e + 1)) (mark_used e s))"
  by (induction "is") (simp_all add: monad_simps Let_def mark_used_def)

lemma TRY_ALLOC_FROM_eq:
  "TRY_ALLOC_FROM x start sz s = (case arena_free (ram s) sz (x, start) of
     [] \<Rightarrow> Ok None s | (y, e) # _ \<Rightarrow> Ok (Some (e + 1)) (mark_used e s))"
proof (cases "sz < of_nat x")
  case True
  then show ?thesis
    by (simp only: TRY_ALLOC_FROM_def arena_free_def ARENA_ELEMENT_COUNT_def if_True prod.case
      try_alloc_scan_eq)
next
  case False
  then show ?thesis by (simp add: TRY_ALLOC_FROM_def arena_free_def mreturn_def)
qed

lemma or_else_eq:
  "or_else m n s = (case m s of Ok (Some p) t \<Rightarrow> Ok p t | Ok None t \<Rightarrow> n t | Fault e t \<Rightarrow> Fault e t)"
  by (simp add: or_else_def mbind_def mreturn_def split: outcome.split option.split)

lemma malloc_first_fit:
  "malloc sz s = (case free_elements sz s of
     [] \<Rightarrow> Fault PowerOff (s\<lparr>console := console s @
             map of_char (''Found nothing to allocate -- return NULL'' @ [CHR 0x0A])\<rparr>)
   | (x, e) # _ \<Rightarrow> Ok (e + 1) (mark_used e s))"
  by (simp add: malloc_def or_else_eq TRY_ALLOC_FROM_eq free_elements_def arenas_def monad_simps
    split: list.split)

section \<open>Trace output\<close>

text \<open>Two operations that do the same from states that differ in what has been printed, apart from what they print.\<close>

fun set_console :: "u64 list \<Rightarrow> (('d, 'z) base_state_scheme, 'a) outcome \<Rightarrow> (('d, 'z) base_state_scheme, 'a) outcome" where
  "set_console d (Ok x t) = Ok x (t\<lparr>console := d\<rparr>)"
| "set_console d (Fault e t) = Fault e (t\<lparr>console := d\<rparr>)"

definition traced :: "(('d, 'z) base_state_scheme, 'a) kernel_op \<Rightarrow> (('d, 'z) base_state_scheme, 'a) kernel_op \<Rightarrow> bool" where
  "traced m m' \<longleftrightarrow> (\<forall>s c. \<exists>d. m' (s\<lparr>console := c\<rparr>) = set_console d (m s))"

lemma traced_or_else: "traced m m' \<Longrightarrow> traced n n' \<Longrightarrow> traced (or_else m n) (or_else m' n')"
  unfolding traced_def
proof (intro allI)
  fix s :: "('a, 'b) base_state_scheme" and c
  assume m: "\<forall>s c. \<exists>d. m' (s\<lparr>console := c\<rparr>) = set_console d (m s)" and n: "\<forall>s c. \<exists>d. n' (s\<lparr>console := c\<rparr>) = set_console d (n s)"
  from m obtain d where "m' (s\<lparr>console := c\<rparr>) = set_console d (m s)" by blast
  then show "\<exists>d. or_else m' n' (s\<lparr>console := c\<rparr>) = set_console d (or_else m n s)"
    using n by (auto simp: or_else_eq split: outcome.split option.split)
qed

definition arena_text :: "string \<Rightarrow> string \<Rightarrow> string \<Rightarrow> nat \<Rightarrow> u64 list" where
  "arena_text before label after i = map of_char (before @ label @ after) @ num_chars (unat (of_nat i :: u64)) @ [10]"

lemma arena_message_eq: "arena_message before label after i s = Ok () (s\<lparr>console := console s @ arena_text before label after i\<rparr>)"
  by (simp add: arena_message_def arena_text_def monad_simps)

lemma traced_scan: "traced (try_alloc_scan x start is) (try_alloc_scan_debug x label start is)"
proof (induction "is")
  case Nil
  show ?case by (auto simp: traced_def monad_simps)
next
  case (Cons i "is")
  let ?e = "arena_element x start i"
  have "\<exists>d. try_alloc_scan_debug x label start (i # is) (s\<lparr>console := c\<rparr>) = set_console d (try_alloc_scan x start (i # is) s)"
    for s :: "('a, 'b) base_state_scheme" and c
  proof (cases "ram s ?e = 0")
    case True
    then show ?thesis by (cases s) (auto simp: Let_def arena_message_eq monad_simps)
  next
    case False
    from Cons [unfolded traced_def, rule_format] obtain d where
      "try_alloc_scan_debug x label start is (s\<lparr>console := c @ arena_text ''Skipping already used '' label '' arena element at index: '' i\<rparr>)
        = set_console d (try_alloc_scan x start is s)" by blast
    with False show ?thesis by (auto simp: Let_def arena_message_eq monad_simps)
  qed
  then show ?case by (simp add: traced_def)
qed

lemma traced_arena:
  "(\<And>s c. start (s\<lparr>console := c\<rparr>) = start s) \<Longrightarrow> traced (\<lambda>s. TRY_ALLOC_FROM x (start s) sz s) (\<lambda>s. TRY_ALLOC_FROM_DEBUG x label (start s) sz s)"
  using traced_scan [unfolded traced_def, rule_format]
  by (cases "sz < of_nat x") (auto simp: traced_def TRY_ALLOC_FROM_def TRY_ALLOC_FROM_DEBUG_def monad_simps)

text \<open>
  The build with trace output allocates exactly what the default build allocates; only the console differs.
\<close>

theorem malloc_debug_equivalent: "traced (malloc sz) (malloc_debug sz)"
  unfolding malloc_def malloc_debug_def
  by (intro traced_or_else traced_arena) (auto simp: traced_def monad_simps)

section \<open>The allocator contract\<close>

text \<open>
  What the callers of either allocator rely on: an allocation only takes addresses that were
  still available, and they are no longer available afterwards.  From this alone it follows
  that the blocks of a sequence of allocations never overlap.
\<close>

primrec alloc_seq :: "('n \<Rightarrow> ('s, u64) kernel_op) \<Rightarrow> 'n list \<Rightarrow> ('s, u64 list) kernel_op" where
  "alloc_seq alloc [] = mreturn []"
| "alloc_seq alloc (n # ns) = mbind (alloc n) (\<lambda>p. mbind (alloc_seq alloc ns) (\<lambda>ps. mreturn (p # ps)))"

locale block_allocator =
  fixes alloc :: "'n \<Rightarrow> ('s, u64) kernel_op"
    and bytes_of :: "'n \<Rightarrow> nat"
    and admissible :: "'n \<Rightarrow> bool"
    and inv :: "'s \<Rightarrow> bool"
    and available :: "'s \<Rightarrow> u64 \<Rightarrow> bool"
  assumes alloc_inv: "inv s \<Longrightarrow> admissible n \<Longrightarrow> alloc n s = Ok p t \<Longrightarrow> inv t"
    and alloc_takes: "inv s \<Longrightarrow> admissible n \<Longrightarrow> alloc n s = Ok p t \<Longrightarrow> p \<noteq> 0 \<Longrightarrow>
      i < bytes_of n \<Longrightarrow> available s (p + of_nat i) \<and> \<not> available t (p + of_nat i)"
    and alloc_shrinks: "inv s \<Longrightarrow> admissible n \<Longrightarrow> alloc n s = Ok p t \<Longrightarrow>
      available t a \<Longrightarrow> available s a"
begin

lemma alloc_seq_available:
  assumes "inv s" and "\<forall>n\<in>set ns. admissible n" and "alloc_seq alloc ns s = Ok ps t"
    and "j < length ps" and "ps ! j \<noteq> 0" and "i < bytes_of (ns ! j)"
  shows "length ps = length ns \<and> available s (ps ! j + of_nat i)"
  using assms
proof (induction ns arbitrary: s ps j)
  case Nil
  then show ?case by (simp add: monad_simps)
next
  case (Cons n ns)
  from Cons.prems(3) obtain p u qs
    where a: "alloc n s = Ok p u" and r: "alloc_seq alloc ns u = Ok qs t" and ps: "ps = p # qs"
    by (auto simp: mbind_Ok_iff mreturn_def)
  have u: "inv u" by (rule alloc_inv [OF _ _ a]) (use Cons.prems(1,2) in simp_all)
  show ?case
  proof (cases j)
    case 0
    have "length qs = length ns"
      using r by (induction ns arbitrary: u qs) (auto simp: mbind_Ok_iff mreturn_def)
    moreover have "available s (p + of_nat i)"
      using 0 ps Cons.prems by (intro alloc_takes [THEN conjunct1, OF _ _ a]) simp_all
    ultimately show ?thesis using 0 ps by simp
  next
    case (Suc k)
    with Cons.prems ps r u Cons.IH [OF u _ r, of k]
    have "length qs = length ns \<and> available u (qs ! k + of_nat i)" by simp
    with Suc ps a Cons.prems(1,2) show ?thesis by (auto intro: alloc_shrinks)
  qed
qed

lemma alloc_seq_disjoint:
  assumes "inv s" and "\<forall>n\<in>set ns. admissible n" and "alloc_seq alloc ns s = Ok ps t"
    and "0 \<notin> set ps" and "j < k" and "k < length ps"
  shows "disjoint_ranges (ps ! j) (bytes_of (ns ! j)) (ps ! k) (bytes_of (ns ! k))"
  using assms
proof (induction ns arbitrary: s ps j k)
  case Nil
  then show ?case by (simp add: monad_simps)
next
  case (Cons n ns)
  from Cons.prems(3) obtain p u qs
    where a: "alloc n s = Ok p u" and r: "alloc_seq alloc ns u = Ok qs t" and ps: "ps = p # qs"
    by (auto simp: mbind_Ok_iff mreturn_def)
  have u: "inv u" by (rule alloc_inv [OF _ _ a]) (use Cons.prems(1,2) in simp_all)
  obtain k' where k: "k = Suc k'" using Cons.prems(5) by (cases k) auto
  show ?case
  proof (cases j)
    case 0
    have "p + of_nat x \<noteq> qs ! k' + of_nat y" if "x < bytes_of n" "y < bytes_of (ns ! k')" for x y
    proof -
      have "\<not> available u (p + of_nat x)"
        using Cons.prems ps that a by (intro alloc_takes [THEN conjunct2]) auto
      moreover have "qs ! k' \<noteq> 0"
        using Cons.prems(4,6) ps k by (auto simp: in_set_conv_nth)
      then have "available u (qs ! k' + of_nat y)"
        using alloc_seq_available [OF u _ r, of k' y] Cons.prems(2,6) ps k that by simp
      ultimately show ?thesis by auto
    qed
    with 0 k ps show ?thesis by (simp add: disjoint_ranges_def)
  next
    case (Suc j')
    with Cons.prems ps k Cons.IH [OF u _ r, of j' k'] show ?thesis by simp
  qed
qed

end

section \<open>The arenas in the heap\<close>

definition arena_base :: "nat \<Rightarrow> nat" where
  "arena_base x = (if x = 32 then 0 else if x = 64 then 330 else if x = 128 then 980
     else if x = 256 then 2270 else 4840)"

definition slot_off :: "nat \<Rightarrow> nat \<Rightarrow> nat" where
  "slot_off x i = arena_base x + i * (1 + x)"

definition arenas_placed :: "('d, 'z) heap_state_scheme \<Rightarrow> bool" where
  "arenas_placed s \<longleftrightarrow>
     arenas s = map (\<lambda>x. (x, heap_start s + of_nat (arena_base x))) [32, 64, 128, 256, 512] \<and>
     unat (heap_start s) + 9970 \<le> unat (heap_end s)"

definition heap_available :: "('d, 'z) heap_state_scheme \<Rightarrow> u64 \<Rightarrow> bool" where
  "heap_available s a \<longleftrightarrow> (\<exists>x\<in>{32, 64, 128, 256, 512}. \<exists>i<10. \<exists>k<x.
     ram s (heap_start s + of_nat (slot_off x i)) = 0 \<and> a = heap_start s + of_nat (slot_off x i + 1 + k))"

lemma slot_off_apart:
  assumes "x \<in> {32, 64, 128, 256, 512}" "y \<in> {32, 64, 128, 256, 512}" "i < 10" "j < 10"
  shows "(x, i) = (y, j) \<or> slot_off x i + 1 + x \<le> slot_off y j \<or> slot_off y j + 1 + y \<le> slot_off x i"
  using assms by (auto simp: slot_off_def arena_base_def)

lemma slot_off_bound:
  "x \<in> {32, 64, 128, 256, 512} \<Longrightarrow> i < 10 \<Longrightarrow> slot_off x i + 1 + x \<le> 9970"
  by (auto simp: slot_off_def arena_base_def)

lemma heap_addr_inj:
  assumes "arenas_placed s" and "m < 9970" and "n < 9970"
  shows "heap_start s + of_nat m = heap_start s + of_nat n \<longleftrightarrow> m = n"
proof -
  have "unat (of_nat m :: u64) = m" "unat (of_nat n :: u64) = n"
    using assms(2,3) by (simp_all add: unat_of_nat_small)
  then show ?thesis by (metis add_left_cancel)
qed

lemma free_elements_member:
  assumes "arenas_placed s" and "(x, e) \<in> set (free_elements sz s)"
  obtains i where "x \<in> {32, 64, 128, 256, 512}" and "i < 10"
    and "e = heap_start s + of_nat (slot_off x i)" and "ram s e = 0" and "unat sz < x"
proof -
  have "arena_element x (heap_start s + of_nat (arena_base x)) i = heap_start s + of_nat (slot_off x i)" for x i
    by (simp add: arena_element_def slot_off_def arena_element_size_def)
  with assms have "x \<in> {32, 64, 128, 256, 512} \<and> sz < of_nat x \<and> ram s e = 0 \<and>
      (\<exists>i<10. e = heap_start s + of_nat (slot_off x i))"
    by (auto simp: free_elements_def arenas_placed_def arena_free_def simp del: upt_Suc split: if_splits)
  moreover from this have "unat sz < x"
    by (auto simp: word_less_nat_alt)
  ultimately show ?thesis using that by blast
qed

lemma malloc_cases:
  assumes "arenas_placed s" and "malloc sz s = Ok p t"
  obtains x i where "x \<in> {32, 64, 128, 256, 512}" and "i < 10" and "unat sz < x"
    and "p = heap_start s + of_nat (slot_off x i + 1)"
    and "ram s (heap_start s + of_nat (slot_off x i)) = 0"
    and "t = mark_used (heap_start s + of_nat (slot_off x i)) s"
proof -
  from assms(2) obtain x e r where fr: "free_elements sz s = (x, e) # r"
    and p: "p = e + 1" and t: "t = mark_used e s"
    by (auto simp: malloc_first_fit split: list.splits)
  from fr have "(x, e) \<in> set (free_elements sz s)" by simp
  with assms(1) obtain i where i: "x \<in> {32, 64, 128, 256, 512}" "i < 10" "unat sz < x"
    and e: "e = heap_start s + of_nat (slot_off x i)" and free: "ram s e = 0"
    by (elim free_elements_member) blast
  have "p = heap_start s + of_nat (slot_off x i + 1)" using p e by simp
  then show thesis using that i e free t by blast
qed

lemma mark_used_simps [simp]:
  "heap_start (mark_used e s) = heap_start s" "heap_end (mark_used e s) = heap_end s"
  "arenas (mark_used e s) = arenas s" "ram (mark_used e s) = (ram s)(e := 1)"
  by (simp_all add: mark_used_def arenas_def)

lemma arenas_placed_mark_used [simp]: "arenas_placed (mark_used e s) = arenas_placed s"
  by (simp add: arenas_placed_def)

interpretation heap: block_allocator malloc unat "\<lambda>sz. True" arenas_placed heap_available
proof unfold_locales
  fix s :: "('d, 'z) heap_state_scheme" and n p t i a
  assume inv: "arenas_placed s" and m: "malloc n s = Ok p t"
  obtain x j where xj: "x \<in> {32, 64, 128, 256, 512}" "j < 10" "unat n < x"
    and p: "p = heap_start s + of_nat (slot_off x j + 1)"
    and free: "ram s (heap_start s + of_nat (slot_off x j)) = 0"
    and t: "t = mark_used (heap_start s + of_nat (slot_off x j)) s"
    using malloc_cases [OF inv m] by blast
  show "arenas_placed t" using inv t by simp
  show "heap_available s a" if "heap_available t a"
    using that unfolding t heap_available_def by (auto split: if_splits)
  assume i: "i < unat n"
  have pi: "p + of_nat i = heap_start s + of_nat (slot_off x j + 1 + i)"
    by (simp add: p)
  have "heap_available s (p + of_nat i)"
    unfolding heap_available_def pi using xj i free
    by (intro bexI [of _ x] exI [of _ j] conjI exI [of _ i]) simp_all
  moreover have "\<not> heap_available t (p + of_nat i)"
  proof
    assume "heap_available t (p + of_nat i)"
    then obtain y l k where y: "y \<in> {32, 64, 128, 256, 512}" "l < 10" "k < y"
      and fr: "ram t (heap_start s + of_nat (slot_off y l)) = 0"
      and eq: "heap_start s + of_nat (slot_off x j + 1 + i) = heap_start s + of_nat (slot_off y l + 1 + k)"
      unfolding heap_available_def pi by (auto simp: t)
    have "slot_off x j + 1 + i < 9970" and "slot_off y l + 1 + k < 9970"
      using slot_off_bound [of x j] slot_off_bound [of y l] xj y i by linarith+
    then have "slot_off x j + 1 + i = slot_off y l + 1 + k"
      using eq heap_addr_inj [OF inv] by blast
    then have "(x, j) = (y, l)"
      using slot_off_apart [of x y j l] xj y i by linarith
    with fr show False by (simp add: t)
  qed
  ultimately show "heap_available s (p + of_nat i) \<and> \<not> heap_available t (p + of_nat i)" by simp
qed

section \<open>The frontier of the forever storage\<close>

lemma and_not_mask_word: "(x :: 'a::len word) AND NOT (mask k) = push_bit k (drop_bit k x)"
  by (rule bit_word_eqI) (auto simp: bit_simps)

lemma unat_and_not_mask: "unat ((x :: 'a::len word) AND NOT (mask k)) = unat x div 2 ^ k * 2 ^ k"
proof -
  have "unat x div 2 ^ k * 2 ^ k < 2 ^ LENGTH('a)"
    by (rule le_less_trans [OF div_times_less_eq_dividend unsigned_less])
  then show ?thesis
    by (simp only: and_not_mask_word unsigned_push_bit_eq unsigned_drop_bit_eq)
      (simp add: push_bit_eq_mult drop_bit_eq_div take_bit_nat_eq_self)
qed

lemma unat_ALIGN_UP:
  fixes a :: "'a::len word"
  assumes "unat a + 2 ^ k \<le> 2 ^ LENGTH('a)" and "k < LENGTH('a)"
  shows "unat (ALIGN_UP a (2 ^ k)) = (unat a + 2 ^ k - 1) div 2 ^ k * 2 ^ k"
proof -
  have m: "(2 ^ k - 1 :: 'a word) = mask k" by (simp add: mask_eq_exp_minus_1)
  have "(mask k :: 'a word) = of_nat (2 ^ k - 1)" by (simp add: mask_eq_exp_minus_1 of_nat_diff)
  moreover have "2 ^ k - 1 < (2 :: nat) ^ LENGTH('a)"
    using power_strict_increasing [OF assms(2), of "2 :: nat"] by linarith
  ultimately have "unat (mask k :: 'a word) = 2 ^ k - 1"
    by (metis unat_of_nat_small)
  moreover have "(0 :: nat) < 2 ^ k" by simp
  ultimately have "unat a + unat (mask k :: 'a word) < 2 ^ LENGTH('a)"
    and "unat a + unat (mask k :: 'a word) = unat a + 2 ^ k - 1"
    using assms(1) by linarith+
  then have "unat (a + mask k) = unat a + 2 ^ k - 1"
    by (simp only: unat_add_small)
  moreover have "a + 2 ^ k - 1 = a + mask k" using m by (metis add_diff_eq)
  ultimately have "unat (a + 2 ^ k - 1) = unat a + 2 ^ k - 1" by (simp only:)
  then show ?thesis by (simp add: ALIGN_UP_def m unat_and_not_mask)
qed

lemma ALIGN_UP_bounds:
  fixes a :: "'a::len word"
  assumes "unat a + 2 ^ k \<le> 2 ^ LENGTH('a)" and "k < LENGTH('a)"
  shows "2 ^ k dvd unat (ALIGN_UP a (2 ^ k))" and "unat a \<le> unat (ALIGN_UP a (2 ^ k))"
    and "unat (ALIGN_UP a (2 ^ k)) < unat a + 2 ^ k"
proof -
  let ?n = "unat a + 2 ^ k - 1" and ?b = "2 ^ k :: nat"
  have eq: "?n div ?b * ?b + ?n mod ?b = ?n" by (rule div_mult_mod_eq)
  have lt: "?n mod ?b < ?b" by simp
  show "2 ^ k dvd unat (ALIGN_UP a (2 ^ k))" by (simp add: unat_ALIGN_UP [OF assms])
  show "unat a \<le> unat (ALIGN_UP a (2 ^ k))" "unat (ALIGN_UP a (2 ^ k)) < unat a + 2 ^ k"
    unfolding unat_ALIGN_UP [OF assms] using eq lt by linarith+
qed

definition forever_ok :: "linker \<Rightarrow> ('d, 'z) heap_state_scheme \<Rightarrow> bool" where
  "forever_ok ld s \<longleftrightarrow> forever_storage_frontier s \<le> ld_forever_storage_stop ld \<and>
     unat (ld_forever_storage_stop ld) < 2 ^ 62"

definition forever_available :: "linker \<Rightarrow> ('d, 'z) heap_state_scheme \<Rightarrow> u64 \<Rightarrow> bool" where
  "forever_available ld s a \<longleftrightarrow> forever_storage_frontier s \<le> a \<and> a < ld_forever_storage_stop ld"

lemma forever_alloc_cases:
  assumes "forever_ok ld s" and "unat sz < 2 ^ 62" and "k < 62"
    and "forever_alloc_aligned ld sz (2 ^ k) s = Ok p t"
  obtains (full) "p = 0" and "forever_storage_frontier t = forever_storage_frontier s"
      and "unat (ld_forever_storage_stop ld) < unat (ALIGN_UP (forever_storage_frontier s) (2 ^ k)) + unat sz"
  | (alloc) "p = ALIGN_UP (forever_storage_frontier s) (2 ^ k)" and "2 ^ k dvd unat p"
      and "unat (forever_storage_frontier s) \<le> unat p"
      and "unat (forever_storage_frontier t) = unat p + unat sz"
      and "unat p + unat sz \<le> unat (ld_forever_storage_stop ld)"
proof -
  let ?f = "forever_storage_frontier s" and ?stop = "ld_forever_storage_stop ld"
  let ?a = "ALIGN_UP ?f (2 ^ k)"
  have k: "(2 :: nat) ^ k < 2 ^ 62" using assms(3) by (intro power_strict_increasing) simp_all
  have f: "unat ?f \<le> unat ?stop" "unat ?stop < 2 ^ 62"
    using assms(1) by (simp_all add: forever_ok_def word_le_nat_alt)
  have "unat ?f + 2 ^ k \<le> 2 ^ LENGTH(64)" and "k < LENGTH(64)" using f k assms(3) by simp_all
  note al = ALIGN_UP_bounds [OF this]
  have sum: "unat (?a + sz) = unat ?a + unat sz"
    using al(3) f k assms(2) by (intro unat_add_small) simp
  show thesis
  proof (cases "?a + sz > ?stop")
    case True
    with assms(4) show thesis
      by (intro full) (auto simp: forever_alloc_aligned_def monad_simps Let_def word_less_nat_alt sum)
  next
    case False
    with assms(4) al sum show thesis
      by (intro alloc) (auto simp: forever_alloc_aligned_def Let_def not_less word_le_nat_alt)
  qed
qed

interpretation forever: block_allocator
    "\<lambda>(sz, k). forever_alloc_aligned ld sz (2 ^ k)" "\<lambda>(sz, k). unat sz"
    "\<lambda>(sz, k). unat sz < 2 ^ 62 \<and> k < 62" "forever_ok ld" "forever_available ld" for ld
proof (unfold_locales; clarsimp)
  fix s :: "('d, 'z) heap_state_scheme" and sz :: u64 and k p t
  assume inv: "forever_ok ld s" and adm: "unat sz < 4611686018427387904" "k < 62"
    and a: "forever_alloc_aligned ld sz (2 ^ k) s = Ok p t"
  then have adm': "unat sz < 2 ^ 62" by simp
  note alloc_cases = forever_alloc_cases [OF inv adm' adm(2) a, case_names full alloc]
  show "forever_ok ld t"
    by (cases rule: alloc_cases) (use inv in \<open>simp_all add: forever_ok_def word_le_nat_alt\<close>)
  show "forever_available ld s b" if "forever_available ld t b" for b
    by (cases rule: alloc_cases) (use that in \<open>simp_all add: forever_available_def word_le_nat_alt\<close>)
  fix i assume "p \<noteq> 0" and i: "i < unat sz"
  show "forever_available ld s (p + of_nat i) \<and> \<not> forever_available ld t (p + of_nat i)"
  proof (cases rule: alloc_cases)
    case alloc
    have "unat (p + of_nat i) = unat p + i"
      using alloc(5) i inv by (intro unat_add_of_nat) (simp add: forever_ok_def)
    with alloc i show ?thesis
      by (simp add: forever_available_def word_le_nat_alt word_less_nat_alt)
  qed (use \<open>p \<noteq> 0\<close> in simp)
qed

section \<open>Properties of the allocators\<close>

text \<open>
  The addresses of the sections that ld/standard.lds places in the region it names
  \<open>demandos_managed\<close>: 16 KiB of stack, 8 KiB of kernel metadata, 80 KiB of forever storage and
  24 MiB of heap, from address \<open>0x80300000\<close> on.
\<close>

definition demandos_linker :: linker where
  "demandos_linker = \<lparr>ld_heap_start = 0x8031A000, ld_heap_end = 0x81B1A000,
     ld_forever_storage_start = 0x80306000, ld_forever_storage_stop = 0x8031A000\<rparr>"

text \<open>The globals of memory.c before the first call, over a bus and a console.\<close>

definition heap_init :: "linker \<Rightarrow> 'd bus \<Rightarrow> 'd heap_state" where
  "heap_init ld b = \<lparr>bus = b, console = [], heap_start = 0, heap_end = 0,
     arena_start_32 = 0, arena_end_32 = 0, arena_start_64 = 0, arena_end_64 = 0,
     arena_start_128 = 0, arena_end_128 = 0, arena_start_256 = 0, arena_end_256 = 0,
     arena_start_512 = 0, arena_end_512 = 0,
     forever_storage_frontier = ld_forever_storage_start ld\<rparr>"

text \<open>A RAM of zeroes, no virtqueues, and a device without state: enough to run the allocators.\<close>

definition blank_bus :: "unit bus" where
  "blank_bus = \<lparr>mem = (\<lambda>_. 0), desc_mem = (\<lambda>_. []),
     avail_mem = (\<lambda>_. \<lparr>a_flags = 0, a_idx = 0, a_ring = []\<rparr>),
     used_mem = (\<lambda>_. \<lparr>u_flags = 0, u_idx = 0, u_ring = []\<rparr>), dev = ()\<rparr>"

definition placed_heap :: "linker \<Rightarrow> ('d, 'z) heap_state_scheme \<Rightarrow> ('d, 'z) heap_state_scheme" where
  "placed_heap ld s = (let h = ld_heap_start ld in
     s\<lparr>heap_start := h, heap_end := ld_heap_end ld,
       arena_start_32 := h, arena_end_32 := h + 330, arena_start_64 := h + 330, arena_end_64 := h + 980,
       arena_start_128 := h + 980, arena_end_128 := h + 2270, arena_start_256 := h + 2270,
       arena_end_256 := h + 4840, arena_start_512 := h + 4840, arena_end_512 := h + 9970\<rparr>)"

lemma initialize_heap_eq:
  "initialize_heap ld s = (if ld_heap_start ld + 9970 > ld_heap_end ld
     then Fault PowerOff ((placed_heap ld s)\<lparr>console := console s @
       map of_char (''Not enough room in the heap to allocate all arenas.'' @ [CHR 0x0A])\<rparr>)
     else Ok () (placed_heap ld s))"
  by (simp add: initialize_heap_def placed_heap_def arena_mismatch_def monad_simps Let_def
    ARENA_ELEMENT_COUNT_def arena_element_size_def add.assoc)

lemma arenas_placed_heap:
  "unat (ld_heap_start ld) + 9970 \<le> unat (ld_heap_end ld) \<Longrightarrow> arenas_placed (placed_heap ld s)"
  by (simp add: arenas_placed_def placed_heap_def arenas_def arena_base_def Let_def)

text \<open>
  C34.  Initialising the heap succeeds exactly when the five arenas fit between the two linker
  symbols, and then they lie one behind the other from the start of the heap; otherwise the
  machine is powered off.
\<close>

theorem initialize_heap_correct:
  assumes "unat (ld_heap_start ld) + 9970 < 2 ^ 64"
  shows "if unat (ld_heap_start ld) + 9970 \<le> unat (ld_heap_end ld)
     then \<exists>t. initialize_heap ld s = Ok () t \<and> arenas_placed t \<and> bus t = bus s \<and>
            heap_start t = ld_heap_start ld \<and> heap_end t = ld_heap_end ld
     else \<exists>t. initialize_heap ld s = Fault PowerOff t"
proof -
  have "unat (ld_heap_start ld + of_nat 9970) = unat (ld_heap_start ld) + 9970"
    using assms by (intro unat_add_of_nat) simp
  then have "ld_heap_start ld + 9970 > ld_heap_end ld \<longleftrightarrow>
      \<not> unat (ld_heap_start ld) + 9970 \<le> unat (ld_heap_end ld)"
    by (simp add: word_less_nat_alt not_le)
  then show ?thesis
    by (auto simp: initialize_heap_eq arenas_placed_heap) (simp_all add: placed_heap_def Let_def)
qed

theorem initialize_heap_correct_witness:
  "\<exists>t. initialize_heap demandos_linker (heap_init demandos_linker blank_bus) = Ok () t \<and> arenas_placed t"
  using initialize_heap_correct [of demandos_linker "heap_init demandos_linker blank_bus"]
  by (auto simp: demandos_linker_def)

lemma malloc_in_heap:
  assumes "arenas_placed s" and "malloc n s = Ok p t"
  shows "unat (heap_start s) < unat p \<and> unat p + unat n \<le> unat (heap_end s)"
proof -
  obtain x l where x: "x \<in> {32, 64, 128, 256, 512}" "l < 10" "unat n < x"
    and p: "p = heap_start s + of_nat (slot_off x l + 1)"
    by (rule malloc_cases [OF assms])
  have b: "slot_off x l + 1 + x \<le> 9970" using x by (intro slot_off_bound)
  have h: "unat (heap_start s) + 9970 \<le> unat (heap_end s)" using assms(1) by (simp add: arenas_placed_def)
  have "unat p = unat (heap_start s) + (slot_off x l + 1)"
    unfolding p using b h unat_u64_less [of "heap_end s"] by (intro unat_add_of_nat) simp
  with b h x show ?thesis by simp
qed

lemma alloc_seq_malloc_in_heap:
  assumes "arenas_placed s" and "alloc_seq malloc ns s = Ok ps t" and "i < length ps"
  shows "unat (heap_start s) < unat (ps ! i) \<and> unat (ps ! i) + unat (ns ! i) \<le> unat (heap_end s)"
  using assms
proof (induction ns arbitrary: s ps i)
  case (Cons n ns)
  from Cons.prems(2) obtain p u qs
    where a: "malloc n s = Ok p u" and r: "alloc_seq malloc ns u = Ok qs t" and ps: "ps = p # qs"
    by (auto simp: mbind_Ok_iff mreturn_def)
  from malloc_cases [OF Cons.prems(1) a]
  have "arenas_placed u" "heap_start u = heap_start s" "heap_end u = heap_end s"
    using Cons.prems(1) by (metis arenas_placed_mark_used mark_used_simps(1,2))+
  with malloc_in_heap [OF Cons.prems(1) a] Cons.IH [OF _ r, of "i - 1"] Cons.prems(3) ps
  show ?case by (cases i) auto
qed (simp add: monad_simps)

text \<open>
  C13.  The blocks that any sequence of kernel allocations returns, each as long as was asked
  for, are pairwise disjoint and lie inside the heap.
\<close>

theorem malloc_blocks_disjoint:
  assumes "arenas_placed s" and "alloc_seq malloc ns s = Ok ps t" and "j < k" and "k < length ps"
  shows "disjoint_ranges (ps ! j) (unat (ns ! j)) (ps ! k) (unat (ns ! k)) \<and>
    unat (heap_start s) \<le> unat (ps ! k) \<and> unat (ps ! k) + unat (ns ! k) \<le> unat (heap_end s)"
proof -
  note range = alloc_seq_malloc_in_heap [OF assms(1,2)]
  have "0 \<notin> set ps" using range by (force simp: in_set_conv_nth)
  with range heap.alloc_seq_disjoint [OF assms(1) _ assms(2)] assms(3,4)
  show ?thesis by (simp add: less_imp_le)
qed

theorem malloc_blocks_disjoint_witness:
  "disjoint_ranges (0x8031A000 + 4841) 500 (0x8031A000 + 5354) 500"
proof -
  let ?s = "placed_heap demandos_linker (heap_init demandos_linker blank_bus)"
  have "arenas_placed ?s"
    by (intro arenas_placed_heap) (simp add: demandos_linker_def)
  moreover have "\<exists>t. alloc_seq malloc [500, 500] ?s = Ok [0x8031A000 + 4841, 0x8031A000 + 5354] t"
    by (simp add: monad_simps malloc_def or_else_eq TRY_ALLOC_FROM_def ARENA_ELEMENT_COUNT_def
      placed_heap_def Let_def heap_init_def demandos_linker_def blank_bus_def upt_rec
      arena_element_def arena_element_size_def)
  ultimately show ?thesis
    using malloc_blocks_disjoint [of ?s "[500, 500]" _ _ 0 1] by auto
qed

text \<open>
  \<open>malloc\<close> is first fit: it takes the first unused element of the smallest arena whose
  buffers are strictly larger than the request, marks only that element as used and returns its
  buffer; when no arena has a free element it prints a message and powers the machine off.
\<close>

theorem malloc_is_first_fit:
  "malloc sz s = (case free_elements sz s of
     [] \<Rightarrow> Fault PowerOff (s\<lparr>console := console s @
             map of_char (''Found nothing to allocate -- return NULL'' @ [CHR 0x0A])\<rparr>)
   | (x, e) # _ \<Rightarrow> Ok (e + 1) (s\<lparr>bus := (bus s)\<lparr>mem := (ram s)(e := 1)\<rparr>\<rparr>))"
  by (simp add: malloc_first_fit mark_used_def split: list.split)

text \<open>
  The forever allocator always returns: with the aligned frontier, after which the frontier
  is the end of the block, when the block fits below the end of the storage, and with a null
  pointer and an unchanged frontier otherwise.  A block it returns starts at a multiple of the
  alignment, not below the old frontier.
\<close>

theorem forever_alloc_correct:
  assumes "forever_ok ld s" and "unat sz < 2 ^ 62" and "k < 62"
  shows "\<exists>p t. forever_alloc_aligned ld sz (2 ^ k) s = Ok p t \<and> forever_ok ld t \<and>
    (if unat (ALIGN_UP (forever_storage_frontier s) (2 ^ k)) + unat sz \<le> unat (ld_forever_storage_stop ld)
     then 2 ^ k dvd unat p \<and> unat (forever_storage_frontier s) \<le> unat p \<and>
          unat p < unat (forever_storage_frontier s) + 2 ^ k \<and>
          unat (forever_storage_frontier t) = unat p + unat sz
     else p = 0 \<and> forever_storage_frontier t = forever_storage_frontier s)"
proof -
  have "\<exists>p t. forever_alloc_aligned ld sz (2 ^ k) s = Ok p t"
    by (simp add: forever_alloc_aligned_def monad_simps Let_def)
  then obtain p t where a: "forever_alloc_aligned ld sz (2 ^ k) s = Ok p t" by blast
  have "forever_ok ld t" using forever.alloc_inv [of ld s "(sz, k)"] assms a by simp
  have "(2 :: nat) ^ k < 2 ^ 62" using assms(3) by (intro power_strict_increasing) simp_all
  then have "unat (forever_storage_frontier s) + 2 ^ k \<le> 2 ^ LENGTH(64)"
    using assms(1) by (simp add: forever_ok_def word_le_nat_alt)
  note lt = ALIGN_UP_bounds(3) [OF this]
  show ?thesis
  proof (cases rule: forever_alloc_cases [OF assms a, case_names full alloc])
    case full
    with a \<open>forever_ok ld t\<close> show ?thesis by auto
  next
    case alloc
    with a \<open>forever_ok ld t\<close> lt assms(3) show ?thesis by auto
  qed
qed

theorem forever_alloc_correct_witness:
  "\<exists>p t. forever_alloc_aligned demandos_linker 8192 4096 (heap_init demandos_linker blank_bus) = Ok p t \<and>
     4096 dvd unat p"
  using forever_alloc_correct [of demandos_linker "heap_init demandos_linker blank_bus" 8192 12]
  by (fastforce simp: forever_ok_def heap_init_def demandos_linker_def ALIGN_UP_def word_le_nat_alt
    split: if_splits)

text \<open>
  The blocks that a sequence of forever allocations returns never overlap.
\<close>

theorem forever_blocks_disjoint:
  assumes "forever_ok ld s" and "\<forall>(sz, k)\<in>set ns. unat sz < 2 ^ 62 \<and> k < 62"
    and "alloc_seq (\<lambda>(sz, k). forever_alloc_aligned ld sz (2 ^ k)) ns s = Ok ps t"
    and "0 \<notin> set ps" and "i < j" and "j < length ps"
  shows "disjoint_ranges (ps ! i) (unat (fst (ns ! i))) (ps ! j) (unat (fst (ns ! j)))"
  using forever.alloc_seq_disjoint [OF assms(1) assms(2,3,4,5,6)] by (simp add: split_def)

theorem forever_blocks_disjoint_witness:
  "disjoint_ranges 0x80306000 4096 0x80307000 8192"
proof -
  let ?s = "heap_init demandos_linker blank_bus"
  have "forever_ok demandos_linker ?s"
    by (simp add: forever_ok_def heap_init_def demandos_linker_def word_le_nat_alt)
  moreover have "\<exists>t. alloc_seq (\<lambda>(sz, k). forever_alloc_aligned demandos_linker sz (2 ^ k))
      [(4096, 12), (8192, 12)] ?s = Ok [0x80306000, 0x80307000] t"
    by (simp add: monad_simps forever_alloc_aligned_def heap_init_def demandos_linker_def ALIGN_UP_def Let_def)
  ultimately show ?thesis
    using forever_blocks_disjoint [of demandos_linker ?s "[(4096, 12), (8192, 12)]" _ _ 0 1] by auto
qed

end
