(* ===== verification/Virtio.thy ===== *)
theory Virtio
  imports Memory
begin

text \<open>
  The virtqueue layer (src/virtio.c, include/virtio.h and the driver table of
  src/virtio_driver.c).  A \<open>vring\<close> record is the driver's private view of a queue: its size, its
  bookkeeping indices and the addresses of the three shared parts, whose contents are in the
  typed memories of the bus.  A pointer to a vring is the pair of a slot of the driver table and
  an index into the driver's array of vrings.  Objects that a function keeps on its stack and
  hands to a device have addresses that the compiler chooses: they are the parameter \<open>frame\<close>.
\<close>

section \<open>State\<close>

record vring_bookeeping =
  used_last :: u16
  avail_next :: u16
  avail_avail :: u16
  used_avail :: u16
  descr_head :: u16
  descr_next :: u16

record vring =
  vr_num :: u32
  vr_size :: u64
  bouncebufs :: u64
  bookeeping :: vring_bookeeping
  vr_desc :: u64
  vr_avail :: u64
  vr_used :: u64

datatype driver_init_f = Init_entropy_virtio | Init_blk_virtio | Init_console_virtio

record virtio_driver =
  device_id :: u32
  initialized :: bool
  init_f :: "driver_init_f option"
  host :: u64
  pci :: u32
  conf :: u64
  vring :: "vring list"

record 'd virtio_state = "'d heap_state" +
  virtio_drivers :: "virtio_driver list"
  pci_config_base :: u32

text \<open>
  Addresses of stack objects (\<open>buf\<close> of \<open>virtio_get_randomness\<close>; \<open>blk_read_hdr\<close>,
  \<open>blk_write_hdr\<close> and \<open>blk_io_status\<close> of the sector functions; \<open>blk\<close> of the synchronous block
  functions) and the bytes that an uninitialised stack object of a given size holds.
\<close>

record frame =
  rng_buf :: u64
  blk_hdr :: u64
  blk_status :: u64
  blk_buf :: u64
  uninit :: "nat \<Rightarrow> bytes"

type_synonym vref = "nat \<times> nat"

definition VRING_DESC_NEXT :: u16 where
  "VRING_DESC_NEXT = 1"

definition VRING_DESCR_WRITABLE :: u16 where
  "VRING_DESCR_WRITABLE = 2"

definition MAX_VIRTIO_DEVICE_ID :: nat where
  "MAX_VIRTIO_DEVICE_ID = 10"

section \<open>Access to drivers and vrings\<close>

definition find_virtio_driver :: "u16 \<Rightarrow> nat option" where
  "find_virtio_driver type = (if type = 0 \<or> type > 10 then None else Some (unat type))"

definition get_driver :: "nat \<Rightarrow> (('d, 'z) virtio_state_scheme, virtio_driver) kernel_op" where
  "get_driver d s = (if d < length (virtio_drivers s) then Ok (virtio_drivers s ! d) s else Fault OutOfBounds s)"

definition set_driver :: "nat \<Rightarrow> virtio_driver \<Rightarrow> (('d, 'z) virtio_state_scheme, unit) kernel_op" where
  "set_driver d v = mmodify (\<lambda>s. s\<lparr>virtio_drivers := (virtio_drivers s)[d := v]\<rparr>)"

definition get_vring :: "vref \<Rightarrow> (('d, 'z) virtio_state_scheme, vring) kernel_op" where
  "get_vring = (\<lambda>(d, q). mbind (get_driver d) (\<lambda>drv.
     if vring drv = [] then mfault NullPointer
     else if q < length (vring drv) then mreturn (vring drv ! q) else mfault OutOfBounds))"

definition set_vring :: "vref \<Rightarrow> vring \<Rightarrow> (('d, 'z) virtio_state_scheme, unit) kernel_op" where
  "set_vring = (\<lambda>(d, q) v. mbind (get_driver d) (\<lambda>drv. set_driver d (drv\<lparr>vring := (vring drv)[q := v]\<rparr>)))"

definition mbus :: "('d bus \<Rightarrow> 'd bus) \<Rightarrow> (('d, 'z) virtio_state_scheme, unit) kernel_op" where
  "mbus f = mmodify (\<lambda>s. s\<lparr>bus := f (bus s)\<rparr>)"

section \<open>Descriptors and rings\<close>

definition vring_use_descr :: "vref \<Rightarrow> (('d, 'z) virtio_state_scheme, u16) kernel_op" where
  "vring_use_descr r = mbind (get_vring r) (\<lambda>v. mreturn (descr_next (bookeeping v)))"

definition vring_unuse_descr :: "vref \<Rightarrow> u16 \<Rightarrow> (('d, 'z) virtio_state_scheme, u16) kernel_op" where
  "vring_unuse_descr r goback = mbind (get_vring r) (\<lambda>v.
     mthen (set_vring r (v\<lparr>bookeeping := (bookeeping v)\<lparr>descr_next := goback\<rparr>\<rparr>)) (mreturn goback))"

definition set_desc :: "u64 \<Rightarrow> nat \<Rightarrow> vring_desc_item \<Rightarrow> (('d, 'z) virtio_state_scheme, unit) kernel_op" where
  "set_desc p i item = (\<lambda>s. if i < length (desc_mem (bus s) p)
     then mbus (\<lambda>b. b\<lparr>desc_mem := (desc_mem b)(p := (desc_mem b p)[i := item])\<rparr>) s
     else Fault OutOfBounds s)"

definition vring_add_to_descr ::
    "vref \<Rightarrow> u64 \<Rightarrow> u32 \<Rightarrow> u16 \<Rightarrow> u32 \<Rightarrow> bool \<Rightarrow> (('d, 'z) virtio_state_scheme, u16) kernel_op" where
  "vring_add_to_descr r buf sz flags where ends_chain = mbind (get_vring r) (\<lambda>v.
     if where \<ge> vr_num v then
       mthen (eprint_str (''Error: Attempting to use a descriptor entry beyond the available quantity.'' @ [CHR 0x0A])) epoweroff
     else if vr_num v - 1 = 0 then mfault DivisionByZero
     else
       let next = (ucast (descr_next (bookeeping v)) + 1) mod (vr_num v - 1) :: u32 in
       mthen (set_desc (vr_desc v) (unat where)
          \<lparr>d_addr = buf, d_len = sz,
           d_flags = (if ends_chain then flags AND NOT VRING_DESC_NEXT else flags OR VRING_DESC_NEXT),
           d_next = (if ends_chain then 0 else ucast next)\<rparr>)
       (mthen (if next \<ge> vr_num v then
                 eprint_str (''Warning: Providing a next index for a descriptor that is beyond the available quantity.'' @ [CHR 0x0A])
               else mreturn ())
       (mthen (set_vring r (v\<lparr>bookeeping := (bookeeping v)\<lparr>descr_next := ucast next\<rparr>\<rparr>))
         (mreturn (ucast next)))))"

definition vring_post_descr :: "vref \<Rightarrow> u32 \<Rightarrow> (('d, 'z) virtio_state_scheme, unit) kernel_op" where
  "vring_post_descr r used_descr_idx = mbind (get_vring r) (\<lambda>v.
     if vr_num v - 1 = 0 then mfault DivisionByZero
     else
       let slot = unat (ucast (avail_next (bookeeping v)) mod (vr_num v - 1) :: u32);
           next = avail_next (bookeeping v) + 1 in
       (\<lambda>s. if slot < length (a_ring (avail_mem (bus s) (vr_avail v))) then
          mthen (mbus (\<lambda>b. let a = avail_mem b (vr_avail v) in
             b\<lparr>avail_mem := (avail_mem b)(vr_avail v :=
                a\<lparr>a_ring := (a_ring a)[slot := ucast used_descr_idx], a_idx := next\<rparr>)\<rparr>))
          (set_vring r (v\<lparr>bookeeping := (bookeeping v)\<lparr>avail_next := next\<rparr>\<rparr>)) s
        else Fault OutOfBounds s))"

text \<open>
  The polling loop: while the used index of the ring at \<open>u\<close> is the one last seen, the devices
  run on.  \<open>None\<close> stands for polling for ever.
\<close>

partial_function (option) poll_used :: "'d hw \<Rightarrow> u64 \<Rightarrow> u16 \<Rightarrow> 'd bus \<Rightarrow> 'd bus option" where
  "poll_used hw u seen b =
     (if u_idx (used_mem b u) = seen then poll_used hw u seen (hw_step hw b) else Some b)"

definition vring_wait_completion :: "'d hw \<Rightarrow> vref \<Rightarrow> (('d, 'z) virtio_state_scheme, unit) kernel_op" where
  "vring_wait_completion hw r = mbind (get_vring r) (\<lambda>v s.
     case poll_used hw (vr_used v) (used_last (bookeeping v)) (bus s) of
       None \<Rightarrow> Fault Diverges s
     | Some b \<Rightarrow> mthen (mbus (\<lambda>_. b))
         (set_vring r (v\<lparr>bookeeping := (bookeeping v)\<lparr>used_last := u_idx (used_mem b (vr_used v))\<rparr>\<rparr>)) s)"

definition signal_virtio_device :: "'d hw \<Rightarrow> nat \<Rightarrow> u16 \<Rightarrow> (('d, 'z) virtio_state_scheme, unit) kernel_op" where
  "signal_virtio_device hw d sig = mbind (get_driver d) (\<lambda>drv.
     mbus (hw_store hw (host drv + 16) 2 (ucast sig)))"

section \<open>Setting up a queue\<close>

definition virtq_descr_size :: "u32 \<Rightarrow> u32" where
  "virtq_descr_size qsz = 16 * qsz"

definition virtq_avail_size :: "u32 \<Rightarrow> u32" where
  "virtq_avail_size qsz = 2 * 3 + 2 * qsz"

definition virtq_used_size :: "u32 \<Rightarrow> u32" where
  "virtq_used_size qsz = 2 * 3 + 8 * qsz"

definition virtq_size :: "u32 \<Rightarrow> u32" where
  "virtq_size qsz = ALIGN_UP (virtq_descr_size qsz + virtq_avail_size qsz) 4096 +
     ALIGN_UP (virtq_used_size qsz) 4096"

definition vring_init :: "linker \<Rightarrow> vref \<Rightarrow> u64 \<Rightarrow> (('d, 'z) virtio_state_scheme, unit) kernel_op" where
  "vring_init ld r qsz =
     (let memsize = ucast (virtq_size (ucast qsz)) in
      mbind (forever_alloc_aligned ld memsize 4096) (\<lambda>p.
      mbind (get_vring r) (\<lambda>v.
        let avail_p = p + ucast (virtq_descr_size (ucast qsz));
            used_p = ALIGN_UP (avail_p + ucast (virtq_avail_size (ucast qsz))) 4096 in
        mthen (mbus (\<lambda>b. b\<lparr>avail_mem := (avail_mem b)(avail_p := (avail_mem b avail_p)\<lparr>a_flags := 1\<rparr>)\<rparr>))
         (set_vring r (v\<lparr>vr_size := memsize, bouncebufs := 0, vr_desc := p, vr_avail := avail_p, vr_used := used_p,
            bookeeping := (bookeeping v)\<lparr>used_avail := ucast qsz, avail_avail := ucast qsz,
              used_last := 0, avail_next := 0, descr_next := 0\<rparr>\<rparr>)))))"

abbreviation VIRTIO_Q_SELECT_HOST_CFG_OFFSET :: u64 where
  "VIRTIO_Q_SELECT_HOST_CFG_OFFSET \<equiv> 14"

abbreviation VIRTIO_Q_SIZE_HOST_CFG_OFFSET :: u64 where
  "VIRTIO_Q_SIZE_HOST_CFG_OFFSET \<equiv> 12"

abbreviation VIRTIO_Q_ADDR_HOST_CFG_OFFSET :: u64 where
  "VIRTIO_Q_ADDR_HOST_CFG_OFFSET \<equiv> 8"

abbreviation VIRTIO_Q_ADDR_PAGE_SHIFT :: nat where
  "VIRTIO_Q_ADDR_PAGE_SHIFT \<equiv> 12"

abbreviation VIRTIO_DEVICE_STATUS_HOST_CFG_OFFSET :: u64 where
  "VIRTIO_DEVICE_STATUS_HOST_CFG_OFFSET \<equiv> 18"

definition virtio_device_queue_select :: "'d hw \<Rightarrow> u64 \<Rightarrow> u16 \<Rightarrow> (('d, 'z) virtio_state_scheme, unit) kernel_op" where
  "virtio_device_queue_select hw cfg q = mbus (hw_store hw (cfg + VIRTIO_Q_SELECT_HOST_CFG_OFFSET) 2 (ucast q))"

definition virtio_device_queue_size_read :: "'d hw \<Rightarrow> u64 \<Rightarrow> (('d, 'z) virtio_state_scheme, u16) kernel_op" where
  "virtio_device_queue_size_read hw cfg = mgets (\<lambda>s. ucast (hw_load hw (cfg + VIRTIO_Q_SIZE_HOST_CFG_OFFSET) 2 (bus s)))"

definition virtio_device_queue_desc_write :: "'d hw \<Rightarrow> u64 \<Rightarrow> u64 \<Rightarrow> (('d, 'z) virtio_state_scheme, unit) kernel_op" where
  "virtio_device_queue_desc_write hw cfg descr =
     mbus (hw_store hw (cfg + VIRTIO_Q_ADDR_HOST_CFG_OFFSET) 4 (ucast (ucast (drop_bit VIRTIO_Q_ADDR_PAGE_SHIFT descr) :: u32)))"

definition virtio_device_set_status :: "'d hw \<Rightarrow> u64 \<Rightarrow> u8 \<Rightarrow> (('d, 'z) virtio_state_scheme, unit) kernel_op" where
  "virtio_device_set_status hw cfg status = mbus (hw_store hw (cfg + VIRTIO_DEVICE_STATUS_HOST_CFG_OFFSET) 1 (ucast status))"

section \<open>Randomness\<close>

text \<open>The byte loop of \<open>_demandos_internal_memcpy\<close>.\<close>

fun internal_memcpy :: "u64 \<Rightarrow> u64 \<Rightarrow> nat \<Rightarrow> (u64 \<Rightarrow> u8) \<Rightarrow> u64 \<Rightarrow> u8" where
  "internal_memcpy dest src 0 m = m"
| "internal_memcpy dest src (Suc n) m = internal_memcpy (dest + 1) (src + 1) n (m(dest := m src))"

definition CHUNK_SIZE :: nat where
  "CHUNK_SIZE = 8"

text \<open>
  One pass of the loop of \<open>virtio_get_randomness\<close>: the entropy device fills the eight bytes of
  the stack buffer, and as many of them as are still wanted are copied to the caller.
\<close>

definition randomness_chunk ::
    "'d hw \<Rightarrow> frame \<Rightarrow> nat \<Rightarrow> u64 \<Rightarrow> nat \<Rightarrow> nat \<Rightarrow> u16 \<Rightarrow> (('d, 'z) virtio_state_scheme, u16) kernel_op" where
  "randomness_chunk hw fr d buffer len filled next =
     (let just_used = ucast next :: u32 in
      mbind (vring_add_to_descr (d, 0) (rng_buf fr) (of_nat CHUNK_SIZE) 2 (ucast next) True) (\<lambda>next.
      mthen (vring_post_descr (d, 0) just_used)
      (mthen (signal_virtio_device hw d 0)
      (mthen (vring_wait_completion hw (d, 0))
      (mthen (vring_unuse_descr (d, 0) (ucast just_used))
      (let amt_to_copy = (if len - filled < CHUNK_SIZE then len - filled else CHUNK_SIZE) in
       mthen (mbus (\<lambda>b. b\<lparr>mem := internal_memcpy (buffer + of_nat filled) (rng_buf fr) amt_to_copy (mem b)\<rparr>))
         (mreturn next)))))))"

text \<open>
  The counter \<open>filled\<close> is a \<open>size_t\<close>.  A length above \<open>2 ^ 64 - 8\<close> would make it wrap around and
  the loop start again from the beginning, for ever.
\<close>

function randomness_loop ::
    "'d hw \<Rightarrow> frame \<Rightarrow> nat \<Rightarrow> u64 \<Rightarrow> nat \<Rightarrow> nat \<Rightarrow> u16 \<Rightarrow> (('d, 'z) virtio_state_scheme, unit) kernel_op" where
  "randomness_loop hw fr d buffer len filled next =
     (if filled < len then
        mbind (randomness_chunk hw fr d buffer len filled next) (\<lambda>next.
          if filled + CHUNK_SIZE < 2 ^ 64
          then randomness_loop hw fr d buffer len (filled + CHUNK_SIZE) next
          else mfault Diverges)
      else mreturn ())"
  by pat_completeness auto
termination
  by (relation "measure (\<lambda>(hw, fr, d, buffer, len, filled, next). len - filled)")
    (auto simp: CHUNK_SIZE_def)

declare randomness_loop.simps [simp del]

definition virtio_get_randomness ::
    "'d hw \<Rightarrow> frame \<Rightarrow> u64 \<Rightarrow> u64 \<Rightarrow> (('d, 'z) virtio_state_scheme, u64) kernel_op" where
  "virtio_get_randomness hw fr buffer len =
     mthen (mbus (\<lambda>b. b\<lparr>mem := store_bytes (rng_buf fr) (replicate CHUNK_SIZE 0) (mem b)\<rparr>))
     (case find_virtio_driver 5 of
        None \<Rightarrow> mreturn (- 1)
      | Some d \<Rightarrow> mbind (get_driver d) (\<lambda>drv.
          if \<not> initialized drv then mreturn (- 1)
          else mbind (vring_use_descr (d, 0)) (\<lambda>next.
            mthen (randomness_loop hw fr d buffer (unat len) 0 next) (mreturn len))))"

section \<open>Evaluating the vring operations\<close>

definition vring_at :: "('d, 'z) virtio_state_scheme \<Rightarrow> vref \<Rightarrow> vring \<Rightarrow> bool" where
  "vring_at s = (\<lambda>(d, q) v. d < length (virtio_drivers s) \<and> q < length (vring (virtio_drivers s ! d)) \<and>
     v = vring (virtio_drivers s ! d) ! q)"

definition upd_vring :: "vref \<Rightarrow> vring \<Rightarrow> ('d, 'z) virtio_state_scheme \<Rightarrow> ('d, 'z) virtio_state_scheme" where
  "upd_vring = (\<lambda>(d, q) v s. s\<lparr>virtio_drivers := (virtio_drivers s)[d := (virtio_drivers s ! d)\<lparr>vring :=
     (vring (virtio_drivers s ! d))[q := v]\<rparr>]\<rparr>)"

lemma get_vring_at [monad_simps]: "vring_at s r v \<Longrightarrow> get_vring r s = Ok v s"
  by (cases r) (auto simp: vring_at_def get_vring_def get_driver_def mbind_def mreturn_def)

lemma set_vring_at [monad_simps]: "vring_at s r v \<Longrightarrow> set_vring r v' s = Ok () (upd_vring r v' s)"
  by (cases r) (auto simp: vring_at_def set_vring_def upd_vring_def get_driver_def set_driver_def
    mbind_def mmodify_def)

lemma vring_at_upd [simp]: "vring_at s r v \<Longrightarrow> vring_at (upd_vring r v' s) r w \<longleftrightarrow> w = v'"
  by (cases r) (auto simp: vring_at_def upd_vring_def)

lemma upd_vring_upd [simp]: "upd_vring r v (upd_vring r w s) = upd_vring r v s"
proof (cases r)
  case (Pair d q)
  then show ?thesis
    by (cases "d < length (virtio_drivers s)") (simp_all add: upd_vring_def list_update_beyond)
qed

lemma bus_upd_vring [simp]: "bus (upd_vring r v s) = bus s"
  by (cases r) (simp add: upd_vring_def)

lemma vring_at_bus [simp]: "vring_at (s\<lparr>bus := b\<rparr>) r v = vring_at s r v"
  by (cases r) (simp add: vring_at_def)

lemma upd_vring_bus [simp]: "(upd_vring r v s)\<lparr>bus := b\<rparr> = upd_vring r v (s\<lparr>bus := b\<rparr>)"
  by (cases r) (simp add: upd_vring_def)

lemma mbus_eq [monad_simps]: "mbus f s = Ok () (s\<lparr>bus := f (bus s)\<rparr>)"
  by (simp add: mbus_def mmodify_def)

definition next_descr :: "vring \<Rightarrow> u32" where
  "next_descr v = (ucast (descr_next (bookeeping v)) + 1) mod (vr_num v - 1)"

abbreviation set_descr_next :: "u16 \<Rightarrow> vring \<Rightarrow> vring" where
  "set_descr_next n v \<equiv> v\<lparr>bookeeping := (bookeeping v)\<lparr>descr_next := n\<rparr>\<rparr>"

abbreviation upd_desc :: "u64 \<Rightarrow> nat \<Rightarrow> vring_desc_item \<Rightarrow> 'd bus \<Rightarrow> 'd bus" where
  "upd_desc p i item b \<equiv> b\<lparr>desc_mem := (desc_mem b)(p := (desc_mem b p)[i := item])\<rparr>"

lemma next_descr_less:
  assumes "2 \<le> unat (vr_num v)"
  shows "unat (next_descr v) < unat (vr_num v) - 1" and "\<not> vr_num v \<le> next_descr v" and "vr_num v - 1 \<noteq> 0"
proof -
  have n: "unat (vr_num v - 1) = unat (vr_num v) - 1"
    using assms by (intro trans [OF unat_sub]) (simp_all add: word_le_nat_alt)
  then show "unat (next_descr v) < unat (vr_num v) - 1"
    using assms by (simp add: next_descr_def unat_mod_distrib)
  then show "\<not> vr_num v \<le> next_descr v"
    by (simp add: word_le_nat_alt)
  show "vr_num v - 1 \<noteq> 0"
    using n assms by auto
qed

lemma vring_add_to_descr_at [monad_simps]:
  assumes "vring_at s r v" and "2 \<le> unat (vr_num v)" and "w < vr_num v"
    and "unat w < length (desc_mem (bus s) (vr_desc v))"
  shows "vring_add_to_descr r buf sz flags w ends s =
    Ok (ucast (next_descr v)) (upd_vring r (set_descr_next (ucast (next_descr v)) v)
      (s\<lparr>bus := upd_desc (vr_desc v) (unat w)
        \<lparr>d_addr = buf, d_len = sz,
         d_flags = (if ends then flags AND NOT VRING_DESC_NEXT else flags OR VRING_DESC_NEXT),
         d_next = (if ends then 0 else ucast (next_descr v))\<rparr> (bus s)\<rparr>))"
proof -
  have "\<not> vr_num v \<le> w" using assms(3) by simp
  note nd = next_descr_less(2,3) [OF assms(2), unfolded next_descr_def]
  show ?thesis
    unfolding vring_add_to_descr_def mbind_simps(1) [where m = "get_vring r", OF get_vring_at [OF assms(1)]] Let_def
      if_not_P [OF \<open>\<not> vr_num v \<le> w\<close>] if_not_P [OF nd(1)] if_not_P [OF nd(2)]
    using assms(1,4) by (simp add: monad_simps set_desc_def next_descr_def)
qed

definition post_slot :: "vring \<Rightarrow> nat" where
  "post_slot v = unat (ucast (avail_next (bookeeping v)) mod (vr_num v - 1) :: u32)"

abbreviation upd_avail :: "u64 \<Rightarrow> nat \<Rightarrow> u16 \<Rightarrow> u16 \<Rightarrow> 'd bus \<Rightarrow> 'd bus" where
  "upd_avail p i x n b \<equiv> b\<lparr>avail_mem := (avail_mem b)(p :=
     (avail_mem b p)\<lparr>a_ring := (a_ring (avail_mem b p))[i := x], a_idx := n\<rparr>)\<rparr>"

lemma post_slot_less: "2 \<le> unat (vr_num v) \<Longrightarrow> post_slot v < unat (vr_num v) - 1"
  using next_descr_less(3) [of v]
  by (simp add: post_slot_def unat_mod_distrib unat_sub word_le_nat_alt)

lemma vring_post_descr_at [monad_simps]:
  assumes "vring_at s r v" and "2 \<le> unat (vr_num v)"
    and "post_slot v < length (a_ring (avail_mem (bus s) (vr_avail v)))"
  shows "vring_post_descr r i s = Ok ()
    (upd_vring r (v\<lparr>bookeeping := (bookeeping v)\<lparr>avail_next := avail_next (bookeeping v) + 1\<rparr>\<rparr>)
      (s\<lparr>bus := upd_avail (vr_avail v) (post_slot v) (ucast i) (avail_next (bookeeping v) + 1) (bus s)\<rparr>))"
  using assms next_descr_less(3) [OF assms(2)]
  by (simp add: vring_post_descr_def monad_simps Let_def flip: post_slot_def)

section \<open>Polling\<close>

text \<open>
  The devices bring the used index of the ring at \<open>u\<close> away from \<open>seen\<close> after finitely many
  steps, and \<open>b'\<close> is the bus at that moment.
\<close>

definition completes :: "'d hw \<Rightarrow> u64 \<Rightarrow> u16 \<Rightarrow> 'd bus \<Rightarrow> 'd bus \<Rightarrow> bool" where
  "completes hw u seen b b' \<longleftrightarrow> (\<exists>k. b' = (hw_step hw ^^ k) b \<and>
     (\<forall>j<k. u_idx (used_mem ((hw_step hw ^^ j) b) u) = seen) \<and> u_idx (used_mem b' u) \<noteq> seen)"

lemma poll_used_iterate:
  "(\<forall>j<k. u_idx (used_mem ((hw_step hw ^^ j) b) u) = seen) \<Longrightarrow>
   poll_used hw u seen b = poll_used hw u seen ((hw_step hw ^^ k) b)"
proof (induction k arbitrary: b)
  case (Suc k)
  have "\<forall>j<k. u_idx (used_mem ((hw_step hw ^^ j) (hw_step hw b)) u) = seen"
    using Suc.prems by (metis Suc_less_eq comp_apply funpow_Suc_right)
  then have "poll_used hw u seen (hw_step hw b) = poll_used hw u seen ((hw_step hw ^^ k) (hw_step hw b))"
    by (rule Suc.IH)
  moreover have "u_idx (used_mem b u) = seen" using Suc.prems [rule_format, of 0] by simp
  ultimately show ?case by (simp add: poll_used.simps [of hw u seen b] funpow_swap1)
qed simp

lemma completes_step:
  "u_idx (used_mem b u) = seen \<Longrightarrow> completes hw u seen (hw_step hw b) b' \<Longrightarrow> completes hw u seen b b'"
proof -
  assume now: "u_idx (used_mem b u) = seen" and "completes hw u seen (hw_step hw b) b'"
  then obtain k where k: "b' = (hw_step hw ^^ k) (hw_step hw b)"
    "\<forall>j<k. u_idx (used_mem ((hw_step hw ^^ j) (hw_step hw b)) u) = seen" "u_idx (used_mem b' u) \<noteq> seen"
    by (auto simp: completes_def)
  have "\<forall>j<Suc k. u_idx (used_mem ((hw_step hw ^^ j) b) u) = seen"
    using k(2) now by (auto simp: less_Suc_eq_0_disj funpow_swap1)
  with k show ?thesis
    unfolding completes_def by (intro exI [of _ "Suc k"]) (simp add: funpow_swap1)
qed

lemma poll_used_iff: "poll_used hw u seen b = Some b' \<longleftrightarrow> completes hw u seen b b'"
proof
  assume "completes hw u seen b b'"
  then obtain k where "b' = (hw_step hw ^^ k) b" "u_idx (used_mem b' u) \<noteq> seen"
    "\<forall>j<k. u_idx (used_mem ((hw_step hw ^^ j) b) u) = seen"
    by (auto simp: completes_def)
  moreover from this have "poll_used hw u seen b' = Some b'" by (subst poll_used.simps) simp
  ultimately show "poll_used hw u seen b = Some b'"
    using poll_used_iterate [of k hw b u seen] by simp
next
  assume "poll_used hw u seen b = Some b'"
  then show "completes hw u seen b b'"
  proof (rule poll_used.raw_induct [rotated])
    fix f hw u seen and b b' :: "'a bus"
    assume IH: "\<And>hw u seen b b'. f hw u seen b = Some b' \<Longrightarrow> completes hw u seen b b'"
      and eq: "(if u_idx (used_mem b u) = seen then f hw u seen (hw_step hw b) else Some b) = Some b'"
    show "completes hw u seen b b'"
    proof (cases "u_idx (used_mem b u) = seen")
      case True
      with eq show ?thesis by (auto intro: completes_step IH)
    next
      case False
      with eq show ?thesis unfolding completes_def by (intro exI [of _ 0]) simp
    qed
  qed
qed

lemma vring_wait_completion_at [monad_simps]:
  assumes "vring_at s r v" and "completes hw (vr_used v) (used_last (bookeeping v)) (bus s) b"
  shows "vring_wait_completion hw r s = Ok () (upd_vring r
    (v\<lparr>bookeeping := (bookeeping v)\<lparr>used_last := u_idx (used_mem b (vr_used v))\<rparr>\<rparr>) (s\<lparr>bus := b\<rparr>))"
  using assms(1) assms(2) [folded poll_used_iff]
  by (simp add: vring_wait_completion_def monad_simps)

lemma vring_use_descr_at [monad_simps]:
  "vring_at s r v \<Longrightarrow> vring_use_descr r s = Ok (descr_next (bookeeping v)) s"
  by (simp add: vring_use_descr_def monad_simps)

lemma vring_unuse_descr_at [monad_simps]:
  "vring_at s r v \<Longrightarrow> vring_unuse_descr r n s = Ok n (upd_vring r (set_descr_next n v) s)"
  by (simp add: vring_unuse_descr_def monad_simps)

section \<open>The layout of a queue\<close>

text \<open>The next multiple of a page.\<close>

definition page_up :: "nat \<Rightarrow> nat" where
  "page_up n = (n + 4095) div 4096 * 4096"

lemma page_up_bounds: "n \<le> page_up n" "page_up n < n + 4096" "4096 dvd page_up n"
proof -
  have "(n + 4095) div 4096 * 4096 + (n + 4095) mod 4096 = n + 4095" by (rule div_mult_mod_eq)
  moreover have "(n + 4095) mod 4096 < 4096" by simp
  ultimately show "n \<le> page_up n" "page_up n < n + 4096" "4096 dvd page_up n"
    unfolding page_up_def by (linarith, linarith, simp)
qed

lemma page_up_add: "4096 dvd p \<Longrightarrow> page_up (p + n) = p + page_up n"
  by (auto simp: page_up_def elim!: dvdE) (simp add: add.assoc distrib_right)

lemma unat_ALIGN_UP_page:
  "unat (a :: 'a::len word) + 4096 \<le> 2 ^ LENGTH('a) \<Longrightarrow> 12 < LENGTH('a) \<Longrightarrow> unat (ALIGN_UP a 4096) = page_up (unat a)"
  using unat_ALIGN_UP [of a 12] by (simp add: page_up_def)

lemma virtq_sizes:
  assumes "unat (q :: u32) \<le> 32768"
  shows "unat (virtq_descr_size q) = 16 * unat q" and "unat (virtq_avail_size q) = 6 + 2 * unat q"
    and "unat (virtq_used_size q) = 6 + 8 * unat q"
    and "unat (virtq_size q) = page_up (16 * unat q + (6 + 2 * unat q)) + page_up (6 + 8 * unat q)"
proof -
  have m: "unat (c * q) = unat c * unat q" if "unat c \<le> 16" for c :: u32
    using that assms mult_le_mono [OF that assms] by (subst unat_mult_lem [THEN iffD1]) simp_all
  show d: "unat (virtq_descr_size q) = 16 * unat q" using m [of 16] by (simp add: virtq_descr_size_def)
  show a: "unat (virtq_avail_size q) = 6 + 2 * unat q"
    using m [of 2] assms by (simp add: virtq_avail_size_def unat_add_small)
  show u: "unat (virtq_used_size q) = 6 + 8 * unat q"
    using m [of 8] assms by (simp add: virtq_used_size_def unat_add_small)
  have da: "unat (virtq_descr_size q + virtq_avail_size q) = 16 * unat q + (6 + 2 * unat q)"
    using assms d a by (subst unat_add_small) simp_all
  have "unat (ALIGN_UP (virtq_descr_size q + virtq_avail_size q) 4096) = page_up (16 * unat q + (6 + 2 * unat q))"
    using assms da by (subst unat_ALIGN_UP_page) simp_all
  moreover have "unat (ALIGN_UP (virtq_used_size q) 4096) = page_up (6 + 8 * unat q)"
    using assms u by (subst unat_ALIGN_UP_page) simp_all
  ultimately show "unat (virtq_size q) = page_up (16 * unat q + (6 + 2 * unat q)) + page_up (6 + 8 * unat q)"
    using assms page_up_bounds(2) [of "16 * unat q + (6 + 2 * unat q)"] page_up_bounds(2) [of "6 + 8 * unat q"]
    by (simp add: virtq_size_def unat_add_small)
qed

text \<open>Where \<open>vring_init\<close> puts the parts of a queue of \<open>qsz\<close> entries, given the block it got.\<close>

definition avail_at :: "u64 \<Rightarrow> u64 \<Rightarrow> u64" where
  "avail_at p qsz = p + ucast (virtq_descr_size (ucast qsz))"

definition used_at :: "u64 \<Rightarrow> u64 \<Rightarrow> u64" where
  "used_at p qsz = ALIGN_UP (avail_at p qsz + ucast (virtq_avail_size (ucast qsz))) 4096"

lemma queue_layout:
  assumes n: "unat (qsz :: u64) \<le> 32768" and p: "4096 dvd unat p" "unat p + unat (virtq_size (ucast qsz)) < 2 ^ 62"
  shows "unat (avail_at p qsz) = unat p + 16 * unat qsz"
    and "unat (avail_at p qsz) + (6 + 2 * unat qsz) \<le> unat (used_at p qsz)" and "4096 dvd unat (used_at p qsz)"
    and "unat (used_at p qsz) + (6 + 8 * unat qsz) \<le> unat p + unat (virtq_size (ucast qsz))"
proof -
  have q: "unat (ucast qsz :: u32) = unat qsz" using n by (simp add: unsigned_ucast_eq take_bit_nat_eq_self)
  note sz = virtq_sizes [of "ucast qsz", unfolded q, OF n]
  show a: "unat (avail_at p qsz) = unat p + 16 * unat qsz"
    using n p sz(1) by (simp add: avail_at_def unat_add_small unat_ucast_up)
  have e: "unat (avail_at p qsz + ucast (virtq_avail_size (ucast qsz))) = unat p + (16 * unat qsz + (6 + 2 * unat qsz))"
    using n p a sz(2) by (subst unat_add_small) (simp_all add: unat_ucast_up)
  have u: "unat (used_at p qsz) = unat p + page_up (16 * unat qsz + (6 + 2 * unat qsz))"
    unfolding used_at_def using n p e by (subst unat_ALIGN_UP_page) (simp_all add: page_up_add)
  show "unat (avail_at p qsz) + (6 + 2 * unat qsz) \<le> unat (used_at p qsz)"
    using a u page_up_bounds(1) [of "16 * unat qsz + (6 + 2 * unat qsz)"] by linarith
  show "4096 dvd unat (used_at p qsz)" unfolding u using p(1) page_up_bounds(3) by simp
  show "unat (used_at p qsz) + (6 + 8 * unat qsz) \<le> unat p + unat (virtq_size (ucast qsz))"
    using u sz(4) page_up_bounds(1) [of "6 + 8 * unat qsz"] by linarith
qed

lemma forever_keeps_vring: "forever_alloc_aligned ld sz al s = Ok p t \<Longrightarrow> vring_at t r v = vring_at s r v"
  by (cases r) (auto simp: forever_alloc_aligned_def Let_def vring_at_def monad_simps split: if_splits)

lemma vring_init_eq:
  assumes "vring_at s r v"
  shows "vring_init ld r qsz s = (case forever_alloc_aligned ld (ucast (virtq_size (ucast qsz))) 4096 s of
     Fault f t \<Rightarrow> Fault f t
   | Ok p t \<Rightarrow> Ok () (upd_vring r (v\<lparr>vr_size := ucast (virtq_size (ucast qsz)), bouncebufs := 0, vr_desc := p,
       vr_avail := avail_at p qsz, vr_used := used_at p qsz,
       bookeeping := (bookeeping v)\<lparr>used_avail := ucast qsz, avail_avail := ucast qsz,
         used_last := 0, avail_next := 0, descr_next := 0\<rparr>\<rparr>)
       (t\<lparr>bus := (bus t)\<lparr>avail_mem := (avail_mem (bus t))(avail_at p qsz :=
          (avail_mem (bus t) (avail_at p qsz))\<lparr>a_flags := 1\<rparr>)\<rparr>\<rparr>)))"
proof (cases "forever_alloc_aligned ld (ucast (virtq_size (ucast qsz))) 4096 s")
  case (Ok p t)
  then have "vring_at t r v" using assms forever_keeps_vring by blast
  with Ok show ?thesis by (simp add: vring_init_def Let_def avail_at_def used_at_def monad_simps)
qed (simp add: vring_init_def Let_def monad_simps)


section \<open>What the virtqueue layer promises\<close>

text \<open>A machine with one driver that has one queue of four entries, for concrete runs.\<close>

definition sample_vring :: "u16 \<Rightarrow> vring" where
  "sample_vring posted = \<lparr>vr_num = 4, vr_size = 0x2000, bouncebufs = 0,
     bookeeping = \<lparr>used_last = 0, avail_next = posted, avail_avail = 4, used_avail = 4, descr_head = 0, descr_next = 0\<rparr>,
     vr_desc = 0x80306000, vr_avail = 0x80306040, vr_used = 0x80307000\<rparr>"

definition sample_state :: "u16 \<Rightarrow> u16 \<Rightarrow> unit virtio_state" where
  "sample_state posted used = heap_state.extend (heap_init demandos_linker (blank_bus\<lparr>
       desc_mem := (\<lambda>_. replicate 4 \<lparr>d_addr = 0, d_len = 0, d_flags = 0, d_next = 0\<rparr>),
       avail_mem := (\<lambda>_. \<lparr>a_flags = 1, a_idx = posted, a_ring = replicate 4 0\<rparr>),
       used_mem := (\<lambda>_. \<lparr>u_flags = 0, u_idx = used, u_ring = []\<rparr>)\<rparr>))
     (virtio_state.fields [\<lparr>device_id = 1, initialized = True, init_f = None, host = 0, pci = 0, conf = 0,
       vring = [sample_vring posted]\<rparr>] 0)"

lemma sample_state_simps [simp]:
  "vring_at (sample_state posted used) (0, 0) v \<longleftrightarrow> v = sample_vring posted"
  "desc_mem (bus (sample_state posted used)) q = replicate 4 \<lparr>d_addr = 0, d_len = 0, d_flags = 0, d_next = 0\<rparr>"
  "avail_mem (bus (sample_state posted used)) q = \<lparr>a_flags = 1, a_idx = posted, a_ring = replicate 4 0\<rparr>"
  "used_mem (bus (sample_state posted used)) q = \<lparr>u_flags = 0, u_idx = used, u_ring = []\<rparr>"
  "forever_ok demandos_linker (sample_state posted used)"
  by (auto simp: sample_state_def vring_at_def heap_state.defs virtio_state.defs heap_init_def forever_ok_def
    demandos_linker_def word_le_nat_alt)

lemma sample_vring_simps [simp]:
  "vr_num (sample_vring posted) = 4" "descr_next (bookeeping (sample_vring posted)) = 0"
  "avail_next (bookeeping (sample_vring posted)) = posted" "used_last (bookeeping (sample_vring posted)) = 0"
  by (simp_all add: sample_vring_def)

definition still_hw :: "unit hw" where
  "still_hw = \<lparr>hw_step = id, hw_store = (\<lambda>a n x b. b), hw_load = (\<lambda>a n b. 0), hw_time = (\<lambda>b. 0)\<rparr>"


text \<open>
  C31.  Waiting for a queue returns exactly if the devices ever move the used index, and then with the
  bus of the first moment they have done so, the new index noted; if they never do the kernel
  spins for ever.
\<close>

theorem vring_wait_completion_live:
  assumes "vring_at s r v"
  shows "(\<exists>b. completes hw (vr_used v) (used_last (bookeeping v)) (bus s) b \<and> vring_wait_completion hw r s =
      Ok () (upd_vring r (v\<lparr>bookeeping := (bookeeping v)\<lparr>used_last := u_idx (used_mem b (vr_used v))\<rparr>\<rparr>) (s\<lparr>bus := b\<rparr>))) \<or>
    (\<forall>k. u_idx (used_mem ((hw_step hw ^^ k) (bus s)) (vr_used v)) = used_last (bookeeping v)) \<and>
      vring_wait_completion hw r s = Fault Diverges s"
proof (cases "poll_used hw (vr_used v) (used_last (bookeeping v)) (bus s)")
  case None
  let ?P = "\<lambda>k. u_idx (used_mem ((hw_step hw ^^ k) (bus s)) (vr_used v)) \<noteq> used_last (bookeeping v)"
  have "\<not> ?P k" for k
  proof
    assume "?P k"
    then have "?P (LEAST k. ?P k)" "\<forall>j < (LEAST k. ?P k). \<not> ?P j"
      by (rule LeastI, use not_less_Least in blast)
    then have "completes hw (vr_used v) (used_last (bookeeping v)) (bus s) ((hw_step hw ^^ (LEAST k. ?P k)) (bus s))"
      unfolding completes_def by blast
    with None show False by (simp flip: poll_used_iff)
  qed
  with None assms show ?thesis by (simp add: vring_wait_completion_def monad_simps)
next
  case (Some b)
  then have "completes hw (vr_used v) (used_last (bookeeping v)) (bus s) b" by (simp add: poll_used_iff)
  with vring_wait_completion_at [OF assms this] show ?thesis by blast
qed

theorem vring_wait_completion_live_witness:
  "vring_wait_completion still_hw (0, 0) (sample_state 0 0) = Fault Diverges (sample_state 0 0)"
proof -
  have "(id ^^ k) b = b" for k and b :: "unit bus" by (induction k) simp_all
  then have "\<not> completes still_hw u 0 (bus (sample_state 0 0)) b" for u b
    by (auto simp: completes_def still_hw_def)
  then show ?thesis
    using vring_wait_completion_live [of "sample_state 0 0" "(0, 0)" "sample_vring 0" still_hw] by simp
qed

text \<open>
  Filling a descriptor of a queue of at least two entries: a descriptor number within the queue
  is filled in, linked to the following one unless it ends the chain, and the number of the next
  descriptor is returned, which always is one of the first \<open>num - 1\<close>, so that the warning in the
  code cannot appear; a number outside the queue switches the machine off with nothing written.
\<close>

theorem vring_add_to_descr_correct:
  assumes "vring_at s r v" and "2 \<le> unat (vr_num v)" and "unat (vr_num v) \<le> length (desc_mem (bus s) (vr_desc v))"
  shows "if w < vr_num v
    then unat (next_descr v) < unat (vr_num v) - 1 \<and>
      vring_add_to_descr r buf sz flags w ends s =
        Ok (ucast (next_descr v)) (upd_vring r (set_descr_next (ucast (next_descr v)) v)
          (s\<lparr>bus := upd_desc (vr_desc v) (unat w) \<lparr>d_addr = buf, d_len = sz,
             d_flags = (if ends then flags AND NOT VRING_DESC_NEXT else flags OR VRING_DESC_NEXT),
             d_next = (if ends then 0 else ucast (next_descr v))\<rparr> (bus s)\<rparr>))
    else \<exists>t. vring_add_to_descr r buf sz flags w ends s = Fault PowerOff t \<and> bus t = bus s"
proof (cases "w < vr_num v")
  case True
  then have "unat w < length (desc_mem (bus s) (vr_desc v))" using assms(3) by (simp add: word_less_nat_alt)
  with True show ?thesis using vring_add_to_descr_at [OF assms(1,2) True] next_descr_less(1) [OF assms(2)] by simp
next
  case False
  then have "vr_num v \<le> w" by simp
  then have "\<exists>t. vring_add_to_descr r buf sz flags w ends s = Fault PowerOff t \<and> bus t = bus s"
    unfolding vring_add_to_descr_def mbind_simps(1) [where m = "get_vring r", OF get_vring_at [OF assms(1)]]
    by (simp only: if_P) (simp add: monad_simps)
  with False show ?thesis by simp
qed

theorem vring_add_to_descr_correct_witness:
  "(\<exists>t. vring_add_to_descr (0, 0) 0x9000 64 0 4 True (sample_state 0 0) = Fault PowerOff t) \<and>
   (\<exists>t. vring_add_to_descr (0, 0) 0x9000 64 0 0 False (sample_state 0 0) = Ok 1 t)"
proof -
  note c = vring_add_to_descr_correct [of "sample_state 0 0" "(0, 0)" "sample_vring 0" _ "0x9000" 64 0]
  have "next_descr (sample_vring 0) = 1" by (simp add: next_descr_def)
  then show ?thesis using c [of 4 True] c [of 0 False] by auto
qed



end
