(* ===== verification/Blk.thy ===== *)
theory Blk
  imports Virtio
begin

text \<open>
  The block driver (src/blk.c, include/blk.h): one-sector requests over the virtqueue of the
  block device, and byte-granular reads and writes built from them.  The bytes that a read puts
  into its output buffer, from the start of the buffer on, are the returned list; the bytes of
  the input buffer of a write are an argument.
\<close>

section \<open>One sector\<close>

definition VIRTIO_BLK_SIZE :: nat where
  "VIRTIO_BLK_SIZE = 512"

definition VIRTIO_BLK_WRITE_OP :: u32 where
  "VIRTIO_BLK_WRITE_OP = 1"

definition VIRTIO_BLK_READ_OP :: u32 where
  "VIRTIO_BLK_READ_OP = 0"

text \<open>An assignment to a variable or field that lives at address \<open>p\<close>.\<close>

definition store :: "u64 \<Rightarrow> bytes \<Rightarrow> (('d, 'z) virtio_state_scheme, unit) kernel_op" where
  "store p bs = mbus (\<lambda>b. b\<lparr>mem := store_bytes p bs (mem b)\<rparr>)"

definition virtio_blk_write_sector_sync ::
    "'d hw \<Rightarrow> frame \<Rightarrow> nat \<Rightarrow> u64 \<Rightarrow> u64 \<Rightarrow> (('d, 'z) virtio_state_scheme, u8) kernel_op" where
  "virtio_blk_write_sector_sync hw fr driver sector addr =
     mthen (store (blk_status fr) [0xff])
     (mthen (store (blk_hdr fr) (le_bytes 4 VIRTIO_BLK_WRITE_OP))
     (mthen (store (blk_hdr fr + 8) (le_bytes 8 sector))
     (mbind (vring_use_descr (driver, 0)) (\<lambda>next.
      let used = ucast next :: u32 in
      mbind (vring_add_to_descr (driver, 0) (blk_hdr fr) 16 0 (ucast next) False) (\<lambda>next.
      mbind (vring_add_to_descr (driver, 0) addr (of_nat VIRTIO_BLK_SIZE) 0 (ucast next) False) (\<lambda>next.
      mbind (vring_add_to_descr (driver, 0) (blk_status fr) 1 VRING_DESCR_WRITABLE (ucast next) True) (\<lambda>next.
      mthen (vring_post_descr (driver, 0) used)
      (mthen (signal_virtio_device hw driver 0)
      (mthen (vring_wait_completion hw (driver, 0))
      (mthen (vring_unuse_descr (driver, 0) (ucast used))
        (mgets (\<lambda>s. ram s (blk_status fr)))))))))))))"

definition virtio_blk_read_sector_sync ::
    "'d hw \<Rightarrow> frame \<Rightarrow> nat \<Rightarrow> u64 \<Rightarrow> u64 \<Rightarrow> (('d, 'z) virtio_state_scheme, u8) kernel_op" where
  "virtio_blk_read_sector_sync hw fr driver sector addr =
     mthen (store (blk_status fr) [0xff])
     (mthen (store (blk_hdr fr) (le_bytes 4 VIRTIO_BLK_READ_OP))
     (mthen (store (blk_hdr fr + 8) (le_bytes 8 sector))
     (mbind (vring_use_descr (driver, 0)) (\<lambda>next.
      let used = ucast next :: u32 in
      mbind (vring_add_to_descr (driver, 0) (blk_hdr fr) 16 0 (ucast next) False) (\<lambda>next.
      mbind (vring_add_to_descr (driver, 0) addr (of_nat VIRTIO_BLK_SIZE) VRING_DESCR_WRITABLE (ucast next) False) (\<lambda>next.
      mbind (vring_add_to_descr (driver, 0) (blk_status fr) 1 VRING_DESCR_WRITABLE (ucast next) True) (\<lambda>next.
      mthen (vring_post_descr (driver, 0) used)
      (mthen (signal_virtio_device hw driver 0)
      (mthen (vring_wait_completion hw (driver, 0))
      (mthen (vring_unuse_descr (driver, 0) (ucast used))
        (mgets (\<lambda>s. ram s (blk_status fr)))))))))))))"

section \<open>Byte ranges\<close>

definition virtio_blk_sector_from_pos :: "u64 \<Rightarrow> u64" where
  "virtio_blk_sector_from_pos pos = pos div of_nat VIRTIO_BLK_SIZE"

definition virtio_blk_sector_offset_from_pos :: "u64 \<Rightarrow> u64" where
  "virtio_blk_sector_offset_from_pos pos = pos mod of_nat VIRTIO_BLK_SIZE"

definition MIN_macro :: "'a::linorder \<Rightarrow> 'a \<Rightarrow> 'a" where
  "MIN_macro x y = (if x < y then x else y)"

text \<open>How many bytes the next pass of either loop transfers.\<close>

definition blk_chunk :: "u64 \<Rightarrow> u64 \<Rightarrow> u64 \<Rightarrow> u64" where
  "blk_chunk offset sz amt =
     MIN_macro (sz - amt) (of_nat VIRTIO_BLK_SIZE - virtio_blk_sector_offset_from_pos (offset + amt))"

lemma blk_chunk_progress:
  assumes "amt < sz"
  shows "0 < unat (blk_chunk offset sz amt)" and "unat (amt + blk_chunk offset sz amt) = unat amt + unat (blk_chunk offset sz amt)"
    and "unat amt + unat (blk_chunk offset sz amt) \<le> unat sz"
proof -
  let ?o = "virtio_blk_sector_offset_from_pos (offset + amt)"
  have o: "unat ?o < 512"
    by (simp add: virtio_blk_sector_offset_from_pos_def VIRTIO_BLK_SIZE_def unat_mod_distrib)
  then have r: "unat (512 - ?o) = 512 - unat ?o"
    by (subst unat_sub) (simp_all add: word_le_nat_alt)
  have d: "unat (sz - amt) = unat sz - unat amt"
    using assms by (intro unat_sub) simp
  show "0 < unat (blk_chunk offset sz amt)"
    using assms o r d by (simp add: blk_chunk_def MIN_macro_def VIRTIO_BLK_SIZE_def word_less_nat_alt)
  have le: "unat (blk_chunk offset sz amt) \<le> unat sz - unat amt"
    using d by (auto simp: blk_chunk_def MIN_macro_def word_less_nat_alt)
  then show "unat amt + unat (blk_chunk offset sz amt) \<le> unat sz"
    using assms by (simp add: word_less_nat_alt)
  then show "unat (amt + blk_chunk offset sz amt) = unat amt + unat (blk_chunk offset sz amt)"
    using unat_u64_less [of sz] by (intro unat_add_small) simp
qed

function virtio_blk_read_loop ::
    "'d hw \<Rightarrow> frame \<Rightarrow> nat \<Rightarrow> u64 \<Rightarrow> u64 \<Rightarrow> u64 \<Rightarrow> bytes \<Rightarrow> (('d, 'z) virtio_state_scheme, bytes) kernel_op" where
  "virtio_blk_read_loop hw fr driver offset sz read_amt output =
     (if read_amt < sz then
        let sector = virtio_blk_sector_from_pos (offset + read_amt);
            sector_offset = virtio_blk_sector_offset_from_pos (offset + read_amt);
            last_read_amt = blk_chunk offset sz read_amt in
        mthen (store (blk_buf fr) (replicate VIRTIO_BLK_SIZE 0))
        (mbind (virtio_blk_read_sector_sync hw fr driver sector (blk_buf fr)) (\<lambda>read_result.
          if read_result \<noteq> 0 then mreturn output
          else mbind (mgets (\<lambda>s. load_bytes (blk_buf fr + sector_offset) (unat last_read_amt) (ram s))) (\<lambda>bs.
            virtio_blk_read_loop hw fr driver offset sz (read_amt + last_read_amt) (output @ bs))))
      else mreturn output)"
  by pat_completeness auto
termination
  using blk_chunk_progress
  by (relation "measure (\<lambda>(hw, fr, driver, offset, sz, read_amt, output). unat sz - unat read_amt)")
    (auto simp: word_less_nat_alt intro!: diff_less_mono2)

definition virtio_blk_read_sync ::
    "'d hw \<Rightarrow> frame \<Rightarrow> nat \<Rightarrow> u64 \<Rightarrow> u64 \<Rightarrow> (('d, 'z) virtio_state_scheme, bytes) kernel_op" where
  "virtio_blk_read_sync hw fr driver offset sz = virtio_blk_read_loop hw fr driver offset sz 0 []"

function virtio_blk_write_loop ::
    "'d hw \<Rightarrow> frame \<Rightarrow> nat \<Rightarrow> bytes \<Rightarrow> u64 \<Rightarrow> u64 \<Rightarrow> u64 \<Rightarrow> (('d, 'z) virtio_state_scheme, u64) kernel_op" where
  "virtio_blk_write_loop hw fr driver input offset sz write_amt =
     (if write_amt < sz then
        let sector = virtio_blk_sector_from_pos (offset + write_amt);
            sector_offset = virtio_blk_sector_offset_from_pos (offset + write_amt);
            last_write_amt = blk_chunk offset sz write_amt in
        mthen (store (blk_buf fr) (replicate VIRTIO_BLK_SIZE 0))
        (mbind (virtio_blk_read_sector_sync hw fr driver sector (blk_buf fr)) (\<lambda>read_result.
          if read_result \<noteq> 0 then mreturn write_amt
          else mthen (store (blk_buf fr + sector_offset) (slice (unat write_amt) (unat last_write_amt) input))
           (mbind (virtio_blk_write_sector_sync hw fr driver sector (blk_buf fr)) (\<lambda>write_result.
              if write_result \<noteq> 0 then mreturn write_amt
              else virtio_blk_write_loop hw fr driver input offset sz (write_amt + last_write_amt)))))
      else mreturn write_amt)"
  by pat_completeness auto
termination
  using blk_chunk_progress
  by (relation "measure (\<lambda>(hw, fr, driver, input, offset, sz, write_amt). unat sz - unat write_amt)")
    (auto simp: word_less_nat_alt intro!: diff_less_mono2)

definition virtio_blk_write_sync ::
    "'d hw \<Rightarrow> frame \<Rightarrow> nat \<Rightarrow> bytes \<Rightarrow> u64 \<Rightarrow> u64 \<Rightarrow> (('d, 'z) virtio_state_scheme, u64) kernel_op" where
  "virtio_blk_write_sync hw fr driver input offset sz = virtio_blk_write_loop hw fr driver input offset sz 0"

declare virtio_blk_read_loop.simps [simp del] virtio_blk_write_loop.simps [simp del]

section \<open>The block device\<close>

text \<open>
  What the driver relies on is what the virtio specification (sections 2.6 and 5.2.6) says of a
  block device.  The device follows the descriptor chain from the head that it finds in the
  available ring at its own index; a request is a 16-byte header, a 512-byte data buffer that is
  device-writable for a read, and a one-byte status buffer.  A read of a good sector fills the data
  buffer and sets the status to 0, a read of a bad sector (beyond the capacity) sets a status
  other than 0, a write to a good sector replaces it; then the used index advances by one.  A
  \<open>disk_view\<close> says where in the state of the device its sectors and its index are.
\<close>

record blk_request =
  rq_type :: u32
  rq_sector :: u64
  rq_data :: u64
  rq_status :: u64

record 'd disk_view =
  dv_sector :: "'d \<Rightarrow> u64 \<Rightarrow> bytes"
  dv_good :: "'d \<Rightarrow> u64 \<Rightarrow> bool"
  dv_seen :: "'d \<Rightarrow> u16"

fun desc_chain :: "vring_desc_item list \<Rightarrow> nat \<Rightarrow> u16 \<Rightarrow> vring_desc_item list" where
  "desc_chain ds 0 h = []"
| "desc_chain ds (Suc n) h =
     (if unat h < length ds
      then ds ! unat h # (if bit (d_flags (ds ! unat h)) 0 then desc_chain ds n (d_next (ds ! unat h)) else [])
      else [])"

definition device_writable :: "vring_desc_item \<Rightarrow> bool" where
  "device_writable d = bit (d_flags d) 1"

definition parse_blk_request :: "'d bus \<Rightarrow> u64 \<Rightarrow> u16 \<Rightarrow> blk_request option" where
  "parse_blk_request b p head =
     (case desc_chain (desc_mem b p) (length (desc_mem b p)) head of
        [h, d, st] \<Rightarrow>
          let rq = \<lparr>rq_type = le_word (load_bytes (d_addr h) 4 (mem b)),
                    rq_sector = le_word (load_bytes (d_addr h + 8) 8 (mem b)),
                    rq_data = d_addr d, rq_status = d_addr st\<rparr> in
          if d_len h = 16 \<and> \<not> device_writable h \<and> d_len d = 512 \<and>
             (device_writable d \<longleftrightarrow> rq_type rq = 0) \<and> d_len st = 1 \<and> device_writable st
          then Some rq else None
      | _ \<Rightarrow> None)"

definition device_head :: "'d disk_view \<Rightarrow> vring \<Rightarrow> 'd bus \<Rightarrow> u16" where
  "device_head dv v b = a_ring (avail_mem b (vr_avail v)) ! (unat (dv_seen dv (dev b)) mod unat (vr_num v))"

definition blk_effect :: "'d disk_view \<Rightarrow> vring \<Rightarrow> blk_request \<Rightarrow> 'd bus \<Rightarrow> 'd bus \<Rightarrow> bool" where
  "blk_effect dv v rq b b' \<longleftrightarrow>
     u_idx (used_mem b' (vr_used v)) = u_idx (used_mem b (vr_used v)) + 1 \<and>
     dv_seen dv (dev b') = dv_seen dv (dev b) + 1 \<and>
     desc_mem b' = desc_mem b \<and> avail_mem b' = avail_mem b \<and>
     dv_good dv (dev b') = dv_good dv (dev b) \<and>
     (if rq_type rq = 0 then
        dv_sector dv (dev b') = dv_sector dv (dev b) \<and>
        (if dv_good dv (dev b) (rq_sector rq)
         then mem b' = store_bytes (rq_status rq) [0]
                (store_bytes (rq_data rq) (dv_sector dv (dev b) (rq_sector rq)) (mem b))
         else \<exists>e junk. e \<noteq> 0 \<and> length junk = 512 \<and>
                mem b' = store_bytes (rq_status rq) [e] (store_bytes (rq_data rq) junk (mem b)))
      else
        dv_sector dv (dev b') = (dv_sector dv (dev b))(rq_sector rq := load_bytes (rq_data rq) 512 (mem b)) \<and>
        mem b' = store_bytes (rq_status rq) [0] (mem b))"

definition blk_device :: "'d hw \<Rightarrow> 'd disk_view \<Rightarrow> u64 \<Rightarrow> vring \<Rightarrow> bool" where
  "blk_device hw dv h v \<longleftrightarrow>
     (\<forall>d sec. length (dv_sector dv d sec) = 512) \<and>
     (\<forall>b rq. a_idx (avail_mem b (vr_avail v)) = dv_seen dv (dev b) + 1 \<longrightarrow>
        parse_blk_request b (vr_desc v) (device_head dv v b) = Some rq \<longrightarrow>
        rq_type rq = 0 \<or> rq_type rq = 1 \<and> dv_good dv (dev b) (rq_sector rq) \<longrightarrow>
        (\<exists>b'. completes hw (vr_used v) (u_idx (used_mem b (vr_used v))) (hw_store hw (h + 16) 2 0 b) b' \<and>
              blk_effect dv v rq b b'))"

section \<open>The driver between two requests\<close>

text \<open>
  Between requests nothing is outstanding: driver and device agree on the indices, the next
  descriptor to use is descriptor 0, and every entry of the available ring names descriptor 0.
  The last part is what makes the driver work at all.  The driver puts the head of a chain at the
  position \<open>avail_next mod (num - 1)\<close> of the ring, while the device looks at \<open>idx mod num\<close>; the
  device finds the right head because all entries are equal.
\<close>

definition blk_ready :: "'d hw \<Rightarrow> 'd disk_view \<Rightarrow> nat \<Rightarrow> ('d, 'z) virtio_state_scheme \<Rightarrow> bool" where
  "blk_ready hw dv d s \<longleftrightarrow> d < length (virtio_drivers s) \<and> initialized (virtio_drivers s ! d) \<and>
     (\<exists>v. vring_at s (d, 0) v \<and> blk_device hw dv (host (virtio_drivers s ! d)) v \<and>
        4 \<le> unat (vr_num v) \<and>
        unat (vr_num v) \<le> length (desc_mem (bus s) (vr_desc v)) \<and>
        unat (vr_num v) \<le> length (a_ring (avail_mem (bus s) (vr_avail v))) \<and>
        (\<forall>i < unat (vr_num v). a_ring (avail_mem (bus s) (vr_avail v)) ! i = 0) \<and>
        descr_next (bookeeping v) = 0 \<and>
        used_last (bookeeping v) = u_idx (used_mem (bus s) (vr_used v)) \<and>
        avail_next (bookeeping v) = a_idx (avail_mem (bus s) (vr_avail v)) \<and>
        avail_next (bookeeping v) = dv_seen dv (dev (bus s)))"

definition frame_ok :: "frame \<Rightarrow> u64 \<Rightarrow> bool" where
  "frame_ok fr addr \<longleftrightarrow> disjoint_ranges (blk_hdr fr) 16 (blk_status fr) 1 \<and>
     disjoint_ranges addr 512 (blk_hdr fr) 16 \<and> disjoint_ranges addr 512 (blk_status fr) 1"

lemma next_descr_unat:
  assumes "2 \<le> unat (vr_num v)"
  shows "unat (next_descr v) = (unat (descr_next (bookeeping v)) + 1) mod (unat (vr_num v) - 1)"
proof -
  have "unat (vr_num v - 1) = unat (vr_num v) - 1"
    using assms by (intro trans [OF unat_sub]) (simp_all add: word_le_nat_alt)
  moreover have "unat (ucast (descr_next (bookeeping v)) + 1 :: u32) = unat (descr_next (bookeeping v)) + 1"
    using unsigned_less [of "descr_next (bookeeping v)", where 'a = nat]
    by (subst unat_add_small) (simp_all add: unat_ucast_up)
  ultimately show ?thesis by (simp add: next_descr_def unat_mod_distrib)
qed

text \<open>The three descriptors of a request, starting from descriptor 0 of a queue of at least four.\<close>

lemma next_descr_small:
  assumes "4 \<le> unat (vr_num v)" and "unat (descr_next (bookeeping v)) < 2"
  shows "next_descr v = ucast (descr_next (bookeeping v)) + 1"
proof (rule word_eq_unatI)
  have "unat (ucast (descr_next (bookeeping v)) + 1 :: u32) = unat (descr_next (bookeeping v)) + 1"
    using assms(2) by (subst unat_add_small) (simp_all add: unat_ucast_up)
  then show "unat (next_descr v) = unat (ucast (descr_next (bookeeping v)) + 1 :: u32)"
    using assms by (simp add: next_descr_unat)
qed

section \<open>A request from the driver to the device and back\<close>

text \<open>Both sector functions are one request that differs in the operation and the direction of the data.\<close>

definition blk_submit ::
    "'d hw \<Rightarrow> frame \<Rightarrow> nat \<Rightarrow> u32 \<Rightarrow> u16 \<Rightarrow> u64 \<Rightarrow> u64 \<Rightarrow> (('d, 'z) virtio_state_scheme, u8) kernel_op" where
  "blk_submit hw fr driver op dflags sector addr =
     mthen (store (blk_status fr) [0xff])
     (mthen (store (blk_hdr fr) (le_bytes 4 op))
     (mthen (store (blk_hdr fr + 8) (le_bytes 8 sector))
     (mbind (vring_use_descr (driver, 0)) (\<lambda>next.
      let used = ucast next :: u32 in
      mbind (vring_add_to_descr (driver, 0) (blk_hdr fr) 16 0 (ucast next) False) (\<lambda>next.
      mbind (vring_add_to_descr (driver, 0) addr (of_nat VIRTIO_BLK_SIZE) dflags (ucast next) False) (\<lambda>next.
      mbind (vring_add_to_descr (driver, 0) (blk_status fr) 1 VRING_DESCR_WRITABLE (ucast next) True) (\<lambda>next.
      mthen (vring_post_descr (driver, 0) used)
      (mthen (signal_virtio_device hw driver 0)
      (mthen (vring_wait_completion hw (driver, 0))
      (mthen (vring_unuse_descr (driver, 0) (ucast used))
        (mgets (\<lambda>s. ram s (blk_status fr)))))))))))))"

lemma sector_sync_submit:
  "virtio_blk_read_sector_sync hw fr d sector addr = blk_submit hw fr d VIRTIO_BLK_READ_OP VRING_DESCR_WRITABLE sector addr"
  "virtio_blk_write_sector_sync hw fr d sector addr = blk_submit hw fr d VIRTIO_BLK_WRITE_OP 0 sector addr"
  by (simp_all only: virtio_blk_read_sector_sync_def virtio_blk_write_sector_sync_def blk_submit_def)

text \<open>The bus when the request has been posted and the device not yet been told.\<close>

definition blk_posted :: "frame \<Rightarrow> vring \<Rightarrow> u32 \<Rightarrow> u16 \<Rightarrow> u64 \<Rightarrow> u64 \<Rightarrow> 'd bus \<Rightarrow> 'd bus" where
  "blk_posted fr v op dflags sector addr b = b\<lparr>
     mem := store_bytes (blk_hdr fr + 8) (le_bytes 8 sector) (store_bytes (blk_hdr fr) (le_bytes 4 op)
       (store_bytes (blk_status fr) [0xff] (mem b))),
     desc_mem := (desc_mem b)(vr_desc v := (desc_mem b (vr_desc v))[
       0 := \<lparr>d_addr = blk_hdr fr, d_len = 16, d_flags = 1, d_next = 1\<rparr>,
       1 := \<lparr>d_addr = addr, d_len = 512, d_flags = dflags OR 1, d_next = 2\<rparr>,
       2 := \<lparr>d_addr = blk_status fr, d_len = 1, d_flags = 2, d_next = 0\<rparr>]),
     avail_mem := (avail_mem b)(vr_avail v := (avail_mem b (vr_avail v))\<lparr>
       a_ring := (a_ring (avail_mem b (vr_avail v)))[post_slot v := 0],
       a_idx := avail_next (bookeeping v) + 1\<rparr>)\<rparr>"

lemma store_eq [monad_simps]: "store p bs s = Ok () (s\<lparr>bus := (bus s)\<lparr>mem := store_bytes p bs (ram s)\<rparr>\<rparr>)"
  by (simp add: store_def monad_simps)

lemma signal_at [monad_simps]:
  "d < length (virtio_drivers s) \<Longrightarrow> signal_virtio_device hw d sig s =
     Ok () (s\<lparr>bus := hw_store hw (host (virtio_drivers s ! d) + 16) 2 (ucast sig) (bus s)\<rparr>)"
  by (simp add: signal_virtio_device_def get_driver_def monad_simps)

lemma blk_submit_eval:
  assumes at: "vring_at s (d, 0) v" and num: "4 \<le> unat (vr_num v)"
    and desc: "unat (vr_num v) \<le> length (desc_mem (bus s) (vr_desc v))"
    and ring: "unat (vr_num v) \<le> length (a_ring (avail_mem (bus s) (vr_avail v)))"
    and idle: "descr_next (bookeeping v) = 0"
    and fin: "completes hw (vr_used v) (used_last (bookeeping v))
      (hw_store hw (host (virtio_drivers s ! d) + 16) 2 0 (blk_posted fr v op dflags sector addr (bus s))) b'"
  shows "blk_submit hw fr d op dflags sector addr s = Ok (mem b' (blk_status fr))
    (upd_vring (d, 0) (v\<lparr>bookeeping := (bookeeping v)\<lparr>avail_next := avail_next (bookeeping v) + 1,
       used_last := u_idx (used_mem b' (vr_used v)), descr_next := 0\<rparr>\<rparr>) (s\<lparr>bus := b'\<rparr>))"
proof -
  have d: "d < length (virtio_drivers s)" using at by (simp add: vring_at_def)
  have host: "host (virtio_drivers (upd_vring (d, 0) w t) ! d) = host (virtio_drivers s ! d)"
    and len: "d < length (virtio_drivers (upd_vring (d, 0) w t))"
    if "virtio_drivers t = virtio_drivers s" for w t
    using that d by (simp_all add: upd_vring_def)
  have n: "0 < vr_num v" "1 < vr_num v" "2 < vr_num v" "2 \<le> unat (vr_num v)"
    using num by (simp_all add: word_less_nat_alt)
  let ?v1 = "set_descr_next 1 v" and ?v2 = "set_descr_next 2 v"
  have nd: "next_descr v = 1" "next_descr ?v1 = 2"
    using num idle next_descr_small [of v] next_descr_small [of ?v1] by simp_all
  have slot: "post_slot (set_descr_next x v) = post_slot v" for x
    by (simp add: post_slot_def)
  have l: "desc_mem (bus s) (vr_desc v) \<noteq> []" "Suc 0 < length (desc_mem (bus s) (vr_desc v))"
    "2 < length (desc_mem (bus s) (vr_desc v))"
    using num desc by auto
  have "post_slot v < length (a_ring (avail_mem (bus s) (vr_avail v)))"
    using post_slot_less [OF n(4)] ring by simp
  then show ?thesis
    unfolding blk_submit_def Let_def
    using at d n nd l slot idle fin
    by (simp add: monad_simps host len VRING_DESC_NEXT_def VRING_DESCR_WRITABLE_def VIRTIO_BLK_SIZE_def
      blk_posted_def)
qed

text \<open>What a request leaves alone: everything but the bus and the vrings.\<close>

definition io_only :: "('d, 'z) virtio_state_scheme \<Rightarrow> ('d, 'z) virtio_state_scheme \<Rightarrow> bool" where
  "io_only s t \<longleftrightarrow> (\<exists>b ds. t = s\<lparr>bus := b, virtio_drivers := ds\<rparr>)"

lemma io_only_refl [simp]: "io_only s s"
  unfolding io_only_def by (intro exI [of _ "bus s"] exI [of _ "virtio_drivers s"]) simp

lemma io_only_trans: "io_only s t \<Longrightarrow> io_only t u \<Longrightarrow> io_only s u"
  unfolding io_only_def by (elim exE) (simp, blast)

lemma io_onlyI: "io_only s t \<Longrightarrow> io_only s (t\<lparr>bus := b, virtio_drivers := ds\<rparr>)"
  unfolding io_only_def by (elim exE) (simp, blast)

lemma io_only_bus: "io_only s t \<Longrightarrow> io_only s (t\<lparr>bus := b\<rparr>)"
  using io_onlyI [where t = t and b = b and ds = "virtio_drivers t"] by simp

lemma io_only_upd_vring: "io_only s t \<Longrightarrow> io_only s (upd_vring r v t)"
  using io_onlyI [where t = t and b = "bus t"] by (cases r) (simp add: upd_vring_def)

section \<open>The device finds the request\<close>

definition request_kind :: "u32 \<Rightarrow> u16 \<Rightarrow> bool" where
  "request_kind op dflags \<longleftrightarrow> op = 0 \<and> dflags = 2 \<or> op = 1 \<and> dflags = 0"

lemma parse_posted:
  assumes "3 \<le> length (desc_mem b (vr_desc v))" and "frame_ok fr addr" and "request_kind op dflags"
  shows "parse_blk_request (blk_posted fr v op dflags sector addr b) (vr_desc v) 0 =
    Some \<lparr>rq_type = op, rq_sector = sector, rq_data = addr, rq_status = blk_status fr\<rparr>"
proof -
  define n where "n = length (desc_mem b (vr_desc v)) - 3"
  have n: "length (desc_mem b (vr_desc v)) = Suc (Suc (Suc n))"
    using assms(1) by (simp add: n_def)
  have flags: "bit (dflags OR 1 :: u16) 0" "bit (dflags OR 1 :: u16) (Suc 0) \<longleftrightarrow> op = 0"
    using assms(3) by (auto simp: request_kind_def bit_simps)
  have "disjoint_ranges (blk_hdr fr) 4 (blk_hdr fr + 8) 8"
    using disjoint_offsets [of 0 4 8 8 "blk_hdr fr"] by simp
  then have op: "load_bytes (blk_hdr fr) 4 (store_bytes (blk_hdr fr + 8) (le_bytes 8 sector)
      (store_bytes (blk_hdr fr) (le_bytes 4 op) m)) = le_bytes 4 op" for m
    using load_store_same [of "le_bytes 4 op"] by (simp add: load_store_other)
  have sec: "load_bytes (blk_hdr fr + 8) 8 (store_bytes (blk_hdr fr + 8) (le_bytes 8 sector) m) = le_bytes 8 sector" for m
    using load_store_same [of "le_bytes 8 sector"] by simp
  show ?thesis
    using n flags
    by (simp add: parse_blk_request_def blk_posted_def device_writable_def op sec le_word_le_bytes Let_def)
qed

lemma device_head_posted:
  assumes "\<forall>i < unat (vr_num v). a_ring (avail_mem b (vr_avail v)) ! i = 0"
    and "unat (vr_num v) \<le> length (a_ring (avail_mem b (vr_avail v)))" and "0 < unat (vr_num v)"
  shows "device_head dv v (blk_posted fr v op dflags sector addr b) = 0"
proof -
  let ?i = "unat (dv_seen dv (dev b)) mod unat (vr_num v)"
  have "?i < unat (vr_num v)" using assms(3) by simp
  with assms(1,2) have "?i < length (a_ring (avail_mem b (vr_avail v)))"
    and "a_ring (avail_mem b (vr_avail v)) ! ?i = 0" by auto
  then show ?thesis
    by (cases "post_slot v = ?i") (simp_all add: device_head_def blk_posted_def)
qed

lemma blk_device_cong:
  "vr_desc w = vr_desc v \<Longrightarrow> vr_avail w = vr_avail v \<Longrightarrow> vr_used w = vr_used v \<Longrightarrow>
   vr_num w = vr_num v \<Longrightarrow> blk_device hw dv h w = blk_device hw dv h v"
  by (simp add: blk_device_def device_head_def blk_effect_def)

lemma blk_device_serves:
  assumes "blk_device hw dv h v" and "a_idx (avail_mem b (vr_avail v)) = dv_seen dv (dev b) + 1"
    and "parse_blk_request b (vr_desc v) (device_head dv v b) = Some rq"
    and "rq_type rq = 0 \<or> rq_type rq = 1 \<and> dv_good dv (dev b) (rq_sector rq)"
  obtains b' where "completes hw (vr_used v) (u_idx (used_mem b (vr_used v))) (hw_store hw (h + 16) 2 0 b) b'"
    and "blk_effect dv v rq b b'"
  using assms unfolding blk_device_def by blast

lemma used_mem_posted [simp]: "used_mem (blk_posted fr v op dflags sector addr b) = used_mem b"
  by (simp add: blk_posted_def)

lemma dev_posted [simp]: "dev (blk_posted fr v op dflags sector addr b) = dev b"
  by (simp add: blk_posted_def)

text \<open>The driver is ready again once it has seen the completion.\<close>

lemma blk_ready_again:
  assumes ready: "blk_ready hw dv d s" and at: "vring_at s (d, 0) v"
    and eff: "blk_effect dv v rq (blk_posted fr v op dflags sector addr (bus s)) b'"
  shows "blk_ready hw dv d (upd_vring (d, 0) (v\<lparr>bookeeping := (bookeeping v)\<lparr>
    avail_next := avail_next (bookeeping v) + 1, used_last := u_idx (used_mem b' (vr_used v)),
    descr_next := 0\<rparr>\<rparr>) (s\<lparr>bus := b'\<rparr>))" (is "blk_ready hw dv d (upd_vring (d, 0) ?v _)")
proof -
  from ready at have d: "d < length (virtio_drivers s)" "initialized (virtio_drivers s ! d)"
    and dev: "blk_device hw dv (host (virtio_drivers s ! d)) v" and num: "4 \<le> unat (vr_num v)"
    and desc: "unat (vr_num v) \<le> length (desc_mem (bus s) (vr_desc v))"
    and ring: "unat (vr_num v) \<le> length (a_ring (avail_mem (bus s) (vr_avail v)))"
    and zero: "\<forall>i < unat (vr_num v). a_ring (avail_mem (bus s) (vr_avail v)) ! i = 0"
    and seen: "avail_next (bookeeping v) = dv_seen dv (dev (bus s))"
    by (auto simp: blk_ready_def vring_at_def)
  define w where "w = ?v"
  define t where "t = upd_vring (d, 0) w (s\<lparr>bus := b'\<rparr>)"
  have drv: "virtio_drivers t ! d = (virtio_drivers s ! d)\<lparr>vring := (vring (virtio_drivers s ! d))[0 := w]\<rparr>"
    and len: "d < length (virtio_drivers t)" and upd: "vring_at t (d, 0) w" and bus: "bus t = b'"
    using d at by (simp_all add: t_def upd_vring_def vring_at_def)
  have w: "vr_num w = vr_num v" "vr_desc w = vr_desc v" "vr_avail w = vr_avail v" "vr_used w = vr_used v"
    "descr_next (bookeeping w) = 0" "used_last (bookeeping w) = u_idx (used_mem b' (vr_used v))"
    "avail_next (bookeeping w) = avail_next (bookeeping v) + 1"
    by (simp_all add: w_def)
  from eff have mems: "avail_mem b' = avail_mem (blk_posted fr v op dflags sector addr (bus s))"
    "desc_mem b' = desc_mem (blk_posted fr v op dflags sector addr (bus s))"
    "dv_seen dv (dev b') = dv_seen dv (dev (bus s)) + 1"
    by (simp_all add: blk_effect_def)
  have "blk_device hw dv (host (virtio_drivers t ! d)) w"
    using dev by (simp add: drv blk_device_cong [of w v] w)
  then have "blk_ready hw dv d t"
    unfolding blk_ready_def using upd len d(2) num desc ring seen
    by (intro conjI exI [of _ w]) (simp_all add: drv w bus mems blk_posted_def nth_update_const [OF zero ring])
  then show ?thesis by (simp only: t_def w_def)
qed

text \<open>
  A request that starts with the driver ready comes back: the device has done what was asked,
  and the driver is ready again.
\<close>

lemma blk_request_run:
  assumes ready: "blk_ready hw dv d s" and fr: "frame_ok fr addr" and kind: "request_kind op dflags"
    and good: "op = 1 \<Longrightarrow> dv_good dv (dev (bus s)) sector"
  obtains v t where "blk_submit hw fr d op dflags sector addr s = Ok (ram t (blk_status fr)) t"
    and "blk_ready hw dv d t" and "io_only s t"
    and "blk_effect dv v \<lparr>rq_type = op, rq_sector = sector, rq_data = addr, rq_status = blk_status fr\<rparr>
      (blk_posted fr v op dflags sector addr (bus s)) (bus t)"
proof -
  from ready obtain v where at: "vring_at s (d, 0) v"
    and dev: "blk_device hw dv (host (virtio_drivers s ! d)) v" and num: "4 \<le> unat (vr_num v)"
    and desc: "unat (vr_num v) \<le> length (desc_mem (bus s) (vr_desc v))"
    and ring: "unat (vr_num v) \<le> length (a_ring (avail_mem (bus s) (vr_avail v)))"
    and zero: "\<forall>i < unat (vr_num v). a_ring (avail_mem (bus s) (vr_avail v)) ! i = 0"
    and idle: "descr_next (bookeeping v) = 0"
    and used: "used_last (bookeeping v) = u_idx (used_mem (bus s) (vr_used v))"
    and seen: "avail_next (bookeeping v) = dv_seen dv (dev (bus s))"
    by (auto simp: blk_ready_def)
  let ?b = "blk_posted fr v op dflags sector addr (bus s)"
  let ?rq = "\<lparr>rq_type = op, rq_sector = sector, rq_data = addr, rq_status = blk_status fr\<rparr>"
  have "device_head dv v ?b = 0" using device_head_posted [OF zero ring] num by simp
  then have "parse_blk_request ?b (vr_desc v) (device_head dv v ?b) = Some ?rq"
    using parse_posted [OF _ fr kind, of "bus s" v sector] desc num by simp
  moreover have "a_idx (avail_mem ?b (vr_avail v)) = dv_seen dv (dev ?b) + 1"
    using seen by (simp add: blk_posted_def)
  moreover have "rq_type ?rq = 0 \<or> rq_type ?rq = 1 \<and> dv_good dv (dev ?b) (rq_sector ?rq)"
    using kind good by (auto simp: request_kind_def)
  ultimately obtain b' where fin: "completes hw (vr_used v) (used_last (bookeeping v))
      (hw_store hw (host (virtio_drivers s ! d) + 16) 2 0 ?b) b'" and eff: "blk_effect dv v ?rq ?b b'"
    using blk_device_serves [OF dev] by (metis used used_mem_posted)
  show thesis
    by (rule that [OF _ blk_ready_again [OF ready at eff], of v])
      (use blk_submit_eval [OF at num desc ring idle fin] eff in
        \<open>simp_all add: io_only_upd_vring io_only_bus\<close>)
qed

section \<open>Sectors\<close>

abbreviation disk :: "'d disk_view \<Rightarrow> ('d, 'z) virtio_state_scheme \<Rightarrow> u64 \<Rightarrow> bytes" where
  "disk dv s \<equiv> dv_sector dv (dev (bus s))"

abbreviation good :: "'d disk_view \<Rightarrow> ('d, 'z) virtio_state_scheme \<Rightarrow> u64 \<Rightarrow> bool" where
  "good dv s \<equiv> dv_good dv (dev (bus s))"

lemma disk_length: "blk_ready hw dv d s \<Longrightarrow> length (dv_sector dv x sec) = 512"
  by (auto simp: blk_ready_def blk_device_def)

lemma store_status: "store_bytes p [x] m p = x"
  by (simp add: store_bytes_def)

lemma load_posted:
  assumes "frame_ok fr addr"
  shows "load_bytes addr 512 (mem (blk_posted fr v op dflags sector addr b)) = load_bytes addr 512 (mem b)"
proof -
  have h: "disjoint_ranges addr 512 (blk_hdr fr) 16" and st: "disjoint_ranges addr 512 (blk_status fr) 1"
    using assms by (simp_all add: frame_ok_def)
  have "disjoint_ranges addr 512 (blk_hdr fr + 8) 8"
    using disjoint_ranges_sub [of "blk_hdr fr" 16 addr 512 8 8] h by (simp add: disjoint_ranges_sym)
  moreover have "disjoint_ranges addr 512 (blk_hdr fr) 4"
    using h by (rule disjoint_ranges_mono) simp_all
  ultimately show ?thesis using st by (simp add: blk_posted_def load_store_other)
qed

lemma read_sector_good:
  assumes "blk_ready hw dv d s" and "frame_ok fr addr" and "good dv s sector"
  obtains t where "virtio_blk_read_sector_sync hw fr d sector addr s = Ok 0 t" and "blk_ready hw dv d t"
    and "io_only s t" and "disk dv t = disk dv s" and "good dv t = good dv s"
    and "load_bytes addr 512 (ram t) = disk dv s sector"
proof -
  obtain v t where run: "blk_submit hw fr d 0 2 sector addr s = Ok (ram t (blk_status fr)) t"
    and t: "blk_ready hw dv d t" "io_only s t"
    and eff: "blk_effect dv v \<lparr>rq_type = 0, rq_sector = sector, rq_data = addr, rq_status = blk_status fr\<rparr>
      (blk_posted fr v 0 2 sector addr (bus s)) (bus t)"
    by (rule blk_request_run [OF assms(1,2), of 0 2]) (simp_all add: request_kind_def)
  have "disjoint_ranges addr 512 (blk_status fr) 1" using assms(2) by (simp add: frame_ok_def)
  moreover have "length (disk dv s sector) = 512" using assms(1) by (rule disk_length)
  ultimately show thesis
    using that [of t] run t eff assms(3) load_store_same [of "disk dv s sector" addr]
    by (simp add: blk_effect_def sector_sync_submit VIRTIO_BLK_READ_OP_def VRING_DESCR_WRITABLE_def
      store_status load_store_other)
qed

lemma read_sector_bad:
  assumes "blk_ready hw dv d s" and "frame_ok fr addr" and "\<not> good dv s sector"
  obtains e t where "virtio_blk_read_sector_sync hw fr d sector addr s = Ok e t" and "e \<noteq> 0"
    and "blk_ready hw dv d t" and "io_only s t" and "disk dv t = disk dv s" and "good dv t = good dv s"
proof -
  obtain v t where run: "blk_submit hw fr d 0 2 sector addr s = Ok (ram t (blk_status fr)) t"
    and t: "blk_ready hw dv d t" "io_only s t"
    and eff: "blk_effect dv v \<lparr>rq_type = 0, rq_sector = sector, rq_data = addr, rq_status = blk_status fr\<rparr>
      (blk_posted fr v 0 2 sector addr (bus s)) (bus t)"
    by (rule blk_request_run [OF assms(1,2), of 0 2]) (simp_all add: request_kind_def)
  from eff assms(3) have "ram t (blk_status fr) \<noteq> 0" "disk dv t = disk dv s" "good dv t = good dv s"
    by (auto simp: blk_effect_def store_status)
  with that run t show thesis
    by (simp add: sector_sync_submit VIRTIO_BLK_READ_OP_def VRING_DESCR_WRITABLE_def)
qed

lemma write_sector_good:
  assumes "blk_ready hw dv d s" and "frame_ok fr addr" and "good dv s sector"
  obtains t where "virtio_blk_write_sector_sync hw fr d sector addr s = Ok 0 t" and "blk_ready hw dv d t"
    and "io_only s t" and "disk dv t = (disk dv s)(sector := load_bytes addr 512 (ram s))"
    and "good dv t = good dv s"
proof -
  obtain v t where run: "blk_submit hw fr d 1 0 sector addr s = Ok (ram t (blk_status fr)) t"
    and t: "blk_ready hw dv d t" "io_only s t"
    and eff: "blk_effect dv v \<lparr>rq_type = 1, rq_sector = sector, rq_data = addr, rq_status = blk_status fr\<rparr>
      (blk_posted fr v 1 0 sector addr (bus s)) (bus t)"
    by (rule blk_request_run [OF assms(1,2), of 1 0]) (use assms(3) in \<open>simp_all add: request_kind_def\<close>)
  then show thesis
    using that [of t] eff
    by (simp add: blk_effect_def sector_sync_submit VIRTIO_BLK_WRITE_OP_def store_status load_posted [OF assms(2)])
qed

section \<open>The disk as a flat sequence of bytes\<close>

definition disk_byte :: "'d disk_view \<Rightarrow> ('d, 'z) virtio_state_scheme \<Rightarrow> nat \<Rightarrow> u8" where
  "disk_byte dv s p = (if p < 2 ^ 64 then disk dv s (of_nat (p div 512)) ! (p mod 512) else 0)"

definition disk_ok :: "'d disk_view \<Rightarrow> ('d, 'z) virtio_state_scheme \<Rightarrow> nat \<Rightarrow> bool" where
  "disk_ok dv s p = good dv s (of_nat (p div 512))"

lemma blk_ready_mem [simp]: "blk_ready hw dv d (s\<lparr>bus := (bus s)\<lparr>mem := m\<rparr>\<rparr>) = blk_ready hw dv d s"
  by (simp add: blk_ready_def)

lemma disk_byte_cong: "disk dv t = disk dv s \<Longrightarrow> disk_byte dv t = disk_byte dv s"
  by (rule ext) (simp add: disk_byte_def)

lemma disk_ok_cong: "good dv t = good dv s \<Longrightarrow> disk_ok dv t = disk_ok dv s"
  by (rule ext) (simp add: disk_ok_def)

lemma sector_slice:
  assumes "length (disk dv s (of_nat (p div 512))) = 512" and "p mod 512 + n \<le> 512" and "p + n \<le> 2 ^ 64"
  shows "slice (p mod 512) n (disk dv s (of_nat (p div 512))) = bytes_at (disk_byte dv s) p n"
proof (rule nth_equalityI)
  fix i assume "i < length (slice (p mod 512) n (disk dv s (of_nat (p div 512))))"
  then have i: "i < n" by simp
  have "p mod 512 + i < 512" using i assms(2) by simp
  then have "(p + i) div 512 = p div 512" "(p + i) mod 512 = p mod 512 + i"
    by (rule div_mod_add_small)+
  with i assms show "slice (p mod 512) n (disk dv s (of_nat (p div 512))) ! i = bytes_at (disk_byte dv s) p n ! i"
    by (simp add: nth_slice nth_bytes_at disk_byte_def)
qed (use assms in simp)

text \<open>The positions that the two loops compute, without wrap-around.\<close>

lemma blk_pos:
  assumes "amt < sz" and "unat offset + unat sz \<le> 2 ^ 64"
  defines "p \<equiv> unat offset + unat amt"
  shows "virtio_blk_sector_from_pos (offset + amt) = of_nat (p div 512)"
    and "virtio_blk_sector_offset_from_pos (offset + amt) = of_nat (p mod 512)"
    and "unat (blk_chunk offset sz amt) = min (unat sz - unat amt) (512 - p mod 512)"
    and "p < 2 ^ 64"
proof -
  have a: "unat amt < unat sz" using assms(1) by (simp add: word_less_nat_alt)
  then show p: "p < 2 ^ 64" using assms(2) by (simp add: p_def)
  then have u: "unat (offset + amt) = p" by (simp add: p_def unat_add_small)
  show "virtio_blk_sector_from_pos (offset + amt) = of_nat (p div 512)"
    by (rule word_eq_unatI)
      (use p in \<open>simp add: virtio_blk_sector_from_pos_def VIRTIO_BLK_SIZE_def unat_div_distrib u unat_of_nat\<close>)
  show off: "virtio_blk_sector_offset_from_pos (offset + amt) = of_nat (p mod 512)"
    by (rule word_eq_unatI)
      (simp add: virtio_blk_sector_offset_from_pos_def VIRTIO_BLK_SIZE_def unat_mod_distrib u unat_of_nat)
  have "unat (512 - of_nat (p mod 512) :: u64) = 512 - p mod 512"
    by (subst unat_sub) (simp_all add: word_le_nat_alt unat_of_nat)
  moreover have "unat (sz - amt) = unat sz - unat amt"
    using assms(1) by (intro unat_sub) simp
  ultimately show "unat (blk_chunk offset sz amt) = min (unat sz - unat amt) (512 - p mod 512)"
    by (simp add: blk_chunk_def MIN_macro_def off VIRTIO_BLK_SIZE_def word_less_nat_alt)
qed

lemma disk_ok_sector:
  assumes "p mod 512 + i < 512"
  shows "disk_ok dv s (p + i) = good dv s (of_nat (p div 512))"
  using div_mod_add_small(1) [OF assms] by (simp add: disk_ok_def)

text \<open>One pass of the read loop, over a bad and over a good sector.\<close>

lemma read_pass_bad:
  assumes ready: "blk_ready hw dv d s" and fr: "frame_ok fr (blk_buf fr)"
    and sz: "unat offset + unat sz \<le> 2 ^ 64" and more: "amt < sz"
    and bad: "\<not> disk_ok dv s (unat offset + unat amt)"
  obtains t where "virtio_blk_read_loop hw fr d offset sz amt out s = Ok out t" and "blk_ready hw dv d t"
    and "io_only s t" and "disk dv t = disk dv s" and "good dv t = good dv s"
proof -
  let ?sec = "of_nat ((unat offset + unat amt) div 512) :: u64"
  define s1 where "s1 = s\<lparr>bus := (bus s)\<lparr>mem := store_bytes (blk_buf fr) (replicate 512 0) (ram s)\<rparr>\<rparr>"
  have s1: "blk_ready hw dv d s1" "disk dv s1 = disk dv s" "good dv s1 = good dv s" "io_only s s1"
    using ready by (simp_all add: s1_def io_only_bus)
  have "\<not> good dv s1 ?sec" using bad s1(3) by (simp add: disk_ok_def)
  then obtain e t where "virtio_blk_read_sector_sync hw fr d ?sec (blk_buf fr) s1 = Ok e t" "e \<noteq> 0"
    and t: "blk_ready hw dv d t" "io_only s1 t" "disk dv t = disk dv s1" "good dv t = good dv s1"
    by (rule read_sector_bad [OF s1(1) fr])
  then have "virtio_blk_read_loop hw fr d offset sz amt out s = Ok out t"
    using more by (simp add: virtio_blk_read_loop.simps [of hw fr d offset sz amt] monad_simps Let_def
      blk_pos(1,2) [OF more sz] VIRTIO_BLK_SIZE_def flip: s1_def)
  with t s1 show thesis by (intro that [of t]) (auto intro: io_only_trans)
qed

lemma chunk_in_sector:
  assumes "amt < sz" and "unat offset + unat sz \<le> 2 ^ 64"
  shows "(unat offset + unat amt) mod 512 + unat (blk_chunk offset sz amt) \<le> 512"
    and "unat offset + unat amt + unat (blk_chunk offset sz amt) \<le> 2 ^ 64"
proof -
  have "(unat offset + unat amt) mod 512 < 512" by simp
  with blk_pos(3) [OF assms] show "(unat offset + unat amt) mod 512 + unat (blk_chunk offset sz amt) \<le> 512"
    by linarith
  show "unat offset + unat amt + unat (blk_chunk offset sz amt) \<le> 2 ^ 64"
    using blk_chunk_progress(3) [OF assms(1), of offset] assms(2) by linarith
qed

lemma chunk_ok:
  assumes "amt < sz" and "unat offset + unat sz \<le> 2 ^ 64" and "i < unat (blk_chunk offset sz amt)"
  shows "disk_ok dv s (unat offset + unat amt + i) = disk_ok dv s (unat offset + unat amt)"
  using disk_ok_sector [of "unat offset + unat amt" i dv s] chunk_in_sector(1) [OF assms(1,2)] assms(3)
  by (simp add: disk_ok_def)

lemma read_pass_good:
  assumes ready: "blk_ready hw dv d s" and fr: "frame_ok fr (blk_buf fr)"
    and sz: "unat offset + unat sz \<le> 2 ^ 64" and more: "amt < sz"
    and ok: "disk_ok dv s (unat offset + unat amt)"
  obtains t where "virtio_blk_read_loop hw fr d offset sz amt out s =
      virtio_blk_read_loop hw fr d offset sz (amt + blk_chunk offset sz amt)
        (out @ bytes_at (disk_byte dv s) (unat offset + unat amt) (unat (blk_chunk offset sz amt))) t"
    and "blk_ready hw dv d t" and "io_only s t" and "disk dv t = disk dv s" and "good dv t = good dv s"
proof -
  let ?p = "unat offset + unat amt" and ?c = "blk_chunk offset sz amt"
  let ?sec = "of_nat (?p div 512) :: u64"
  define s1 where "s1 = s\<lparr>bus := (bus s)\<lparr>mem := store_bytes (blk_buf fr) (replicate 512 0) (ram s)\<rparr>\<rparr>"
  have s1: "blk_ready hw dv d s1" "disk dv s1 = disk dv s" "good dv s1 = good dv s" "io_only s s1"
    using ready by (simp_all add: s1_def io_only_bus)
  have "good dv s1 ?sec" using ok s1(3) by (simp add: disk_ok_def)
  then obtain t where run: "virtio_blk_read_sector_sync hw fr d ?sec (blk_buf fr) s1 = Ok 0 t"
    and t: "blk_ready hw dv d t" "io_only s1 t" "disk dv t = disk dv s1" "good dv t = good dv s1"
    and ld: "load_bytes (blk_buf fr) 512 (ram t) = disk dv s1 ?sec"
    by (rule read_sector_good [OF s1(1) fr])
  note c = chunk_in_sector [OF more sz]
  have "load_bytes (blk_buf fr + of_nat (?p mod 512)) (unat ?c) (ram t) = slice (?p mod 512) (unat ?c) (disk dv s ?sec)"
    using c(1) ld s1(2) by (subst load_bytes_slice [where k = 512]) simp_all
  also have "\<dots> = bytes_at (disk_byte dv s) ?p (unat ?c)"
    using c disk_length [OF ready] by (intro sector_slice) auto
  finally show thesis
    using more run t s1 by (intro that [of t])
      (auto simp: virtio_blk_read_loop.simps [of hw fr d offset sz amt] monad_simps Let_def blk_pos(1,2) [OF more sz]
        VIRTIO_BLK_SIZE_def simp flip: s1_def intro: io_only_trans)
qed

lemma read_loop_correct:
  assumes "blk_ready hw dv d s" and fr: "frame_ok fr (blk_buf fr)" and sz: "unat offset + unat sz \<le> 2 ^ 64"
    and "amt \<le> sz"
  shows "\<exists>r t. virtio_blk_read_loop hw fr d offset sz amt out s =
      Ok (out @ bytes_at (disk_byte dv s) (unat offset + unat amt) r) t \<and>
    blk_ready hw dv d t \<and> io_only s t \<and> disk dv t = disk dv s \<and> good dv t = good dv s \<and>
    stops_after (disk_ok dv s) (unat offset + unat amt) (unat sz - unat amt) r"
  using assms(1,4)
proof (induction "unat sz - unat amt" arbitrary: amt out s rule: less_induct)
  case less
  note ready = less.prems(1)
  let ?p = "unat offset + unat amt" and ?c = "blk_chunk offset sz amt"
  consider (finished) "\<not> amt < sz" | (bad) "amt < sz" "\<not> disk_ok dv s ?p" | (ok) "amt < sz" "disk_ok dv s ?p" by blast
  then show ?case
  proof cases
    case finished
    then have "virtio_blk_read_loop hw fr d offset sz amt out s = Ok out s"
      by (simp add: virtio_blk_read_loop.simps [of hw fr d offset sz amt] monad_simps)
    with finished ready show ?thesis
      by (intro exI [of _ 0] exI [of _ s]) (simp add: stops_after_def word_less_nat_alt)
  next
    case bad
    show ?thesis
      by (rule read_pass_bad [OF ready fr sz bad, of out], intro exI [of _ 0] exI)
        (use bad in \<open>auto simp: stops_after_def\<close>)
  next
    case ok
    obtain t where run: "virtio_blk_read_loop hw fr d offset sz amt out s =
        virtio_blk_read_loop hw fr d offset sz (amt + ?c) (out @ bytes_at (disk_byte dv s) ?p (unat ?c)) t"
      and t: "blk_ready hw dv d t" "io_only s t" "disk dv t = disk dv s" "good dv t = good dv s"
      by (rule read_pass_good [OF ready fr sz ok])
    note prog = blk_chunk_progress [OF ok(1), of offset]
    have "unat sz - unat (amt + ?c) < unat sz - unat amt" "amt + ?c \<le> sz"
      using prog ok(1) by (simp_all add: word_le_nat_alt word_less_nat_alt)
    with less.hyps [OF _ t(1), of "amt + ?c" "out @ bytes_at (disk_byte dv s) ?p (unat ?c)"]
    obtain r u where "virtio_blk_read_loop hw fr d offset sz amt out s =
        Ok (out @ bytes_at (disk_byte dv s) ?p (unat ?c) @ bytes_at (disk_byte dv s) (?p + unat ?c) r) u"
      and u: "blk_ready hw dv d u" "io_only t u" "disk dv u = disk dv s" "good dv u = good dv s"
      and r: "stops_after (disk_ok dv s) (?p + unat ?c) (unat sz - unat amt - unat ?c) r"
      using run prog(2) t disk_byte_cong [OF t(3)] disk_ok_cong [OF t(4)] by (auto simp: add.assoc)
    moreover have "stops_after (disk_ok dv s) ?p (unat ?c + (unat sz - unat amt - unat ?c)) (unat ?c + r)"
      using chunk_ok [OF ok(1) sz, of _ dv s] ok(2) r by (intro stops_after_add) auto
    ultimately show ?thesis
      using prog(3) io_only_trans [OF t(2) u(2)]
      by (intro exI [of _ "unat ?c + r"] exI [of _ u]) (simp add: bytes_at_append)
  qed
qed

text \<open>Replacing part of a sector is overwriting that range of the flat disk.\<close>

lemma sector_patch:
  assumes sec: "disk dv t = (disk dv s)(of_nat (p div 512) := patch (p mod 512) xs (disk dv s (of_nat (p div 512))))"
    and len: "length (disk dv s (of_nat (p div 512))) = 512"
    and xs: "p mod 512 + length xs \<le> 512" "p + length xs \<le> 2 ^ 64" "p < 2 ^ 64"
  shows "disk_byte dv t = overwrite p xs (disk_byte dv s)"
proof
  fix q :: nat
  have dm: "p = 512 * (p div 512) + p mod 512" "q = 512 * (q div 512) + q mod 512" by simp_all
  consider (far) "2 ^ 64 \<le> q" | (other) "q < 2 ^ 64" "q div 512 \<noteq> p div 512"
    | (same) "q < 2 ^ 64" "q div 512 = p div 512" by linarith
  then show "disk_byte dv t q = overwrite p xs (disk_byte dv s) q"
  proof cases
    case far
    with xs show ?thesis by (simp add: disk_byte_def overwrite_def)
  next
    case other
    have "q div 512 < 2 ^ 64" "p div 512 < 2 ^ 64" using other(1) xs(3) by linarith+
    then have "unat (of_nat (q div 512) :: u64) \<noteq> unat (of_nat (p div 512) :: u64)"
      using other(2) by (simp add: unat_of_nat_small)
    then have "(of_nat (q div 512) :: u64) \<noteq> of_nat (p div 512)" by auto
    moreover have "\<not> (p \<le> q \<and> q < p + length xs)" using other(2) xs(1) dm by linarith
    ultimately show ?thesis by (auto simp: disk_byte_def overwrite_def sec)
  next
    case same
    then have "p \<le> q \<longleftrightarrow> p mod 512 \<le> q mod 512" "q < p + length xs \<longleftrightarrow> q mod 512 < p mod 512 + length xs"
      "q - p = q mod 512 - p mod 512"
      using dm by linarith+
    with same len xs(1) show ?thesis by (simp add: disk_byte_def overwrite_def sec nth_patch)
  qed
qed

text \<open>One pass of the write loop: read the sector, change the bytes, write it back.\<close>

lemma write_pass_bad:
  assumes ready: "blk_ready hw dv d s" and fr: "frame_ok fr (blk_buf fr)"
    and sz: "unat offset + unat sz \<le> 2 ^ 64" and more: "amt < sz"
    and bad: "\<not> disk_ok dv s (unat offset + unat amt)"
  obtains t where "virtio_blk_write_loop hw fr d input offset sz amt s = Ok amt t" and "blk_ready hw dv d t"
    and "io_only s t" and "disk dv t = disk dv s" and "good dv t = good dv s"
proof -
  let ?sec = "of_nat ((unat offset + unat amt) div 512) :: u64"
  define s1 where "s1 = s\<lparr>bus := (bus s)\<lparr>mem := store_bytes (blk_buf fr) (replicate 512 0) (ram s)\<rparr>\<rparr>"
  have s1: "blk_ready hw dv d s1" "disk dv s1 = disk dv s" "good dv s1 = good dv s" "io_only s s1"
    using ready by (simp_all add: s1_def io_only_bus)
  have "\<not> good dv s1 ?sec" using bad s1(3) by (simp add: disk_ok_def)
  then obtain e t where "virtio_blk_read_sector_sync hw fr d ?sec (blk_buf fr) s1 = Ok e t" "e \<noteq> 0"
    and t: "blk_ready hw dv d t" "io_only s1 t" "disk dv t = disk dv s1" "good dv t = good dv s1"
    by (rule read_sector_bad [OF s1(1) fr])
  then have "virtio_blk_write_loop hw fr d input offset sz amt s = Ok amt t"
    using more by (simp add: virtio_blk_write_loop.simps [of hw fr d input offset sz amt] monad_simps Let_def
      blk_pos(1,2) [OF more sz] VIRTIO_BLK_SIZE_def flip: s1_def)
  with t s1 show thesis by (intro that [of t]) (auto intro: io_only_trans)
qed

lemma write_pass_good:
  assumes ready: "blk_ready hw dv d s" and fr: "frame_ok fr (blk_buf fr)"
    and sz: "unat offset + unat sz \<le> 2 ^ 64" and more: "amt < sz" and len: "unat sz \<le> length input"
    and ok: "disk_ok dv s (unat offset + unat amt)"
  obtains t where "virtio_blk_write_loop hw fr d input offset sz amt s =
      virtio_blk_write_loop hw fr d input offset sz (amt + blk_chunk offset sz amt) t"
    and "blk_ready hw dv d t" and "io_only s t" and "good dv t = good dv s"
    and "disk_byte dv t = overwrite (unat offset + unat amt)
      (slice (unat amt) (unat (blk_chunk offset sz amt)) input) (disk_byte dv s)"
proof -
  let ?p = "unat offset + unat amt" and ?c = "blk_chunk offset sz amt"
  let ?sec = "of_nat (?p div 512) :: u64" and ?new = "slice (unat amt) (unat ?c) input"
  define s1 where "s1 = s\<lparr>bus := (bus s)\<lparr>mem := store_bytes (blk_buf fr) (replicate 512 0) (ram s)\<rparr>\<rparr>"
  have s1: "blk_ready hw dv d s1" "disk dv s1 = disk dv s" "good dv s1 = good dv s" "io_only s s1"
    using ready by (simp_all add: s1_def io_only_bus)
  have "good dv s1 ?sec" using ok s1(3) by (simp add: disk_ok_def)
  then obtain t where run: "virtio_blk_read_sector_sync hw fr d ?sec (blk_buf fr) s1 = Ok 0 t"
    and t: "blk_ready hw dv d t" "io_only s1 t" "disk dv t = disk dv s1" "good dv t = good dv s1"
    and ld: "load_bytes (blk_buf fr) 512 (ram t) = disk dv s1 ?sec"
    by (rule read_sector_good [OF s1(1) fr])
  define t1 where "t1 = t\<lparr>bus := (bus t)\<lparr>mem := store_bytes (blk_buf fr + of_nat (?p mod 512)) ?new (ram t)\<rparr>\<rparr>"
  have t1: "blk_ready hw dv d t1" "disk dv t1 = disk dv s" "good dv t1 = good dv s" "io_only t t1"
    using t s1 by (simp_all add: t1_def io_only_bus)
  note c = chunk_in_sector [OF more sz]
  have new: "length ?new = unat ?c"
    using blk_chunk_progress(3) [OF more, of offset] len by simp
  have buf: "load_bytes (blk_buf fr) 512 (ram t1) = patch (?p mod 512) ?new (disk dv s ?sec)"
    using c(1) new ld s1(2) by (simp add: t1_def load_store_patch)
  have "good dv t1 ?sec" using ok t1(3) by (simp add: disk_ok_def)
  then obtain u where run2: "virtio_blk_write_sector_sync hw fr d ?sec (blk_buf fr) t1 = Ok 0 u"
    and u: "blk_ready hw dv d u" "io_only t1 u" "good dv u = good dv t1"
    and wr: "disk dv u = (disk dv t1)(?sec := load_bytes (blk_buf fr) 512 (ram t1))"
    by (rule write_sector_good [OF t1(1) fr])
  have "disk_byte dv u = overwrite ?p ?new (disk_byte dv s)"
    using wr buf t1(2) new c blk_pos(4) [OF more sz] disk_length [OF ready] by (intro sector_patch) simp_all
  moreover have "io_only s u" using s1(4) t(2) t1(4) u(2) by (blast intro: io_only_trans)
  moreover have "virtio_blk_write_loop hw fr d input offset sz amt s =
      virtio_blk_write_loop hw fr d input offset sz (amt + ?c) u"
    using more run run2 by (simp add: virtio_blk_write_loop.simps [of hw fr d input offset sz amt] monad_simps
      Let_def blk_pos(1,2) [OF more sz] VIRTIO_BLK_SIZE_def flip: s1_def t1_def)
  ultimately show thesis using that [of u] u(1,3) t1(3) by simp
qed

lemma overwrite_slices:
  assumes "i + m + n \<le> length xs"
  shows "overwrite (p + m) (slice (i + m) n xs) (overwrite p (slice i m xs) f) = overwrite p (slice i (m + n) xs) f"
proof -
  have "slice i m xs @ slice (i + m) n xs = slice i (m + n) xs"
    by (simp add: slice_def take_add add.commute)
  then show ?thesis using overwrite_append [of p "slice i m xs" "slice (i + m) n xs" f] assms by simp
qed

lemma write_loop_correct:
  assumes "blk_ready hw dv d s" and fr: "frame_ok fr (blk_buf fr)" and sz: "unat offset + unat sz \<le> 2 ^ 64"
    and "amt \<le> sz" and len: "unat sz \<le> length input"
  shows "\<exists>r t. virtio_blk_write_loop hw fr d input offset sz amt s = Ok (of_nat (unat amt + r)) t \<and>
    blk_ready hw dv d t \<and> io_only s t \<and> good dv t = good dv s \<and>
    disk_byte dv t = overwrite (unat offset + unat amt) (slice (unat amt) r input) (disk_byte dv s) \<and>
    stops_after (disk_ok dv s) (unat offset + unat amt) (unat sz - unat amt) r"
  using assms(1,4)
proof (induction "unat sz - unat amt" arbitrary: amt s rule: less_induct)
  case less
  note ready = less.prems(1)
  let ?p = "unat offset + unat amt" and ?c = "blk_chunk offset sz amt"
  consider (finished) "\<not> amt < sz" | (bad) "amt < sz" "\<not> disk_ok dv s ?p" | (ok) "amt < sz" "disk_ok dv s ?p" by blast
  then show ?case
  proof cases
    case finished
    then have "virtio_blk_write_loop hw fr d input offset sz amt s = Ok amt s"
      by (simp add: virtio_blk_write_loop.simps [of hw fr d input offset sz amt] monad_simps)
    with finished ready show ?thesis
      by (intro exI [of _ 0] exI [of _ s]) (simp add: stops_after_def word_less_nat_alt slice_def)
  next
    case bad
    obtain t where "virtio_blk_write_loop hw fr d input offset sz amt s = Ok amt t"
      and t: "blk_ready hw dv d t" "io_only s t" "disk dv t = disk dv s" "good dv t = good dv s"
      by (rule write_pass_bad [OF ready fr sz bad])
    with bad(2) disk_byte_cong [OF t(3)] show ?thesis
      by (intro exI [of _ 0] exI [of _ t]) (simp add: stops_after_def slice_def)
  next
    case ok
    obtain t where run: "virtio_blk_write_loop hw fr d input offset sz amt s =
        virtio_blk_write_loop hw fr d input offset sz (amt + ?c) t"
      and t: "blk_ready hw dv d t" "io_only s t" "good dv t = good dv s"
        "disk_byte dv t = overwrite ?p (slice (unat amt) (unat ?c) input) (disk_byte dv s)"
      by (rule write_pass_good [OF ready fr sz ok(1) len ok(2)])
    note prog = blk_chunk_progress [OF ok(1), of offset]
    have "unat sz - unat (amt + ?c) < unat sz - unat amt" "amt + ?c \<le> sz"
      using prog ok(1) by (simp_all add: word_le_nat_alt word_less_nat_alt)
    with less.hyps [OF _ t(1), of "amt + ?c"]
    obtain r u where "virtio_blk_write_loop hw fr d input offset sz amt s = Ok (of_nat (unat amt + (unat ?c + r))) u"
      and u: "blk_ready hw dv d u" "io_only t u" "good dv u = good dv s"
      and dsk: "disk_byte dv u = overwrite (?p + unat ?c) (slice (unat amt + unat ?c) r input) (disk_byte dv t)"
      and r: "stops_after (disk_ok dv s) (?p + unat ?c) (unat sz - unat amt - unat ?c) r"
      using run prog(2) t(3) disk_ok_cong [OF t(3)] by (auto simp: add.assoc)
    moreover have "stops_after (disk_ok dv s) ?p (unat ?c + (unat sz - unat amt - unat ?c)) (unat ?c + r)"
      using chunk_ok [OF ok(1) sz, of _ dv s] ok(2) r by (intro stops_after_add) auto
    moreover have "unat amt + unat ?c + r \<le> length input"
      using r prog(3) len by (auto simp: stops_after_def)
    ultimately show ?thesis
      using prog(3) io_only_trans [OF t(2) u(2)] overwrite_slices [of "unat amt" "unat ?c" r input ?p]
      by (intro exI [of _ "unat ?c + r"] exI [of _ u]) (simp add: dsk t(4))
  qed
qed

section \<open>The interface of a byte store\<close>

text \<open>
  What the file system asks of the block driver: a store of bytes, some of them out of reach, with
  a read and a write that transfer every byte up to the first one out of reach.
\<close>

locale byte_store =
  fixes rd :: "u64 \<Rightarrow> u64 \<Rightarrow> ('s, bytes) kernel_op"
    and wr :: "bytes \<Rightarrow> u64 \<Rightarrow> u64 \<Rightarrow> ('s, u64) kernel_op"
    and inv :: "'s \<Rightarrow> bool"
    and content :: "'s \<Rightarrow> nat \<Rightarrow> u8"
    and ok :: "'s \<Rightarrow> nat \<Rightarrow> bool"
    and framed :: "'s \<Rightarrow> 's \<Rightarrow> bool"
  assumes rd_law: "inv s \<Longrightarrow> unat off + unat sz \<le> 2 ^ 64 \<Longrightarrow>
      \<exists>r t. rd off sz s = Ok (bytes_at (content s) (unat off) r) t \<and> inv t \<and> framed s t \<and>
        content t = content s \<and> ok t = ok s \<and> stops_after (ok s) (unat off) (unat sz) r"
    and wr_law: "inv s \<Longrightarrow> unat off + unat sz \<le> 2 ^ 64 \<Longrightarrow> unat sz \<le> length bs \<Longrightarrow>
      \<exists>r t. wr bs off sz s = Ok (of_nat r) t \<and> inv t \<and> framed s t \<and>
        content t = overwrite (unat off) (take r bs) (content s) \<and> ok t = ok s \<and>
        stops_after (ok s) (unat off) (unat sz) r"
    and framed_trans: "framed s t \<Longrightarrow> framed t u \<Longrightarrow> framed s u"
begin

definition reachable :: "'s \<Rightarrow> u64 \<Rightarrow> u64 \<Rightarrow> bool" where
  "reachable s off sz \<longleftrightarrow> unat off + unat sz \<le> 2 ^ 64 \<and> (\<forall>i < unat sz. ok s (unat off + i))"

lemma rd_all:
  assumes "inv s" and "reachable s off sz"
  obtains t where "rd off sz s = Ok (bytes_at (content s) (unat off) (unat sz)) t" and "inv t"
    and "framed s t" and "content t = content s" and "ok t = ok s"
  using rd_law [OF assms(1), of off sz] assms(2) by (auto simp: reachable_def dest!: stops_after_all)

lemma wr_all:
  assumes "inv s" and "reachable s off sz" and "unat sz \<le> length bs"
  obtains t where "wr bs off sz s = Ok sz t" and "inv t" and "framed s t" and "ok t = ok s"
    and "content t = overwrite (unat off) (take (unat sz) bs) (content s)"
  using wr_law [OF assms(1), of off sz bs] assms(2,3) by (auto simp: reachable_def dest!: stops_after_all)

lemma wr_rd:
  assumes "inv s" and "reachable s off sz" and "unat sz \<le> length bs"
  obtains t u where "wr bs off sz s = Ok sz t" and "rd off sz t = Ok (take (unat sz) bs) u"
    and "inv u" and "framed s u" and "content u = content t"
proof -
  obtain t where t: "wr bs off sz s = Ok sz t" "inv t" "framed s t" "ok t = ok s"
      "content t = overwrite (unat off) (take (unat sz) bs) (content s)"
    using wr_all [OF assms] by blast
  moreover have "reachable t off sz" using assms(2) t(4) by (simp add: reachable_def)
  moreover have "bytes_at (content t) (unat off) (unat sz) = take (unat sz) bs"
    using t(5) assms(3) bytes_at_overwrite_same [of "unat off" "take (unat sz) bs"] by simp
  ultimately show thesis using rd_all [of t off sz] that framed_trans by metis
qed

end

interpretation blk: byte_store "virtio_blk_read_sync hw fr d" "virtio_blk_write_sync hw fr d"
    "\<lambda>s. blk_ready hw dv d s \<and> frame_ok fr (blk_buf fr)" "disk_byte dv" "disk_ok dv" io_only
  for hw fr d dv
proof
  fix s :: "('a, 'b) virtio_state_scheme" and off sz :: u64
  assume ready: "blk_ready hw dv d s \<and> frame_ok fr (blk_buf fr)" and sz: "unat off + unat sz \<le> 2 ^ 64"
  from read_loop_correct [of hw dv d s fr off sz 0 "[]"] ready sz
  show "\<exists>r t. virtio_blk_read_sync hw fr d off sz s = Ok (bytes_at (disk_byte dv s) (unat off) r) t \<and>
      (blk_ready hw dv d t \<and> frame_ok fr (blk_buf fr)) \<and> io_only s t \<and> disk_byte dv t = disk_byte dv s \<and>
      disk_ok dv t = disk_ok dv s \<and> stops_after (disk_ok dv s) (unat off) (unat sz) r"
    by (fastforce simp: virtio_blk_read_sync_def dest: disk_byte_cong disk_ok_cong)
  fix bs :: bytes
  assume "unat sz \<le> length bs"
  with write_loop_correct [of hw dv d s fr off sz 0 bs] ready sz
  show "\<exists>r t. virtio_blk_write_sync hw fr d bs off sz s = Ok (of_nat r) t \<and>
      (blk_ready hw dv d t \<and> frame_ok fr (blk_buf fr)) \<and> io_only s t \<and>
      disk_byte dv t = overwrite (unat off) (take r bs) (disk_byte dv s) \<and>
      disk_ok dv t = disk_ok dv s \<and> stops_after (disk_ok dv s) (unat off) (unat sz) r"
    by (fastforce simp: virtio_blk_write_sync_def slice_def dest: disk_ok_cong)
qed (rule io_only_trans)

section \<open>A device that meets the contract\<close>

text \<open>
  A block device in memory that serves the request at its index in one step; it shows that the
  contract can be met, and is the device of the concrete runs.
\<close>

record ref_disk =
  rf_sectors :: "u64 \<Rightarrow> bytes"
  rf_count :: u64
  rf_seen :: u16

definition ref_view :: "ref_disk disk_view" where
  "ref_view = \<lparr>dv_sector = (\<lambda>d sec. take 512 (rf_sectors d sec @ replicate 512 0)),
     dv_good = (\<lambda>d sec. sec < rf_count d), dv_seen = rf_seen\<rparr>"

definition ref_serve :: "vring \<Rightarrow> blk_request \<Rightarrow> ref_disk bus \<Rightarrow> ref_disk bus" where
  "ref_serve v rq b =
     (let good = rq_sector rq < rf_count (dev b); u = used_mem b (vr_used v);
          d = (dev b)\<lparr>rf_seen := rf_seen (dev b) + 1\<rparr>;
          b' = b\<lparr>used_mem := (used_mem b)(vr_used v := u\<lparr>u_idx := u_idx u + 1\<rparr>), dev := d\<rparr>;
          status = store_bytes (rq_status rq) [if good then 0 else 1] in
      if rq_type rq = 0 then
        b'\<lparr>mem := status (store_bytes (rq_data rq)
            (if good then dv_sector ref_view d (rq_sector rq) else replicate 512 0) (mem b))\<rparr>
      else if good then
        b'\<lparr>dev := d\<lparr>rf_sectors := (rf_sectors d)(rq_sector rq := load_bytes (rq_data rq) 512 (mem b))\<rparr>,
           mem := status (mem b)\<rparr>
      else b'\<lparr>mem := status (mem b)\<rparr>)"

definition ref_hw :: "vring \<Rightarrow> ref_disk hw" where
  "ref_hw v = \<lparr>hw_step = (\<lambda>b.
       if a_idx (avail_mem b (vr_avail v)) = rf_seen (dev b) + 1 then
         case parse_blk_request b (vr_desc v) (device_head ref_view v b) of
           None \<Rightarrow> b | Some rq \<Rightarrow> ref_serve v rq b
       else b),
     hw_store = (\<lambda>a n x b. b), hw_load = (\<lambda>a n b. 0), hw_time = (\<lambda>b. 0)\<rparr>"

lemma ref_serve_effect:
  assumes "rq_type rq = 0 \<or> rq_type rq = 1 \<and> dv_good ref_view (dev b) (rq_sector rq)"
  shows "blk_effect ref_view v rq b (ref_serve v rq b)"
proof -
  have "\<exists>e junk. e \<noteq> (0 :: u8) \<and> length junk = 512 \<and>
      store_bytes p [1] (store_bytes q (replicate 512 0) m) = store_bytes p [e] (store_bytes q junk m)" for p q m
    by (intro exI [of _ 1] exI [of _ "replicate 512 0"]) simp
  with assms show ?thesis
    by (auto simp: blk_effect_def ref_serve_def ref_view_def Let_def fun_eq_iff)
qed

lemma ref_hw_device: "blk_device (ref_hw v) ref_view h v"
proof -
  have "\<exists>b'. completes (ref_hw v) (vr_used v) (u_idx (used_mem b (vr_used v))) (hw_store (ref_hw v) (h + 16) 2 0 b) b' \<and>
      blk_effect ref_view v rq b b'"
    if "a_idx (avail_mem b (vr_avail v)) = dv_seen ref_view (dev b) + 1"
      "parse_blk_request b (vr_desc v) (device_head ref_view v b) = Some rq"
      "rq_type rq = 0 \<or> rq_type rq = 1 \<and> dv_good ref_view (dev b) (rq_sector rq)" for b rq
  proof -
    have step: "hw_step (ref_hw v) b = ref_serve v rq b"
      using that(1,2) by (simp add: ref_hw_def ref_view_def)
    have eff: "blk_effect ref_view v rq b (ref_serve v rq b)" using that(3) by (rule ref_serve_effect)
    then have "u_idx (used_mem (ref_serve v rq b) (vr_used v)) \<noteq> u_idx (used_mem b (vr_used v))"
      by (simp add: blk_effect_def)
    then have "completes (ref_hw v) (vr_used v) (u_idx (used_mem b (vr_used v))) b (ref_serve v rq b)"
      unfolding completes_def by (intro exI [of _ 1]) (simp add: step)
    with eff show ?thesis by (auto simp: ref_hw_def)
  qed
  moreover have "length (dv_sector ref_view d sec) = 512" for d sec by (simp add: ref_view_def)
  ultimately show ?thesis unfolding blk_device_def by blast
qed

text \<open>A machine with such a device, its queue of eight entries set up.\<close>

definition ref_vring :: vring where
  "ref_vring = \<lparr>vr_num = 8, vr_size = 0x2000, bouncebufs = 0,
     bookeeping = \<lparr>used_last = 0, avail_next = 0, avail_avail = 8, used_avail = 8, descr_head = 0, descr_next = 0\<rparr>,
     vr_desc = 0x80306000, vr_avail = 0x80306080, vr_used = 0x80307000\<rparr>"

definition ref_bus :: "(u64 \<Rightarrow> bytes) \<Rightarrow> u64 \<Rightarrow> ref_disk bus" where
  "ref_bus sectors n = \<lparr>mem = (\<lambda>_. 0),
     desc_mem = (\<lambda>_. replicate 8 \<lparr>d_addr = 0, d_len = 0, d_flags = 0, d_next = 0\<rparr>),
     avail_mem = (\<lambda>_. \<lparr>a_flags = 1, a_idx = 0, a_ring = replicate 8 0\<rparr>),
     used_mem = (\<lambda>_. \<lparr>u_flags = 0, u_idx = 0, u_ring = replicate 8 \<lparr>ui_id = 0, ui_len = 0\<rparr>\<rparr>),
     dev = \<lparr>rf_sectors = sectors, rf_count = n, rf_seen = 0\<rparr>\<rparr>"

definition ref_driver :: virtio_driver where
  "ref_driver = \<lparr>device_id = 1, initialized = True, init_f = Some Init_blk_virtio, host = 0x40000000,
     pci = 0, conf = 0x40000014, vring = [ref_vring]\<rparr>"

text \<open>The driver table: the block driver is in slot 1.\<close>

definition empty_driver :: virtio_driver where
  "empty_driver = \<lparr>device_id = 0, initialized = False, init_f = None, host = 0, pci = 0, conf = 0, vring = []\<rparr>"

definition ref_drivers :: "virtio_driver list" where
  "ref_drivers = (replicate MAX_VIRTIO_DEVICE_ID empty_driver)[1 := ref_driver]"

definition ref_state :: "(u64 \<Rightarrow> bytes) \<Rightarrow> u64 \<Rightarrow> ref_disk virtio_state" where
  "ref_state sectors n = heap_state.extend (heap_init demandos_linker (ref_bus sectors n))
     (virtio_state.fields ref_drivers 0)"

definition ref_frame :: frame where
  "ref_frame = \<lparr>rng_buf = 0x802FF000, blk_hdr = 0x802FF010, blk_status = 0x802FF020, blk_buf = 0x802FF100,
     uninit = (\<lambda>n. replicate n 0)\<rparr>"

lemma ref_state_ready: "blk_ready (ref_hw ref_vring) ref_view 1 (ref_state sectors n)"
proof -
  have "dv_seen ref_view = rf_seen" by (simp add: ref_view_def)
  moreover have "vr_num ref_vring = 8" "bookeeping ref_vring = \<lparr>used_last = 0, avail_next = 0, avail_avail = 8,
      used_avail = 8, descr_head = 0, descr_next = 0\<rparr>"
    by (simp_all add: ref_vring_def)
  ultimately show ?thesis
    by (simp add: blk_ready_def ref_state_def heap_init_def ref_drivers_def MAX_VIRTIO_DEVICE_ID_def ref_driver_def
      ref_bus_def heap_state.defs virtio_state.defs vring_at_def ref_hw_device)
qed

lemma ref_frame_ok: "frame_ok ref_frame (blk_buf ref_frame)"
  using disjoint_offsets [of 0 16 16 1 "0x802FF010"] disjoint_offsets [of 0 16 240 512 "0x802FF010"]
    disjoint_offsets [of 0 1 224 512 "0x802FF020"]
  by (simp add: frame_ok_def ref_frame_def disjoint_ranges_sym)

section \<open>What the block driver promises\<close>

text \<open>
  C11.  On a machine whose block device meets its specification and has nothing outstanding,
  \<open>virtio_blk_read_sync\<close> returns (it neither faults nor polls for ever), and what it returns are the
  bytes of the disk from \<open>offset\<close> on: all \<open>sz\<close> of them, or those before the first byte that lies in
  a sector that the device refuses.  The disk is unchanged, the driver is ready for the next
  request, and nothing but the bus and the vrings has changed.  The offset may be anywhere in a
  sector and the range may span any number of sectors.
\<close>

theorem blk_read_sync_correct:
  assumes "blk_ready hw dv d s" and "frame_ok fr (blk_buf fr)" and "unat offset + unat sz \<le> 2 ^ 64"
  shows "\<exists>r t. virtio_blk_read_sync hw fr d offset sz s = Ok (bytes_at (disk_byte dv s) (unat offset) r) t \<and>
    stops_after (disk_ok dv s) (unat offset) (unat sz) r \<and> disk_byte dv t = disk_byte dv s \<and>
    blk_ready hw dv d t \<and> io_only s t"
  using blk.rd_law [of hw dv d s fr offset sz] assms by blast

theorem blk_read_sync_correct_witness:
  "\<exists>r t. virtio_blk_read_sync (ref_hw ref_vring) ref_frame 1 510 4 (ref_state (\<lambda>_. replicate 512 7) 1) =
      Ok (bytes_at (disk_byte ref_view (ref_state (\<lambda>_. replicate 512 7) 1)) 510 r) t \<and>
    stops_after (disk_ok ref_view (ref_state (\<lambda>_. replicate 512 7) 1)) 510 4 r \<and>
    disk_byte ref_view t = disk_byte ref_view (ref_state (\<lambda>_. replicate 512 7) 1) \<and>
    blk_ready (ref_hw ref_vring) ref_view 1 t \<and> io_only (ref_state (\<lambda>_. replicate 512 7) 1) t"
  using blk_read_sync_correct [OF ref_state_ready ref_frame_ok, of 510 4 "\<lambda>_. replicate 512 7" 1] by simp



text \<open>
  What has been written is what is read back: a write to a range of good sectors writes all of
  it, and a read of the same range then returns the input.
\<close>

theorem blk_write_read_roundtrip:
  assumes "blk_ready hw dv d s" and "frame_ok fr (blk_buf fr)" and "unat offset + unat sz \<le> 2 ^ 64"
    and "unat sz = length input" and "\<forall>i < unat sz. disk_ok dv s (unat offset + i)"
  shows "\<exists>t u. virtio_blk_write_sync hw fr d input offset sz s = Ok sz t \<and>
    virtio_blk_read_sync hw fr d offset sz t = Ok input u \<and> disk_byte dv u = disk_byte dv t"
proof -
  have "blk.reachable dv s offset sz" using assms(3,5) by (simp add: blk.reachable_def)
  then show ?thesis
    using blk.wr_rd [of hw dv d s fr offset sz input] assms(1,2,4) by (metis order_refl take_all)
qed

theorem blk_write_read_roundtrip_witness:
  "\<exists>t u. virtio_blk_write_sync (ref_hw ref_vring) ref_frame 1 [1, 2, 3, 4] 510 4 (ref_state (\<lambda>_. []) 2) = Ok 4 t \<and>
    virtio_blk_read_sync (ref_hw ref_vring) ref_frame 1 510 4 t = Ok [1, 2, 3, 4] u \<and>
    disk_byte ref_view u = disk_byte ref_view t"
proof (rule blk_write_read_roundtrip [OF ref_state_ready ref_frame_ok])
  have "disk_ok ref_view (ref_state (\<lambda>_. []) 2) p" if "p < 1024" for p
  proof -
    have "unat (of_nat (p div 512) :: u64) < 2"
      using that by (subst unat_of_nat_small) auto
    then show ?thesis
      by (simp add: disk_ok_def ref_view_def ref_state_def heap_init_def ref_bus_def heap_state.defs
        virtio_state.defs word_less_nat_alt)
  qed
  then show "\<forall>i < unat (4 :: u64). disk_ok ref_view (ref_state (\<lambda>_. []) 2) (unat (510 :: u64) + i)" by simp
qed simp_all

end
