(* ===== verification/Ext2_Layout.thy ===== *)
theory Ext2_Layout
  imports Blk
begin

text \<open>
  The on-disk structures of the file system (include/ext2.h): one record per packed struct, with
  the bytes it consists of.  A struct variable of the C code is that many bytes of memory; the
  model converts where the code reads or writes a field, and \<open>encode\<close> and \<open>decode\<close> are inverse
  to each other, so no information is lost on the way.
\<close>

section \<open>Structures\<close>

record ext2_superblock =
  s_inodes_count :: u32
  s_blocks_count :: u32
  s_r_blocks_count :: u32
  s_free_blocks_count :: u32
  s_free_inodes_count :: u32
  s_first_data_block :: u32
  s_log_block_size :: u32
  s_log_frag_size :: u32
  s_blocks_per_group :: u32
  s_frags_per_group :: u32
  s_inodes_per_group :: u32
  s_padding1 :: bytes
  s_rev_level :: u32
  s_padding2 :: bytes
  s_first_inode :: u32
  s_inode_size :: u32
  s_padding3 :: bytes

record ext2_blockgroup =
  bg_block_bitmap :: u32
  bg_inode_bitmap :: u32
  bg_inode_table :: u32
  bg_free_blocks_count :: u16
  bg_free_inodes_count :: u16
  bg_used_dirs_count :: u16
  bg_pad :: u16
  bg_reserved :: bytes

record ext2_inode =
  i_mode :: u16
  i_uid :: u16
  i_size :: u32
  i_atime :: u32
  i_ctime :: u32
  i_mtime :: u32
  i_dtime :: u32
  i_gid :: u16
  i_links_count :: u16
  i_blocks :: u32
  i_flags :: u32
  i_osd1 :: u32
  i_block :: "u32 list"
  padding1 :: bytes
  padding2 :: bytes

text \<open>The fixed part of a directory entry; the name follows it.\<close>

record ext2_dirent =
  de_inode :: u32
  de_rec_len :: u16
  de_name_len :: u8
  de_file_type :: u8

definition EXT2_MAX_DIRECT_BLOCKS_PER_INODE :: nat where
  "EXT2_MAX_DIRECT_BLOCKS_PER_INODE = 13"

definition EXT2_SUPPORTED_BLOCK_SIZE :: nat where
  "EXT2_SUPPORTED_BLOCK_SIZE = 1024"

definition EXT2_FIRST_OFFSET_AFTER_SUPERBLOCK :: u64 where
  "EXT2_FIRST_OFFSET_AFTER_SUPERBLOCK = 1024 + 1024"

section \<open>Their bytes\<close>

definition decode_superblock :: "bytes \<Rightarrow> ext2_superblock" where
  "decode_superblock bs = \<lparr>s_inodes_count = le_word (slice 0 4 bs), s_blocks_count = le_word (slice 4 4 bs),
     s_r_blocks_count = le_word (slice 8 4 bs), s_free_blocks_count = le_word (slice 12 4 bs),
     s_free_inodes_count = le_word (slice 16 4 bs), s_first_data_block = le_word (slice 20 4 bs),
     s_log_block_size = le_word (slice 24 4 bs), s_log_frag_size = le_word (slice 28 4 bs),
     s_blocks_per_group = le_word (slice 32 4 bs), s_frags_per_group = le_word (slice 36 4 bs),
     s_inodes_per_group = le_word (slice 40 4 bs), s_padding1 = slice 44 32 bs,
     s_rev_level = le_word (slice 76 4 bs), s_padding2 = slice 80 4 bs,
     s_first_inode = le_word (slice 84 4 bs), s_inode_size = le_word (slice 88 4 bs),
     s_padding3 = slice 92 932 bs\<rparr>"

definition encode_superblock :: "ext2_superblock \<Rightarrow> bytes" where
  "encode_superblock sb = le_bytes 4 (s_inodes_count sb) @ le_bytes 4 (s_blocks_count sb) @
     le_bytes 4 (s_r_blocks_count sb) @ le_bytes 4 (s_free_blocks_count sb) @
     le_bytes 4 (s_free_inodes_count sb) @ le_bytes 4 (s_first_data_block sb) @
     le_bytes 4 (s_log_block_size sb) @ le_bytes 4 (s_log_frag_size sb) @
     le_bytes 4 (s_blocks_per_group sb) @ le_bytes 4 (s_frags_per_group sb) @
     le_bytes 4 (s_inodes_per_group sb) @ s_padding1 sb @ le_bytes 4 (s_rev_level sb) @ s_padding2 sb @
     le_bytes 4 (s_first_inode sb) @ le_bytes 4 (s_inode_size sb) @ s_padding3 sb"

definition decode_blockgroup :: "bytes \<Rightarrow> ext2_blockgroup" where
  "decode_blockgroup bs = \<lparr>bg_block_bitmap = le_word (slice 0 4 bs), bg_inode_bitmap = le_word (slice 4 4 bs),
     bg_inode_table = le_word (slice 8 4 bs), bg_free_blocks_count = le_word (slice 12 2 bs),
     bg_free_inodes_count = le_word (slice 14 2 bs), bg_used_dirs_count = le_word (slice 16 2 bs),
     bg_pad = le_word (slice 18 2 bs), bg_reserved = slice 20 12 bs\<rparr>"

definition encode_blockgroup :: "ext2_blockgroup \<Rightarrow> bytes" where
  "encode_blockgroup bg = le_bytes 4 (bg_block_bitmap bg) @ le_bytes 4 (bg_inode_bitmap bg) @
     le_bytes 4 (bg_inode_table bg) @ le_bytes 2 (bg_free_blocks_count bg) @
     le_bytes 2 (bg_free_inodes_count bg) @ le_bytes 2 (bg_used_dirs_count bg) @ le_bytes 2 (bg_pad bg) @
     bg_reserved bg"

definition decode_inode :: "bytes \<Rightarrow> ext2_inode" where
  "decode_inode bs = \<lparr>i_mode = le_word (slice 0 2 bs), i_uid = le_word (slice 2 2 bs),
     i_size = le_word (slice 4 4 bs), i_atime = le_word (slice 8 4 bs), i_ctime = le_word (slice 12 4 bs),
     i_mtime = le_word (slice 16 4 bs), i_dtime = le_word (slice 20 4 bs), i_gid = le_word (slice 24 2 bs),
     i_links_count = le_word (slice 26 2 bs), i_blocks = le_word (slice 28 4 bs),
     i_flags = le_word (slice 32 4 bs), i_osd1 = le_word (slice 36 4 bs),
     i_block = map (\<lambda>k. le_word (slice (40 + 4 * k) 4 bs)) [0..<15],
     padding1 = slice 100 28 bs, padding2 = slice 128 128 bs\<rparr>"

definition encode_inode :: "ext2_inode \<Rightarrow> bytes" where
  "encode_inode i = le_bytes 2 (i_mode i) @ le_bytes 2 (i_uid i) @ le_bytes 4 (i_size i) @
     le_bytes 4 (i_atime i) @ le_bytes 4 (i_ctime i) @ le_bytes 4 (i_mtime i) @ le_bytes 4 (i_dtime i) @
     le_bytes 2 (i_gid i) @ le_bytes 2 (i_links_count i) @ le_bytes 4 (i_blocks i) @
     le_bytes 4 (i_flags i) @ le_bytes 4 (i_osd1 i) @ concat (map (le_bytes 4) (i_block i)) @
     padding1 i @ padding2 i"

definition decode_dirent :: "bytes \<Rightarrow> ext2_dirent" where
  "decode_dirent bs = \<lparr>de_inode = le_word (slice 0 4 bs), de_rec_len = le_word (slice 4 2 bs),
     de_name_len = le_word (slice 6 1 bs), de_file_type = le_word (slice 7 1 bs)\<rparr>"

text \<open>A variable after the bytes \<open>bs\<close> have been read into its beginning.\<close>

definition fill :: "bytes \<Rightarrow> bytes \<Rightarrow> bytes" where
  "fill old bs = bs @ drop (length bs) old"

section \<open>Round trips\<close>

lemma slice_join [simp]:
  "i + m = j \<Longrightarrow> slice i m bs @ slice j n bs = slice i (m + n) bs"
  "i + m = j \<Longrightarrow> slice i m bs @ slice j n bs @ r = slice i (m + n) bs @ r"
  by (simp_all add: slice_def take_add add.commute)

lemma slice_skip: "length xs \<le> i \<Longrightarrow> slice i n (xs @ ys) = slice (i - length xs) n ys"
  by (simp add: slice_def)

lemma slice_hit: "length xs = n \<Longrightarrow> slice 0 n (xs @ ys) = xs" "length xs = n \<Longrightarrow> slice 0 n xs = xs"
  by (simp_all add: slice_def)

lemma concat_slices: "concat (map (\<lambda>k. slice (i + w * k) w bs) [0..<n]) = slice i (n * w) bs"
proof (induction n)
  case 0
  show ?case by (simp add: slice_def)
next
  case (Suc n)
  then show ?case by (simp add: algebra_simps)
qed

lemma slice_all: "length bs = n \<Longrightarrow> slice 0 n bs = bs"
  by (simp add: slice_def)

lemma le_bytes_field:
  "i + n \<le> length bs \<Longrightarrow> 8 * n \<le> LENGTH('a::len) \<Longrightarrow> le_bytes n (le_word (slice i n bs) :: 'a word) = slice i n bs"
  by (rule le_bytes_le_word) simp_all

lemma encode_decode_blockgroup: "length bs = 32 \<Longrightarrow> encode_blockgroup (decode_blockgroup bs) = bs"
  by (simp add: encode_blockgroup_def decode_blockgroup_def le_bytes_field slice_all)

lemma encode_decode_superblock: "length bs = 1024 \<Longrightarrow> encode_superblock (decode_superblock bs) = bs"
  by (simp add: encode_superblock_def decode_superblock_def le_bytes_field slice_all)

lemma encode_decode_inode:
  assumes "length bs = 256"
  shows "encode_inode (decode_inode bs) = bs"
proof -
  have "map (le_bytes 4) (i_block (decode_inode bs)) = map (\<lambda>k. slice (40 + 4 * k) 4 bs) [0..<15]"
    using assms by (simp add: decode_inode_def le_bytes_field del: upt_rec_numeral)
  then have "concat (map (le_bytes 4) (i_block (decode_inode bs))) = slice 40 60 bs"
    using concat_slices [of 40 4 bs 15] by (simp del: upt_rec_numeral)
  then show ?thesis
    using assms by (simp add: encode_inode_def)
      (simp add: decode_inode_def le_bytes_field slice_all del: upt_rec_numeral)
qed

text \<open>A record with fields of the right length is what its bytes decode to.\<close>

definition inode_wf :: "ext2_inode \<Rightarrow> bool" where
  "inode_wf i \<longleftrightarrow> length (i_block i) = 15 \<and> length (padding1 i) = 28 \<and> length (padding2 i) = 128"

lemma length_concat_le_bytes [simp]: "length (concat (map (le_bytes n) ws)) = n * length ws"
  by (induction ws) simp_all

lemma length_encode_inode: "inode_wf i \<Longrightarrow> length (encode_inode i) = 256"
  by (simp add: inode_wf_def encode_inode_def)

lemma inode_wf_decode: "length bs = 256 \<Longrightarrow> inode_wf (decode_inode bs)"
  by (simp add: inode_wf_def decode_inode_def)

lemma slice_concat_le_bytes:
  "k < length ws \<Longrightarrow> slice (n * k) n (concat (map (le_bytes n) ws) @ r) = le_bytes n (ws ! k)"
proof (induction ws arbitrary: k)
  case (Cons w ws)
  then show ?case by (cases k) (simp_all add: slice_hit slice_skip)
qed simp

lemma decode_encode_inode:
  assumes "inode_wf i"
  shows "decode_inode (encode_inode i) = i"
proof -
  have len: "length (i_block i) = 15" "length (padding1 i) = 28" "length (padding2 i) = 128"
    using assms by (simp_all add: inode_wf_def)
  have "slice (40 + 4 * k) 4 (encode_inode i) = le_bytes 4 (i_block i ! k)" if "k < 15" for k
    using that len slice_concat_le_bytes [of k "i_block i" 4 "padding1 i @ padding2 i"]
    by (simp add: encode_inode_def slice_skip)
  then have "i_block (decode_inode (encode_inode i)) = map (\<lambda>k. i_block i ! k) [0..<15]"
    by (simp add: decode_inode_def le_word_le_bytes del: upt_rec_numeral)
  also have "\<dots> = i_block i"
    using len(1) by (metis map_nth)
  finally have "i_block (decode_inode (encode_inode i)) = i_block i" .
  then show ?thesis
    using len
    by (intro ext2_inode.equality)
      (simp_all add: decode_inode_def encode_inode_def slice_skip slice_hit le_word_le_bytes del: upt_rec_numeral)
qed

lemma fill_full [simp]: "length old \<le> length bs \<Longrightarrow> fill old bs = bs"
  by (simp add: fill_def)

lemma length_fill [simp]: "length bs \<le> length old \<Longrightarrow> length (fill old bs) = length old"
  by (simp add: fill_def)

text \<open>Assigning a time field of an inode is patching four of its bytes.\<close>

lemma encode_set_time:
  assumes "length bs = 256"
  shows "encode_inode ((decode_inode bs)\<lparr>i_atime := t\<rparr>) = patch 8 (le_bytes 4 t) bs"
    and "encode_inode ((decode_inode bs)\<lparr>i_ctime := t\<rparr>) = patch 12 (le_bytes 4 t) bs"
    and "encode_inode ((decode_inode bs)\<lparr>i_mtime := t\<rparr>) = patch 16 (le_bytes 4 t) bs"
proof -
  note enc = encode_decode_inode [OF assms]
  have parts: "encode_inode (i\<lparr>i_atime := t\<rparr>) = patch 8 (le_bytes 4 t) (encode_inode i)"
    "encode_inode (i\<lparr>i_ctime := t\<rparr>) = patch 12 (le_bytes 4 t) (encode_inode i)"
    "encode_inode (i\<lparr>i_mtime := t\<rparr>) = patch 16 (le_bytes 4 t) (encode_inode i)" for i
    by (simp_all add: encode_inode_def patch_def)
  show "encode_inode ((decode_inode bs)\<lparr>i_atime := t\<rparr>) = patch 8 (le_bytes 4 t) bs"
    "encode_inode ((decode_inode bs)\<lparr>i_ctime := t\<rparr>) = patch 12 (le_bytes 4 t) bs"
    "encode_inode ((decode_inode bs)\<lparr>i_mtime := t\<rparr>) = patch 16 (le_bytes 4 t) bs"
    by (simp_all only: parts enc)
qed

end
