(* ===== verification/Ext2.thy ===== *)
theory Ext2
  imports Ext2_Layout
begin

text \<open>
  The file system (src/ext2.c): finding block groups and inodes, looking up paths, reading and
  writing the contents of a file through its inode, updating time stamps.  Out-parameters of the
  C functions are passed in with their old value and returned with the new one; a buffer that a
  read fills is returned as the list of bytes put into it.  The kernel is built with debugging
  off (\<open>DEBUG_LEVEL\<close> at most \<open>DEBUG_TRACE\<close>), so the tracing output is not there.
\<close>

section \<open>Block groups and inodes\<close>

definition bg_from_bgno ::
    "'d hw \<Rightarrow> frame \<Rightarrow> nat \<Rightarrow> ext2_blockgroup \<Rightarrow> u32 \<Rightarrow>
     (('d, 'z) virtio_state_scheme, bool \<times> ext2_blockgroup) kernel_op" where
  "bg_from_bgno hw fr driver rbg bgno =
     (let bg_sector = EXT2_FIRST_OFFSET_AFTER_SUPERBLOCK + ucast bgno * 32 in
      mbind (virtio_blk_read_sync hw fr driver bg_sector 32) (\<lambda>bs.
        mreturn (True, decode_blockgroup (fill (encode_blockgroup rbg) bs))))"

definition INODE_TABLE_LOC :: "u32 \<Rightarrow> u32 \<Rightarrow> u32" where
  "INODE_TABLE_LOC ino inode_per_group = (ino - 1) div inode_per_group"

definition INODE_LOC_IN_TABLE :: "u32 \<Rightarrow> u32 \<Rightarrow> u32" where
  "INODE_LOC_IN_TABLE ino inode_per_group = (ino - 1) mod inode_per_group"

text \<open>The product with the block size is a 32-bit product, the sum is a 64-bit sum.\<close>

definition block_pos :: "u32 \<Rightarrow> u64" where
  "block_pos block_no = ucast (block_no * of_nat EXT2_SUPPORTED_BLOCK_SIZE)"

definition ino_disk_offset ::
    "'d hw \<Rightarrow> frame \<Rightarrow> nat \<Rightarrow> ext2_superblock \<Rightarrow> u32 \<Rightarrow> (('d, 'z) virtio_state_scheme, u64) kernel_op" where
  "ino_disk_offset hw fr driver superblock ino =
     (if s_inodes_per_group superblock = 0 then mfault DivisionByZero
      else
        let inode_table_block_group = INODE_TABLE_LOC ino (s_inodes_per_group superblock);
            inode_table_index = INODE_LOC_IN_TABLE ino (s_inodes_per_group superblock) in
        mbind (bg_from_bgno hw fr driver (decode_blockgroup (uninit fr 32)) inode_table_block_group) (\<lambda>(result, bg).
          mreturn (block_pos (bg_inode_table bg) + ucast inode_table_index * 256)))"

definition inode_to_ino ::
    "'d hw \<Rightarrow> frame \<Rightarrow> nat \<Rightarrow> ext2_superblock \<Rightarrow> ext2_inode \<Rightarrow> u32 \<Rightarrow> (('d, 'z) virtio_state_scheme, bool) kernel_op" where
  "inode_to_ino hw fr driver superblock rinode ino =
     mbind (ino_disk_offset hw fr driver superblock ino) (\<lambda>ino_position.
     mbind (virtio_blk_write_sync hw fr driver (encode_inode rinode) ino_position 256) (\<lambda>result.
       mreturn (result = 256)))"

definition inode_from_ino ::
    "'d hw \<Rightarrow> frame \<Rightarrow> nat \<Rightarrow> ext2_superblock \<Rightarrow> ext2_inode \<Rightarrow> u32 \<Rightarrow>
     (('d, 'z) virtio_state_scheme, bool \<times> ext2_inode) kernel_op" where
  "inode_from_ino hw fr driver superblock rinode ino =
     mbind (ino_disk_offset hw fr driver superblock ino) (\<lambda>inode_position.
     mbind (virtio_blk_read_sync hw fr driver inode_position 256) (\<lambda>bs.
       mreturn (length bs = 256, decode_inode (fill (encode_inode rinode) bs))))"

section \<open>Directories\<close>

text \<open>\<open>strncmp (name, path, n) == 0\<close>; a string that has ended goes on with its terminating zero.\<close>

definition char_at :: "bytes \<Rightarrow> u8" where
  "char_at bs = (case bs of [] \<Rightarrow> 0 | b # _ \<Rightarrow> b)"

primrec strncmp_equal :: "nat \<Rightarrow> bytes \<Rightarrow> bytes \<Rightarrow> bool" where
  "strncmp_equal 0 name path = True"
| "strncmp_equal (Suc n) name path =
     (char_at name = char_at path \<and> (char_at name = 0 \<or> strncmp_equal n (tl name) (tl path)))"

text \<open>
  \<open>memcpy (buffer, buffer + i, n)\<close>.  The ranges may overlap; as in the C library at hand, bytes are
  copied in ascending order, which for a copy towards the start reads every byte before it is
  overwritten.
\<close>

definition copy_down :: "nat \<Rightarrow> nat \<Rightarrow> bytes \<Rightarrow> bytes" where
  "copy_down i n buffer = slice i n buffer @ drop n buffer"

datatype dirent_result = Found u32 | Absent | Overrun

text \<open>
  The loop over the entries of a directory block.  The current entry is first copied to the start
  of the block buffer, its fixed part and then as much as its length field says.  \<open>Overrun\<close> is
  an access behind the buffer, \<open>None\<close> a loop without end.
\<close>

partial_function (option) dirent_scan :: "bytes \<Rightarrow> bytes \<Rightarrow> nat \<Rightarrow> dirent_result option" where
  "dirent_scan path buffer dirent_idx =
     (if dirent_idx < 1024 then
        if dirent_idx + 8 > 1024 then Some Overrun
        else
          let buffer = copy_down dirent_idx 8 buffer; rec_len = unat (de_rec_len (decode_dirent buffer)) in
          if dirent_idx + rec_len > 1024 then Some Overrun
          else
            let buffer = copy_down dirent_idx rec_len buffer; de = decode_dirent buffer in
            if strncmp_equal (unat (de_name_len de)) (drop 8 buffer) path then Some (Found (de_inode de))
            else dirent_scan path buffer (dirent_idx + unat (de_rec_len de))
      else Some Absent)"

text \<open>The loop over the blocks of a directory; \<open>ino\<close> is the variable to which a pointer is given, if any.\<close>

primrec inode_from_dir_blocks ::
    "'d hw \<Rightarrow> frame \<Rightarrow> nat \<Rightarrow> ext2_superblock \<Rightarrow> bytes \<Rightarrow> u32 list \<Rightarrow> ext2_inode \<Rightarrow> u32 option \<Rightarrow>
     (('d, 'z) virtio_state_scheme, bool \<times> ext2_inode \<times> u32 option) kernel_op" where
  "inode_from_dir_blocks hw fr driver superblock path [] inode ino = mreturn (False, inode, ino)"
| "inode_from_dir_blocks hw fr driver superblock path (b # bs) inode ino =
     (if b = 0 then mreturn (False, inode, ino)
      else mbind (virtio_blk_read_sync hw fr driver (block_pos b) 1024) (\<lambda>block.
        case dirent_scan path (fill (uninit fr 1024) block) 0 of
          None \<Rightarrow> mfault Diverges
        | Some Overrun \<Rightarrow> mfault OutOfBounds
        | Some (Found n) \<Rightarrow> mbind (inode_from_ino hw fr driver superblock inode n) (\<lambda>(r, inode).
            mreturn (r, inode, map_option (\<lambda>_. n) ino))
        | Some Absent \<Rightarrow> inode_from_dir_blocks hw fr driver superblock path bs inode ino))"

definition inode_from_dir ::
    "'d hw \<Rightarrow> frame \<Rightarrow> nat \<Rightarrow> ext2_superblock \<Rightarrow> bytes \<Rightarrow> ext2_inode \<Rightarrow> ext2_inode \<Rightarrow> u32 option \<Rightarrow>
     (('d, 'z) virtio_state_scheme, bool \<times> ext2_inode \<times> u32 option) kernel_op" where
  "inode_from_dir hw fr driver superblock path dir inode ino =
     inode_from_dir_blocks hw fr driver superblock path
       (take EXT2_MAX_DIRECT_BLOCKS_PER_INODE (i_block dir)) inode ino"

section \<open>Paths\<close>

text \<open>
  One call of \<open>strtok\<close> with the delimiter \<open>/\<close>: the next component and what is left of the path.
  That it also cuts the caller's string into pieces is not modelled; the string is not used
  again.
\<close>

definition slash :: u8 where
  "slash = of_char (CHR ''/'')"

definition strtok :: "bytes \<Rightarrow> (bytes \<times> bytes) option" where
  "strtok path =
     (let p = dropWhile (\<lambda>c. c = slash) path in
      if p = [] then None
      else Some (takeWhile (\<lambda>c. c \<noteq> slash) p, tl (dropWhile (\<lambda>c. c \<noteq> slash) p)))"

lemma strtok_shorter: "strtok path = Some (next, rest) \<Longrightarrow> length rest < length path"
proof -
  assume a: "strtok path = Some (next, rest)"
  let ?p = "dropWhile (\<lambda>c. c = slash) path"
  have "?p \<noteq> []" and "rest = tl (dropWhile (\<lambda>c. c \<noteq> slash) ?p)"
    using a by (auto simp: strtok_def Let_def split: if_splits)
  moreover have "length (dropWhile (\<lambda>c. c \<noteq> slash) ?p) \<le> length ?p" "length ?p \<le> length path"
    by (simp_all add: length_dropWhile_le)
  ultimately show ?thesis by (cases ?p) auto
qed

text \<open>The loop that \<open>ino_from_path\<close> and \<open>inode_from_path\<close> share.\<close>

function path_walk ::
    "'d hw \<Rightarrow> frame \<Rightarrow> nat \<Rightarrow> ext2_superblock \<Rightarrow> bytes \<Rightarrow> ext2_inode \<Rightarrow> u32 option \<Rightarrow>
     (('d, 'z) virtio_state_scheme, bool \<times> ext2_inode \<times> u32 option) kernel_op" where
  "path_walk hw fr driver superblock path inode ino =
     (case strtok path of
        None \<Rightarrow> mreturn (True, inode, ino)
      | Some (next, rest) \<Rightarrow> mbind (inode_from_dir hw fr driver superblock next inode inode ino) (\<lambda>(r, inode, ino).
          if \<not> r then mreturn (False, inode, ino)
          else path_walk hw fr driver superblock rest inode ino))"
  by pat_completeness auto
termination
  by (relation "measure (\<lambda>(hw, fr, driver, superblock, path, inode, ino). length path)")
    (auto dest: strtok_shorter)

declare path_walk.simps [simp del]

definition ino_from_path ::
    "'d hw \<Rightarrow> frame \<Rightarrow> nat \<Rightarrow> ext2_superblock \<Rightarrow> bytes \<Rightarrow> u32 option \<Rightarrow>
     (('d, 'z) virtio_state_scheme, bool \<times> u32 option) kernel_op" where
  "ino_from_path hw fr driver superblock path ino =
     mbind (inode_from_ino hw fr driver superblock (decode_inode (uninit fr 256)) 2) (\<lambda>(r, traverse_inode).
       if \<not> r then mreturn (False, ino)
       else mbind (path_walk hw fr driver superblock path traverse_inode ino) (\<lambda>(r, traverse_inode, ino).
         mreturn (r, ino)))"

definition inode_from_path ::
    "'d hw \<Rightarrow> frame \<Rightarrow> nat \<Rightarrow> ext2_superblock \<Rightarrow> bytes \<Rightarrow> ext2_inode \<Rightarrow>
     (('d, 'z) virtio_state_scheme, bool \<times> ext2_inode) kernel_op" where
  "inode_from_path hw fr driver superblock path inode =
     mbind (inode_from_ino hw fr driver superblock inode 2) (\<lambda>(r, inode).
       if \<not> r then mreturn (False, inode)
       else mbind (path_walk hw fr driver superblock path inode None) (\<lambda>(r, inode, ino).
         mreturn (r, inode)))"

section \<open>Whole blocks and the superblock\<close>

definition ext2_read_block ::
    "'d hw \<Rightarrow> frame \<Rightarrow> nat \<Rightarrow> ext2_superblock \<Rightarrow> u32 \<Rightarrow> (('d, 'z) virtio_state_scheme, bool \<times> bytes) kernel_op" where
  "ext2_read_block hw fr driver superblock block_no =
     mbind (virtio_blk_read_sync hw fr driver (block_pos block_no) 1024) (\<lambda>bs. mreturn (length bs = 1024, bs))"

definition ext2_write_block ::
    "'d hw \<Rightarrow> frame \<Rightarrow> nat \<Rightarrow> ext2_superblock \<Rightarrow> u32 \<Rightarrow> u32 \<Rightarrow> bytes \<Rightarrow> (('d, 'z) virtio_state_scheme, bool) kernel_op" where
  "ext2_write_block hw fr driver superblock block_no block_offset buffer =
     mbind (virtio_blk_write_sync hw fr driver buffer
         (ucast (block_no * of_nat EXT2_SUPPORTED_BLOCK_SIZE + block_offset)) 1024) (\<lambda>result.
       mreturn (result = 1024))"

text \<open>
  \<open>1024 << s_log_block_size\<close> is a shift of a 32-bit \<open>int\<close>, then sign-extended to 64 bits.  The
  processor looks at the low five bits of the shift amount only.
\<close>

definition actual_block_size :: "u32 \<Rightarrow> u64" where
  "actual_block_size log = scast (push_bit (unat (log mod 32)) (1024 :: u32))"

definition read_superblock ::
    "'d hw \<Rightarrow> frame \<Rightarrow> nat \<Rightarrow> ext2_superblock \<Rightarrow> (('d, 'z) virtio_state_scheme, bool \<times> ext2_superblock) kernel_op" where
  "read_superblock hw fr driver superblock =
     mbind (virtio_blk_read_sync hw fr driver 1024 1024) (\<lambda>bs.
       let superblock = decode_superblock (fill (encode_superblock superblock) bs) in
       if length bs \<noteq> 1024 then mreturn (False, superblock)
       else if actual_block_size (s_log_block_size superblock) \<noteq> 1024 then
         mthen (eprint_str (''Error: Unsupported block size for filesystem!'' @ [CHR 0x0A])) (mreturn (False, superblock))
       else if s_inode_size superblock \<noteq> 256 then
         mthen (eprint_str (''Error: Unsupported inode size for filesystem!'' @ [CHR 0x0A])) (mreturn (False, superblock))
       else
         mthen (if s_rev_level superblock \<noteq> 1
                then eprint_str (''Error: Unsupported revision level for filesystem!'' @ [CHR 0x0A]) else mreturn ())
          (mreturn (True, superblock)))"

section \<open>The contents of files\<close>

text \<open>How many bytes the next pass of either loop transfers.\<close>

definition ino_chunk :: "u64 \<Rightarrow> u64 \<Rightarrow> u64 \<Rightarrow> u64" where
  "ino_chunk offset len amt =
     MIN_macro (of_nat EXT2_SUPPORTED_BLOCK_SIZE - (offset + amt) mod of_nat EXT2_SUPPORTED_BLOCK_SIZE) (len - amt)"

lemma ino_chunk_progress:
  assumes "amt < len"
  shows "0 < unat (ino_chunk offset len amt)" and "unat (amt + ino_chunk offset len amt) = unat amt + unat (ino_chunk offset len amt)"
    and "unat amt + unat (ino_chunk offset len amt) \<le> unat len"
    and "unat (ino_chunk offset len amt) = min (1024 - unat (offset + amt) mod 1024) (unat len - unat amt)"
proof -
  let ?o = "(offset + amt) mod 1024"
  have o: "unat ?o = unat (offset + amt) mod 1024" by (simp add: unat_mod_distrib)
  then have r: "unat (1024 - ?o) = 1024 - unat (offset + amt) mod 1024"
    by (subst unat_sub) (simp_all add: word_le_nat_alt)
  have d: "unat (len - amt) = unat len - unat amt"
    using assms by (intro unat_sub) simp
  show c: "unat (ino_chunk offset len amt) = min (1024 - unat (offset + amt) mod 1024) (unat len - unat amt)"
    using r d by (simp add: ino_chunk_def MIN_macro_def EXT2_SUPPORTED_BLOCK_SIZE_def word_less_nat_alt)
  have "unat (offset + amt) mod 1024 < 1024" by simp
  then show "0 < unat (ino_chunk offset len amt)"
    using assms c by (simp add: word_less_nat_alt)
  have lt: "unat amt < unat len" using assms by (simp add: word_less_nat_alt)
  then show le: "unat amt + unat (ino_chunk offset len amt) \<le> unat len" using c by simp
  then show "unat (amt + ino_chunk offset len amt) = unat amt + unat (ino_chunk offset len amt)"
    using unat_u64_less [of len] by (intro unat_add_small) simp
qed

text \<open>The result of a read is the returned count and the bytes that are in the buffer afterwards.\<close>

function read_ino_loop ::
    "'d hw \<Rightarrow> frame \<Rightarrow> nat \<Rightarrow> ext2_inode \<Rightarrow> u64 \<Rightarrow> u64 \<Rightarrow> u64 \<Rightarrow> bytes \<Rightarrow>
     (('d, 'z) virtio_state_scheme, u64 \<times> bytes) kernel_op" where
  "read_ino_loop hw fr driver inode offset len redden buffer =
     (if redden < len then
        let next_read_pos = offset + redden;
            next_read_block_idx = unat (next_read_pos div of_nat EXT2_SUPPORTED_BLOCK_SIZE);
            next_read_block_offset = next_read_pos mod of_nat EXT2_SUPPORTED_BLOCK_SIZE;
            next_read_len = ino_chunk offset len redden in
        if next_read_block_idx \<ge> length (i_block inode) then mfault OutOfBounds
        else mbind (virtio_blk_read_sync hw fr driver
            (block_pos (i_block inode ! next_read_block_idx) + next_read_block_offset) next_read_len) (\<lambda>red.
          if of_nat (length red) \<noteq> next_read_len then mreturn (redden, buffer @ red)
          else read_ino_loop hw fr driver inode offset len (redden + next_read_len) (buffer @ red))
      else mreturn (len, buffer))"
  by pat_completeness auto
termination
  using ino_chunk_progress
  by (relation "measure (\<lambda>(hw, fr, driver, inode, offset, len, redden, buffer). unat len - unat redden)")
    (auto simp: word_less_nat_alt intro!: diff_less_mono2)

definition read_from_ino ::
    "'d hw \<Rightarrow> frame \<Rightarrow> nat \<Rightarrow> ext2_superblock \<Rightarrow> u32 \<Rightarrow> u64 \<Rightarrow> u64 \<Rightarrow>
     (('d, 'z) virtio_state_scheme, u64 \<times> bytes) kernel_op" where
  "read_from_ino hw fr driver superblock ino offset len =
     mbind (inode_from_ino hw fr driver superblock (decode_inode (uninit fr 256)) ino) (\<lambda>(found_inode, inode).
       if \<not> found_inode then mreturn (- 1, [])
       else read_ino_loop hw fr driver inode offset len 0 [])"

function write_ino_loop ::
    "'d hw \<Rightarrow> frame \<Rightarrow> nat \<Rightarrow> ext2_inode \<Rightarrow> bytes \<Rightarrow> u64 \<Rightarrow> u64 \<Rightarrow> u64 \<Rightarrow>
     (('d, 'z) virtio_state_scheme, u64) kernel_op" where
  "write_ino_loop hw fr driver inode buffer offset len written =
     (if written < len then
        let next_write_pos = offset + written;
            next_write_block_idx = unat (next_write_pos div of_nat EXT2_SUPPORTED_BLOCK_SIZE);
            next_write_block_offset = next_write_pos mod of_nat EXT2_SUPPORTED_BLOCK_SIZE;
            next_write_len = ino_chunk offset len written in
        if next_write_block_idx \<ge> length (i_block inode) then mfault OutOfBounds
        else mbind (virtio_blk_write_sync hw fr driver (drop (unat written) buffer)
            (block_pos (i_block inode ! next_write_block_idx) + next_write_block_offset) next_write_len) (\<lambda>wrote.
          if wrote \<noteq> next_write_len then mreturn written
          else write_ino_loop hw fr driver inode buffer offset len (written + next_write_len))
      else mreturn len)"
  by pat_completeness auto
termination
  using ino_chunk_progress
  by (relation "measure (\<lambda>(hw, fr, driver, inode, buffer, offset, len, written). unat len - unat written)")
    (auto simp: word_less_nat_alt intro!: diff_less_mono2)

definition write_to_ino ::
    "'d hw \<Rightarrow> frame \<Rightarrow> nat \<Rightarrow> ext2_superblock \<Rightarrow> u32 \<Rightarrow> bytes \<Rightarrow> u64 \<Rightarrow> u64 \<Rightarrow>
     (('d, 'z) virtio_state_scheme, u64) kernel_op" where
  "write_to_ino hw fr driver superblock ino buffer offset len =
     mbind (inode_from_ino hw fr driver superblock (decode_inode (uninit fr 256)) ino) (\<lambda>(found_inode, inode).
       if \<not> found_inode then mreturn (- 1)
       else write_ino_loop hw fr driver inode buffer offset len 0)"

declare read_ino_loop.simps [simp del] write_ino_loop.simps [simp del]

section \<open>Time stamps\<close>

definition set_atime_for_ino ::
    "'d hw \<Rightarrow> frame \<Rightarrow> nat \<Rightarrow> ext2_superblock \<Rightarrow> u32 \<Rightarrow> u32 \<Rightarrow> (('d, 'z) virtio_state_scheme, bool) kernel_op" where
  "set_atime_for_ino hw fr driver superblock ino atime =
     mbind (inode_from_ino hw fr driver superblock (decode_inode (uninit fr 256)) ino) (\<lambda>(r, inode).
       if \<not> r then mreturn False
       else inode_to_ino hw fr driver superblock (inode\<lparr>i_atime := atime\<rparr>) ino)"

definition set_mtime_for_ino ::
    "'d hw \<Rightarrow> frame \<Rightarrow> nat \<Rightarrow> ext2_superblock \<Rightarrow> u32 \<Rightarrow> u32 \<Rightarrow> (('d, 'z) virtio_state_scheme, bool) kernel_op" where
  "set_mtime_for_ino hw fr driver superblock ino mtime =
     mbind (inode_from_ino hw fr driver superblock (decode_inode (uninit fr 256)) ino) (\<lambda>(r, inode).
       if \<not> r then mreturn False
       else inode_to_ino hw fr driver superblock (inode\<lparr>i_mtime := mtime\<rparr>) ino)"

definition set_ctime_for_ino ::
    "'d hw \<Rightarrow> frame \<Rightarrow> nat \<Rightarrow> ext2_superblock \<Rightarrow> u32 \<Rightarrow> u32 \<Rightarrow> (('d, 'z) virtio_state_scheme, bool) kernel_op" where
  "set_ctime_for_ino hw fr driver superblock ino ctime =
     mbind (inode_from_ino hw fr driver superblock (decode_inode (uninit fr 256)) ino) (\<lambda>(r, inode).
       if \<not> r then mreturn False
       else inode_to_ino hw fr driver superblock (inode\<lparr>i_ctime := ctime\<rparr>) ino)"

end
