(* ===== verification/Ext2_Proofs.thy ===== *)
theory Ext2_Proofs
  imports Ext2
begin

text \<open>
  The file system over a block device that meets its specification.  The disk is seen as one
  function from positions to bytes; block groups, inodes and files are regions of it, and each
  operation of src/ext2.c is shown to read or change exactly its region.
\<close>

section \<open>The disk as the file system sees it\<close>

abbreviation fs_ready :: "'d hw \<Rightarrow> 'd disk_view \<Rightarrow> frame \<Rightarrow> nat \<Rightarrow> ('d, 'z) virtio_state_scheme \<Rightarrow> bool" where
  "fs_ready hw dv fr d s \<equiv> blk_ready hw dv d s \<and> frame_ok fr (blk_buf fr)"

definition same_disk :: "'d disk_view \<Rightarrow> ('d, 'z) virtio_state_scheme \<Rightarrow> ('d, 'z) virtio_state_scheme \<Rightarrow> bool" where
  "same_disk dv s t \<longleftrightarrow> io_only s t \<and> disk_byte dv t = disk_byte dv s \<and> disk_ok dv t = disk_ok dv s"

definition wrote_disk ::
    "'d disk_view \<Rightarrow> nat \<Rightarrow> bytes \<Rightarrow> ('d, 'z) virtio_state_scheme \<Rightarrow> ('d, 'z) virtio_state_scheme \<Rightarrow> bool" where
  "wrote_disk dv p bs s t \<longleftrightarrow> io_only s t \<and> disk_byte dv t = overwrite p bs (disk_byte dv s) \<and> disk_ok dv t = disk_ok dv s"

definition region_ok :: "'d disk_view \<Rightarrow> ('d, 'z) virtio_state_scheme \<Rightarrow> nat \<Rightarrow> nat \<Rightarrow> bool" where
  "region_ok dv s p n \<longleftrightarrow> (\<forall>i<n. disk_ok dv s (p + i))"

lemma same_disk_trans: "same_disk dv s t \<Longrightarrow> same_disk dv t u \<Longrightarrow> same_disk dv s u"
  by (auto simp: same_disk_def intro: io_only_trans)

lemma wrote_disk_after: "same_disk dv s t \<Longrightarrow> wrote_disk dv p bs t u \<Longrightarrow> wrote_disk dv p bs s u"
  by (auto simp: same_disk_def wrote_disk_def intro: io_only_trans)

lemma region_ok_cong: "disk_ok dv t = disk_ok dv s \<Longrightarrow> region_ok dv t = region_ok dv s"
  by (simp add: region_ok_def fun_eq_iff)

lemma same_disk_simps:
  assumes "same_disk dv s t"
  shows "disk_byte dv t = disk_byte dv s" and "disk_ok dv t = disk_ok dv s" and "region_ok dv t = region_ok dv s"
  using assms region_ok_cong [of dv t s] by (simp_all add: same_disk_def)

lemma read_region:
  assumes "fs_ready hw dv fr d s" and "region_ok dv s (unat off) (unat sz)" and "unat off + unat sz \<le> 2 ^ 64"
  obtains t where "virtio_blk_read_sync hw fr d off sz s = Ok (bytes_at (disk_byte dv s) (unat off) (unat sz)) t"
    and "fs_ready hw dv fr d t" and "same_disk dv s t"
proof -
  have "blk.reachable dv s off sz" using assms(2,3) by (simp add: blk.reachable_def region_ok_def)
  then show thesis using blk.rd_all [OF assms(1)] that by (auto simp: same_disk_def)
qed

lemma write_region:
  assumes "fs_ready hw dv fr d s" and "region_ok dv s (unat off) (unat sz)" and "unat off + unat sz \<le> 2 ^ 64"
    and "unat sz = length bs"
  obtains t where "virtio_blk_write_sync hw fr d bs off sz s = Ok sz t"
    and "fs_ready hw dv fr d t" and "wrote_disk dv (unat off) bs s t"
proof -
  have "blk.reachable dv s off sz" using assms(2,3) by (simp add: blk.reachable_def region_ok_def)
  then show thesis using blk.wr_all [OF assms(1), of off sz bs] that assms(4) by (auto simp: wrote_disk_def)
qed

section \<open>Where block groups and inodes are\<close>

definition bg_pos :: "u32 \<Rightarrow> nat" where
  "bg_pos bgno = 2048 + 32 * unat bgno"

definition bg_at :: "(nat \<Rightarrow> u8) \<Rightarrow> u32 \<Rightarrow> ext2_blockgroup" where
  "bg_at c bgno = decode_blockgroup (bytes_at c (bg_pos bgno) 32)"

definition ino_group :: "ext2_superblock \<Rightarrow> u32 \<Rightarrow> u32" where
  "ino_group sb ino = (ino - 1) div s_inodes_per_group sb"

definition ino_pos :: "(nat \<Rightarrow> u8) \<Rightarrow> ext2_superblock \<Rightarrow> u32 \<Rightarrow> nat" where
  "ino_pos c sb ino = unat (block_pos (bg_inode_table (bg_at c (ino_group sb ino)))) +
     256 * unat ((ino - 1) mod s_inodes_per_group sb)"

definition inode_at :: "(nat \<Rightarrow> u8) \<Rightarrow> ext2_superblock \<Rightarrow> u32 \<Rightarrow> ext2_inode" where
  "inode_at c sb ino = decode_inode (bytes_at c (ino_pos c sb ino) 256)"

text \<open>The group descriptor and the inode itself are in good sectors.\<close>

definition inode_ok :: "'d disk_view \<Rightarrow> ('d, 'z) virtio_state_scheme \<Rightarrow> ext2_superblock \<Rightarrow> u32 \<Rightarrow> bool" where
  "inode_ok dv s sb ino \<longleftrightarrow> s_inodes_per_group sb \<noteq> 0 \<and> region_ok dv s (bg_pos (ino_group sb ino)) 32 \<and>
     region_ok dv s (ino_pos (disk_byte dv s) sb ino) 256"

lemma inode_ok_same: "same_disk dv s t \<Longrightarrow> inode_ok dv t = inode_ok dv s"
  by (simp add: inode_ok_def same_disk_simps fun_eq_iff)

lemma unat_u32_less: "unat (x :: u32) < 2 ^ 32"
  using unsigned_less [of x, where 'a = nat] by simp

lemma block_pos_less: "unat (block_pos b) < 2 ^ 32"
  using unat_u32_less by (simp add: block_pos_def unat_ucast_up)

lemma ino_pos_less: "ino_pos c sb ino + 256 \<le> 2 ^ 64"
proof -
  have "unat ((ino - 1) mod s_inodes_per_group sb) < 2 ^ 32" by (rule unat_u32_less)
  then show ?thesis
    using block_pos_less [of "bg_inode_table (bg_at c (ino_group sb ino))"] by (simp add: ino_pos_def)
qed

lemma unat_bg_sector: "unat (EXT2_FIRST_OFFSET_AFTER_SUPERBLOCK + ucast (bgno :: u32) * 32) = bg_pos bgno"
proof -
  have b: "unat bgno < 2 ^ 32" by (rule unat_u32_less)
  then have "unat (ucast bgno * 32 :: u64) = unat bgno * 32"
    by (subst unat_mult_lem [THEN iffD1]) (simp_all add: unat_ucast_up)
  then show ?thesis
    using b by (simp add: EXT2_FIRST_OFFSET_AFTER_SUPERBLOCK_def bg_pos_def unat_add_small)
qed

lemma unat_ino_position:
  "unat (block_pos b + ucast (i :: u32) * 256) = unat (block_pos b) + 256 * unat i"
proof -
  have i: "unat i < 2 ^ 32" by (rule unat_u32_less)
  then have "unat (ucast i * 256 :: u64) = unat i * 256"
    by (subst unat_mult_lem [THEN iffD1]) (simp_all add: unat_ucast_up)
  then show ?thesis
    using i block_pos_less [of b] by (simp add: unat_add_small)
qed

lemma length_encode_blockgroup_decode: "length (encode_blockgroup (decode_blockgroup bs)) \<le> 32"
  by (simp add: encode_blockgroup_def decode_blockgroup_def)

lemma length_encode_inode_decode: "length (encode_inode (decode_inode bs)) \<le> 256"
proof -
  have "length (i_block (decode_inode bs)) = 15" "length (padding1 (decode_inode bs)) \<le> 28"
    "length (padding2 (decode_inode bs)) \<le> 128"
    by (simp_all add: decode_inode_def)
  then show ?thesis by (simp add: encode_inode_def)
qed

lemma ino_disk_offset_ok:
  assumes "fs_ready hw dv fr d s" and "inode_ok dv s sb ino"
  obtains pos t where "ino_disk_offset hw fr d sb ino s = Ok pos t"
    and "unat pos = ino_pos (disk_byte dv s) sb ino" and "fs_ready hw dv fr d t" and "same_disk dv s t"
proof -
  let ?g = "ino_group sb ino"
  let ?sec = "EXT2_FIRST_OFFSET_AFTER_SUPERBLOCK + ucast ?g * 32"
  have "region_ok dv s (unat ?sec) (unat (32 :: u64))" "unat ?sec + unat (32 :: u64) \<le> 2 ^ 64"
    using assms(2) unat_u32_less [of ?g] by (simp_all add: unat_bg_sector inode_ok_def bg_pos_def)
  then obtain t where "virtio_blk_read_sync hw fr d ?sec 32 s = Ok (bytes_at (disk_byte dv s) (unat ?sec) (unat (32 :: u64))) t"
    and t: "fs_ready hw dv fr d t" "same_disk dv s t"
    by (rule read_region [OF assms(1)])
  then have "ino_disk_offset hw fr d sb ino s =
      Ok (block_pos (bg_inode_table (bg_at (disk_byte dv s) ?g)) + ucast ((ino - 1) mod s_inodes_per_group sb) * 256) t"
    using assms(2) length_encode_blockgroup_decode
    by (simp add: ino_disk_offset_def inode_ok_def bg_from_bgno_def INODE_TABLE_LOC_def INODE_LOC_IN_TABLE_def
      bg_at_def monad_simps Let_def unat_bg_sector flip: ino_group_def)
  then show thesis by (rule that [OF _ _ t]) (simp only: unat_ino_position ino_pos_def)
qed

lemma inode_from_ino_ok:
  assumes "fs_ready hw dv fr d s" and "inode_ok dv s sb ino" and "length (encode_inode old) \<le> 256"
  obtains t where "inode_from_ino hw fr d sb old ino s = Ok (True, inode_at (disk_byte dv s) sb ino) t"
    and "fs_ready hw dv fr d t" and "same_disk dv s t"
proof -
  obtain pos t where off: "ino_disk_offset hw fr d sb ino s = Ok pos t"
    and pos: "unat pos = ino_pos (disk_byte dv s) sb ino" and t: "fs_ready hw dv fr d t" "same_disk dv s t"
    by (rule ino_disk_offset_ok [OF assms(1,2)])
  have "region_ok dv t (unat pos) (unat (256 :: u64))" "unat pos + unat (256 :: u64) \<le> 2 ^ 64"
    using assms(2) ino_pos_less by (simp_all add: pos inode_ok_def same_disk_simps [OF t(2)])
  then obtain u where "virtio_blk_read_sync hw fr d pos 256 t = Ok (bytes_at (disk_byte dv t) (unat pos) (unat (256 :: u64))) u"
    and u: "fs_ready hw dv fr d u" "same_disk dv t u"
    by (rule read_region [OF t(1)])
  then have "inode_from_ino hw fr d sb old ino s = Ok (True, inode_at (disk_byte dv s) sb ino) u"
    using off assms(3) by (simp add: inode_from_ino_def monad_simps inode_at_def pos same_disk_simps [OF t(2)])
  then show thesis using that u same_disk_trans [OF t(2) u(2)] by blast
qed

lemma inode_to_ino_ok:
  assumes "fs_ready hw dv fr d s" and "inode_ok dv s sb ino" and "inode_wf inode"
  obtains t where "inode_to_ino hw fr d sb inode ino s = Ok True t" and "fs_ready hw dv fr d t"
    and "wrote_disk dv (ino_pos (disk_byte dv s) sb ino) (encode_inode inode) s t"
proof -
  obtain pos t where off: "ino_disk_offset hw fr d sb ino s = Ok pos t"
    and pos: "unat pos = ino_pos (disk_byte dv s) sb ino" and t: "fs_ready hw dv fr d t" "same_disk dv s t"
    by (rule ino_disk_offset_ok [OF assms(1,2)])
  have "region_ok dv t (unat pos) (unat (256 :: u64))" "unat pos + unat (256 :: u64) \<le> 2 ^ 64"
    "unat (256 :: u64) = length (encode_inode inode)"
    using assms(2) ino_pos_less length_encode_inode [OF assms(3)]
    by (simp_all add: pos inode_ok_def same_disk_simps [OF t(2)])
  then obtain u where "virtio_blk_write_sync hw fr d (encode_inode inode) pos 256 t = Ok 256 u"
    and u: "fs_ready hw dv fr d u" "wrote_disk dv (unat pos) (encode_inode inode) t u"
    by (rule write_region [OF t(1)])
  then have "inode_to_ino hw fr d sb inode ino s = Ok True u"
    using off by (simp add: inode_to_ino_def monad_simps)
  then show thesis using that u wrote_disk_after [OF t(2) u(2)] pos by simp
qed

section \<open>Time stamps\<close>

lemma overwrite_patch:
  assumes "i + length xs \<le> n"
  shows "overwrite p (patch i xs (bytes_at c p n)) c = overwrite (p + i) xs c"
proof
  fix q
  have "patch i xs (bytes_at c p n) ! (q - p) = (if i \<le> q - p \<and> q - p < i + length xs then xs ! (q - p - i) else c q)"
    if "p \<le> q" "q < p + n"
    using that assms by (simp add: nth_patch nth_bytes_at)
  with assms show "overwrite p (patch i xs (bytes_at c p n)) c q = overwrite (p + i) xs c q"
    by (auto simp: overwrite_def)
qed

text \<open>Reading an inode, changing it and writing it back.\<close>

lemma update_inode_ok:
  assumes "fs_ready hw dv fr d s" and "inode_ok dv s sb ino"
    and enc: "\<And>bs. length bs = 256 \<Longrightarrow> encode_inode (f (decode_inode bs)) = patch i xs bs"
    and wf: "\<And>inode. inode_wf inode \<Longrightarrow> inode_wf (f inode)" and i: "i + length xs \<le> 256"
  obtains t where "mbind (inode_from_ino hw fr d sb (decode_inode (uninit fr 256)) ino) (\<lambda>(r, inode).
       if \<not> r then mreturn False else inode_to_ino hw fr d sb (f inode) ino) s = Ok True t"
    and "fs_ready hw dv fr d t" and "wrote_disk dv (ino_pos (disk_byte dv s) sb ino + i) xs s t"
proof -
  let ?c = "disk_byte dv s" and ?pos = "ino_pos (disk_byte dv s) sb ino"
  obtain t where get: "inode_from_ino hw fr d sb (decode_inode (uninit fr 256)) ino s = Ok (True, inode_at ?c sb ino) t"
    and t: "fs_ready hw dv fr d t" "same_disk dv s t"
    by (rule inode_from_ino_ok [OF assms(1,2) length_encode_inode_decode])
  have "inode_ok dv t sb ino" using assms(2) by (simp add: inode_ok_same [OF t(2)])
  moreover have "inode_wf (f (inode_at ?c sb ino))"
    by (rule wf) (simp add: inode_at_def inode_wf_decode)
  ultimately obtain u where put: "inode_to_ino hw fr d sb (f (inode_at ?c sb ino)) ino t = Ok True u"
    and u: "fs_ready hw dv fr d u" "wrote_disk dv (ino_pos (disk_byte dv t) sb ino) (encode_inode (f (inode_at ?c sb ino))) t u"
    by (rule inode_to_ino_ok [OF t(1)])
  have "encode_inode (f (inode_at ?c sb ino)) = patch i xs (bytes_at ?c ?pos 256)"
    by (simp add: inode_at_def enc)
  then have "wrote_disk dv ?pos (patch i xs (bytes_at ?c ?pos 256)) s u"
    using wrote_disk_after [OF t(2) u(2)] by (simp add: same_disk_simps [OF t(2)])
  then have "wrote_disk dv (?pos + i) xs s u"
    by (simp add: wrote_disk_def overwrite_patch [OF i])
  then show thesis using that u(1) get put by (simp add: monad_simps)
qed

lemma inode_wf_set_time:
  "inode_wf i \<Longrightarrow> inode_wf (i\<lparr>i_atime := t\<rparr>)" "inode_wf i \<Longrightarrow> inode_wf (i\<lparr>i_ctime := t\<rparr>)"
  "inode_wf i \<Longrightarrow> inode_wf (i\<lparr>i_mtime := t\<rparr>)"
  by (simp_all add: inode_wf_def)

lemma set_times_ok:
  assumes "fs_ready hw dv fr d s" and "inode_ok dv s sb ino"
  shows "\<exists>t. set_atime_for_ino hw fr d sb ino w s = Ok True t \<and> fs_ready hw dv fr d t \<and>
      wrote_disk dv (ino_pos (disk_byte dv s) sb ino + 8) (le_bytes 4 w) s t" (is ?atime)
    and "\<exists>t. set_ctime_for_ino hw fr d sb ino w s = Ok True t \<and> fs_ready hw dv fr d t \<and>
      wrote_disk dv (ino_pos (disk_byte dv s) sb ino + 12) (le_bytes 4 w) s t" (is ?ctime)
    and "\<exists>t. set_mtime_for_ino hw fr d sb ino w s = Ok True t \<and> fs_ready hw dv fr d t \<and>
      wrote_disk dv (ino_pos (disk_byte dv s) sb ino + 16) (le_bytes 4 w) s t" (is ?mtime)
proof -
  show ?atime
    unfolding set_atime_for_ino_def
    by (rule update_inode_ok [OF assms encode_set_time(1) inode_wf_set_time(1)]) auto
  show ?ctime
    unfolding set_ctime_for_ino_def
    by (rule update_inode_ok [OF assms encode_set_time(2) inode_wf_set_time(2)]) auto
  show ?mtime
    unfolding set_mtime_for_ino_def
    by (rule update_inode_ok [OF assms encode_set_time(3) inode_wf_set_time(3)]) auto
qed

section \<open>Reading files\<close>

text \<open>Where on the disk position \<open>p\<close> of a file is.\<close>

definition file_pos :: "ext2_inode \<Rightarrow> nat \<Rightarrow> nat" where
  "file_pos inode p = unat (block_pos (i_block inode ! (p div 1024))) + p mod 1024"

lemma file_pos_add:
  "p mod 1024 + i < 1024 \<Longrightarrow> file_pos inode (p + i) = file_pos inode p + i"
  using div_mod_add_small [of p 1024 i] by (simp add: file_pos_def)

lemma bytes_at_file:
  "p mod 1024 + n \<le> 1024 \<Longrightarrow> bytes_at c (file_pos inode p) n = bytes_at (\<lambda>p. c (file_pos inode p)) p n"
  by (rule nth_equalityI) (simp_all add: nth_bytes_at file_pos_add)

lemma stops_after_file:
  assumes "p mod 1024 + n \<le> 1024" and "stops_after ok (file_pos inode p) n r"
  shows "stops_after (\<lambda>p. ok (file_pos inode p)) p n r"
  using assms by (auto simp: stops_after_def file_pos_add)

lemma stops_after_longer: "stops_after ok p n r \<Longrightarrow> r \<noteq> n \<Longrightarrow> n \<le> m \<Longrightarrow> stops_after ok p m r"
  by (auto simp: stops_after_def)

abbreviation file_byte :: "'d disk_view \<Rightarrow> ('d, 'z) virtio_state_scheme \<Rightarrow> ext2_inode \<Rightarrow> nat \<Rightarrow> u8" where
  "file_byte dv s inode \<equiv> \<lambda>p. disk_byte dv s (file_pos inode p)"

abbreviation file_ok :: "'d disk_view \<Rightarrow> ('d, 'z) virtio_state_scheme \<Rightarrow> ext2_inode \<Rightarrow> nat \<Rightarrow> bool" where
  "file_ok dv s inode \<equiv> \<lambda>p. disk_ok dv s (file_pos inode p)"

text \<open>The positions that the two loops over a file compute.\<close>

lemma ino_loop_pos:
  assumes "amt < len" and "unat offset + unat len \<le> 1024 * length (i_block inode)" and "length (i_block inode) = 15"
  defines "p \<equiv> unat offset + unat amt"
  shows "unat ((offset + amt) div 1024) = p div 1024"
    and "p div 1024 < length (i_block inode)"
    and "unat (block_pos (i_block inode ! (p div 1024)) + (offset + amt) mod 1024) = file_pos inode p"
    and "unat (ino_chunk offset len amt) = min (1024 - p mod 1024) (unat len - unat amt)"
    and "p mod 1024 + unat (ino_chunk offset len amt) \<le> 1024"
    and "file_pos inode p + unat (ino_chunk offset len amt) \<le> 2 ^ 64"
proof -
  have a: "unat amt < unat len" using assms(1) by (simp add: word_less_nat_alt)
  then have "unat offset + unat amt < 2 ^ 64" using assms(2,3) by simp
  then have u: "unat (offset + amt) = p" by (simp add: p_def unat_add_small)
  show "unat ((offset + amt) div 1024) = p div 1024" by (simp add: unat_div_distrib u)
  show "p div 1024 < length (i_block inode)" using a assms(2) by (simp add: p_def div_less_iff_less_mult)
  have m: "unat ((offset + amt) mod 1024) = p mod 1024" by (simp add: unat_mod_distrib u)
  then show f: "unat (block_pos (i_block inode ! (p div 1024)) + (offset + amt) mod 1024) = file_pos inode p"
    using block_pos_less [of "i_block inode ! (p div 1024)"] mod_less_divisor [of 1024 p]
    by (subst unat_add_small) (simp_all add: file_pos_def)
  show c: "unat (ino_chunk offset len amt) = min (1024 - p mod 1024) (unat len - unat amt)"
    using ino_chunk_progress(4) [OF assms(1), of offset] by (simp add: u)
  have "p mod 1024 < 1024" by simp
  then show k: "p mod 1024 + unat (ino_chunk offset len amt) \<le> 1024" using c by linarith
  show "file_pos inode p + unat (ino_chunk offset len amt) \<le> 2 ^ 64"
    using k block_pos_less [of "i_block inode ! (p div 1024)"] by (simp add: file_pos_def)
qed

lemma read_ino_loop_step:
  assumes ready: "fs_ready hw dv fr d s" and more: "amt < len"
    and len: "unat offset + unat len \<le> 1024 * length (i_block inode)" and blocks: "length (i_block inode) = 15"
  defines "p \<equiv> unat offset + unat amt" and "c \<equiv> ino_chunk offset len amt"
  obtains r t where "read_ino_loop hw fr d inode offset len amt out s =
      (if r = unat c then read_ino_loop hw fr d inode offset len (amt + c) (out @ bytes_at (file_byte dv s inode) p r) t
       else Ok (amt, out @ bytes_at (file_byte dv s inode) p r) t)"
    and "fs_ready hw dv fr d t" and "same_disk dv s t"
    and "stops_after (file_ok dv s inode) p (unat c) r"
proof -
  note pos = ino_loop_pos [OF more len blocks, folded p_def c_def]
  let ?o = "block_pos (i_block inode ! (p div 1024)) + (offset + amt) mod 1024"
  have "unat ?o + unat c \<le> 2 ^ 64" using pos(3,6) by simp
  then obtain r t where rd: "virtio_blk_read_sync hw fr d ?o c s = Ok (bytes_at (disk_byte dv s) (file_pos inode p) r) t"
    and t: "fs_ready hw dv fr d t" "same_disk dv s t"
    and r: "stops_after (disk_ok dv s) (file_pos inode p) (unat c) r"
    using blk.rd_law [OF ready, of ?o c] pos(3) by (auto simp: same_disk_def)
  have le: "r \<le> unat c" using r by (simp add: stops_after_def)
  then have "bytes_at (disk_byte dv s) (file_pos inode p) r = bytes_at (file_byte dv s inode) p r"
    using pos(5) by (intro bytes_at_file) simp
  moreover have "of_nat r \<noteq> c \<longleftrightarrow> r \<noteq> unat c"
    using le unat_u64_less [of c] by (auto simp: unat_of_nat_small)
  ultimately have "read_ino_loop hw fr d inode offset len amt out s =
      (if r = unat c then read_ino_loop hw fr d inode offset len (amt + c) (out @ bytes_at (file_byte dv s inode) p r) t
       else Ok (amt, out @ bytes_at (file_byte dv s inode) p r) t)"
    using more rd pos(1,2)
    by (simp add: read_ino_loop.simps [of hw fr d inode offset len amt] EXT2_SUPPORTED_BLOCK_SIZE_def Let_def
      monad_simps flip: c_def)
  then show thesis using that t stops_after_file [OF pos(5) r] by blast
qed

lemma read_ino_loop_correct:
  assumes "fs_ready hw dv fr d s" and "amt \<le> len"
    and len: "unat offset + unat len \<le> 1024 * length (i_block inode)" and blocks: "length (i_block inode) = 15"
  shows "\<exists>n r t. read_ino_loop hw fr d inode offset len amt out s =
      Ok (n, out @ bytes_at (file_byte dv s inode) (unat offset + unat amt) r) t \<and>
    fs_ready hw dv fr d t \<and> same_disk dv s t \<and> unat n \<le> unat amt + r \<and> (unat amt + r = unat len \<longrightarrow> n = len) \<and>
    stops_after (file_ok dv s inode) (unat offset + unat amt) (unat len - unat amt) r"
  using assms(1,2)
proof (induction "unat len - unat amt" arbitrary: amt out s rule: less_induct)
  case less
  let ?p = "unat offset + unat amt" and ?c = "ino_chunk offset len amt"
  show ?case
  proof (cases "amt < len")
    case False
    then have "amt = len" using less.prems(2) by simp
    moreover from this have "read_ino_loop hw fr d inode offset len amt out s = Ok (len, out) s"
      by (simp add: read_ino_loop.simps [of hw fr d inode offset len len] monad_simps)
    ultimately show ?thesis
      using less.prems by (intro exI [of _ len] exI [of _ 0] exI [of _ s]) (simp add: stops_after_def same_disk_def)
  next
    case more: True
    obtain r t where run: "read_ino_loop hw fr d inode offset len amt out s =
        (if r = unat ?c then read_ino_loop hw fr d inode offset len (amt + ?c) (out @ bytes_at (file_byte dv s inode) ?p r) t
         else Ok (amt, out @ bytes_at (file_byte dv s inode) ?p r) t)"
      and t: "fs_ready hw dv fr d t" "same_disk dv s t"
      and r: "stops_after (file_ok dv s inode) ?p (unat ?c) r"
      by (rule read_ino_loop_step [OF less.prems(1) more len blocks])
    note prog = ino_chunk_progress(1-3) [OF more, of offset]
    show ?thesis
    proof (cases "r = unat ?c")
      case False
      then have "r < unat ?c" using r by (simp add: stops_after_def)
      with False run t stops_after_longer [OF r False, of "unat len - unat amt"] prog(3) show ?thesis
        by (intro exI [of _ amt] exI [of _ r] exI [of _ t]) simp
    next
      case True
      have "unat len - unat (amt + ?c) < unat len - unat amt" "amt + ?c \<le> len"
        using prog more by (simp_all add: word_le_nat_alt word_less_nat_alt)
      then obtain n r' u where "read_ino_loop hw fr d inode offset len amt out s =
          Ok (n, out @ bytes_at (file_byte dv s inode) ?p r @ bytes_at (file_byte dv s inode) (?p + r) r') u"
        and u: "fs_ready hw dv fr d u" "same_disk dv t u"
        and n: "unat n \<le> unat amt + (r + r')" "unat amt + (r + r') = unat len \<longrightarrow> n = len"
        and r': "stops_after (file_ok dv s inode) (?p + r) (unat len - unat amt - r) r'"
        using less.hyps [OF _ t(1), of "amt + ?c" "out @ bytes_at (file_byte dv s inode) ?p r"]
          run True prog(2) same_disk_simps [OF t(2)] by (auto simp: add.assoc)
      moreover have "stops_after (file_ok dv s inode) ?p (r + (unat len - unat amt - r)) (r + r')"
        using r r' True by (intro stops_after_add) (auto simp: stops_after_def)
      ultimately show ?thesis
        using prog(3) True same_disk_trans [OF t(2) u(2)]
        by (intro exI [of _ n] exI [of _ "r + r'"] exI [of _ u]) (simp add: bytes_at_append)
    qed
  qed
qed

lemma inode_at_blocks [simp]: "length (i_block (inode_at c sb ino)) = 15"
  by (simp add: inode_at_def decode_inode_def)

lemma read_from_ino_run:
  assumes "fs_ready hw dv fr d s" and "inode_ok dv s sb ino" and "unat offset + unat len \<le> 15 * 1024"
  defines "inode \<equiv> inode_at (disk_byte dv s) sb ino"
  obtains n r t where "read_from_ino hw fr d sb ino offset len s = Ok (n, bytes_at (file_byte dv s inode) (unat offset) r) t"
    and "fs_ready hw dv fr d t" and "same_disk dv s t" and "unat n \<le> r" and "r = unat len \<longrightarrow> n = len"
    and "stops_after (file_ok dv s inode) (unat offset) (unat len) r"
proof -
  obtain t where get: "inode_from_ino hw fr d sb (decode_inode (uninit fr 256)) ino s = Ok (True, inode) t"
    and t: "fs_ready hw dv fr d t" "same_disk dv s t"
    unfolding inode_def by (rule inode_from_ino_ok [OF assms(1,2) length_encode_inode_decode])
  have len: "length (i_block inode) = 15" by (simp add: inode_def)
  obtain n r u where "read_ino_loop hw fr d inode offset len 0 [] t = Ok (n, bytes_at (file_byte dv s inode) (unat offset) r) u"
    and u: "fs_ready hw dv fr d u" "same_disk dv t u" and n: "unat n \<le> r" "r = unat len \<longrightarrow> n = len"
    and r: "stops_after (file_ok dv s inode) (unat offset) (unat len) r"
    using read_ino_loop_correct [OF t(1), of 0 len offset inode "[]"] len assms(3) same_disk_simps [OF t(2)] by auto
  then have "read_from_ino hw fr d sb ino offset len s = Ok (n, bytes_at (file_byte dv s inode) (unat offset) r) u"
    using get by (simp add: read_from_ino_def monad_simps)
  then show thesis using that u(1) same_disk_trans [OF t(2) u(2)] n r by blast
qed

section \<open>Writing files\<close>

text \<open>
  From contents \<open>c\<close> to contents \<open>c'\<close> of the disk the file positions from \<open>p\<close> on have received the bytes
  \<open>xs\<close>, and no other byte of the disk has changed.
\<close>

definition file_written :: "(nat \<Rightarrow> nat) \<Rightarrow> nat \<Rightarrow> bytes \<Rightarrow> (nat \<Rightarrow> u8) \<Rightarrow> (nat \<Rightarrow> u8) \<Rightarrow> bool" where
  "file_written fp p xs c c' \<longleftrightarrow> (\<forall>i < length xs. c' (fp (p + i)) = xs ! i) \<and>
     (\<forall>q. q \<notin> fp ` {p..<p + length xs} \<longrightarrow> c' q = c q)"

lemma file_written_Nil [simp]: "file_written fp p [] c c' \<longleftrightarrow> c' = c"
  by (auto simp: file_written_def)

lemma file_written_append:
  assumes a: "file_written fp p xs c c1" and b: "file_written fp (p + length xs) ys c1 c2"
    and inj: "inj_on fp {p..<p + (length xs + length ys)}"
  shows "file_written fp p (xs @ ys) c c2"
  unfolding file_written_def
proof (intro conjI allI impI)
  fix i assume i: "i < length (xs @ ys)"
  show "c2 (fp (p + i)) = (xs @ ys) ! i"
  proof (cases "i < length xs")
    case True
    have "fp (p + i) \<noteq> fp k" if "k \<in> {p + length xs..<p + length xs + length ys}" for k
      using inj_onD [OF inj, of "p + i" k] True that by auto
    then have "fp (p + i) \<notin> fp ` {p + length xs..<p + length xs + length ys}" by blast
    with True a b show ?thesis by (simp add: file_written_def nth_append)
  next
    case False
    then have "p + i = p + length xs + (i - length xs)" "i - length xs < length ys" using i by auto
    moreover have "c2 (fp (p + length xs + j)) = ys ! j" if "j < length ys" for j
      using b that by (simp add: file_written_def)
    ultimately show ?thesis using False by (simp only: nth_append if_False)
  qed
next
  fix q assume "q \<notin> fp ` {p..<p + length (xs @ ys)}"
  then have "q \<notin> fp ` {p..<p + length xs}" "q \<notin> fp ` {p + length xs..<p + length xs + length ys}" by auto
  with a b show "c2 q = c q" by (simp add: file_written_def)
qed

lemma file_written_block:
  assumes "p mod 1024 + length xs \<le> 1024"
  shows "file_written (file_pos inode) p xs c (overwrite (file_pos inode p) xs c)"
  unfolding file_written_def
proof (intro conjI allI impI)
  fix i assume "i < length xs"
  with assms show "overwrite (file_pos inode p) xs c (file_pos inode (p + i)) = xs ! i"
    by (simp add: file_pos_add overwrite_def)
next
  fix q assume q: "q \<notin> file_pos inode ` {p..<p + length xs}"
  have "\<not> (file_pos inode p \<le> q \<and> q < file_pos inode p + length xs)"
  proof
    assume a: "file_pos inode p \<le> q \<and> q < file_pos inode p + length xs"
    then have "file_pos inode (p + (q - file_pos inode p)) = q"
      using assms by (subst file_pos_add) auto
    with a q show False by (metis (no_types, lifting) add_less_cancel_left atLeastLessThan_iff image_eqI le_add1
      le_add_diff_inverse)
  qed
  then show "overwrite (file_pos inode p) xs c q = c q" by (auto simp: overwrite_def)
qed

lemma write_ino_loop_step:
  assumes ready: "fs_ready hw dv fr d s" and more: "amt < len"
    and len: "unat offset + unat len \<le> 1024 * length (i_block inode)" and blocks: "length (i_block inode) = 15"
    and buf: "unat len \<le> length buffer"
  defines "p \<equiv> unat offset + unat amt" and "c \<equiv> ino_chunk offset len amt"
  obtains r t where "write_ino_loop hw fr d inode buffer offset len amt s =
      (if r = unat c then write_ino_loop hw fr d inode buffer offset len (amt + c) t else Ok amt t)"
    and "fs_ready hw dv fr d t" and "io_only s t" and "disk_ok dv t = disk_ok dv s"
    and "file_written (file_pos inode) p (slice (unat amt) r buffer) (disk_byte dv s) (disk_byte dv t)"
    and "stops_after (file_ok dv s inode) p (unat c) r"
proof -
  note pos = ino_loop_pos [OF more len blocks, folded p_def c_def]
  let ?o = "block_pos (i_block inode ! (p div 1024)) + (offset + amt) mod 1024"
  have "unat ?o + unat c \<le> 2 ^ 64" "unat c \<le> length (drop (unat amt) buffer)"
    using pos(3,6) buf ino_chunk_progress(3) [OF more, of offset] by (simp_all add: c_def)
  then obtain r t where wr: "virtio_blk_write_sync hw fr d (drop (unat amt) buffer) ?o c s = Ok (of_nat r) t"
    and t: "fs_ready hw dv fr d t" "io_only s t" "disk_ok dv t = disk_ok dv s"
    and dsk: "disk_byte dv t = overwrite (file_pos inode p) (slice (unat amt) r buffer) (disk_byte dv s)"
    and r: "stops_after (disk_ok dv s) (file_pos inode p) (unat c) r"
    using blk.wr_law [OF ready, of ?o c "drop (unat amt) buffer"] pos(3) by (auto simp: slice_def)
  have le: "r \<le> unat c" using r by (simp add: stops_after_def)
  then have "file_written (file_pos inode) p (slice (unat amt) r buffer) (disk_byte dv s) (disk_byte dv t)"
    unfolding dsk using pos(5) by (intro file_written_block) simp
  moreover have "of_nat r \<noteq> c \<longleftrightarrow> r \<noteq> unat c"
    using le unat_u64_less [of c] by (auto simp: unat_of_nat_small)
  then have "write_ino_loop hw fr d inode buffer offset len amt s =
      (if r = unat c then write_ino_loop hw fr d inode buffer offset len (amt + c) t else Ok amt t)"
    using more wr pos(1,2)
    by (simp add: write_ino_loop.simps [of hw fr d inode buffer offset len amt] EXT2_SUPPORTED_BLOCK_SIZE_def Let_def
      monad_simps flip: c_def)
  ultimately show thesis using that t stops_after_file [OF pos(5) r] by blast
qed

lemma write_ino_loop_correct:
  assumes "fs_ready hw dv fr d s" and "amt \<le> len"
    and len: "unat offset + unat len \<le> 1024 * length (i_block inode)" and blocks: "length (i_block inode) = 15"
    and buf: "unat len \<le> length buffer"
    and "inj_on (file_pos inode) {unat offset + unat amt..<unat offset + unat len}"
  shows "\<exists>n r t. write_ino_loop hw fr d inode buffer offset len amt s = Ok n t \<and> fs_ready hw dv fr d t \<and> io_only s t \<and>
    disk_ok dv t = disk_ok dv s \<and> unat n \<le> unat amt + r \<and> (unat amt + r = unat len \<longrightarrow> n = len) \<and>
    file_written (file_pos inode) (unat offset + unat amt) (slice (unat amt) r buffer) (disk_byte dv s) (disk_byte dv t) \<and>
    stops_after (file_ok dv s inode) (unat offset + unat amt) (unat len - unat amt) r"
  using assms(1,2,6)
proof (induction "unat len - unat amt" arbitrary: amt s rule: less_induct)
  case less
  let ?p = "unat offset + unat amt" and ?c = "ino_chunk offset len amt"
  show ?case
  proof (cases "amt < len")
    case False
    then have "amt = len" using less.prems(2) by simp
    moreover from this have "write_ino_loop hw fr d inode buffer offset len amt s = Ok len s"
      by (simp add: write_ino_loop.simps [of hw fr d inode buffer offset len len] monad_simps)
    ultimately show ?thesis
      using less.prems by (intro exI [of _ len] exI [of _ 0] exI [of _ s]) (simp add: stops_after_def slice_def)
  next
    case more: True
    obtain r t where run: "write_ino_loop hw fr d inode buffer offset len amt s =
        (if r = unat ?c then write_ino_loop hw fr d inode buffer offset len (amt + ?c) t else Ok amt t)"
      and t: "fs_ready hw dv fr d t" "io_only s t" "disk_ok dv t = disk_ok dv s"
      and wr: "file_written (file_pos inode) ?p (slice (unat amt) r buffer) (disk_byte dv s) (disk_byte dv t)"
      and r: "stops_after (file_ok dv s inode) ?p (unat ?c) r"
      by (rule write_ino_loop_step [OF less.prems(1) more len blocks buf])
    note prog = ino_chunk_progress(1-3) [OF more, of offset]
    show ?thesis
    proof (cases "r = unat ?c")
      case False
      then have "r < unat ?c" using r by (simp add: stops_after_def)
      with False run t wr stops_after_longer [OF r False, of "unat len - unat amt"] prog(3) show ?thesis
        by (intro exI [of _ amt] exI [of _ r] exI [of _ t]) simp
    next
      case True
      have "unat len - unat (amt + ?c) < unat len - unat amt" "amt + ?c \<le> len"
        using prog more by (simp_all add: word_le_nat_alt word_less_nat_alt)
      moreover have "inj_on (file_pos inode) {unat offset + unat (amt + ?c)..<unat offset + unat len}"
        using less.prems(3) by (rule inj_on_subset) (use prog(2) in auto)
      ultimately obtain n r' u where "write_ino_loop hw fr d inode buffer offset len amt s = Ok n u"
        and u: "fs_ready hw dv fr d u" "io_only t u" "disk_ok dv u = disk_ok dv s"
        and n: "unat n \<le> unat amt + (r + r')" "unat amt + (r + r') = unat len \<longrightarrow> n = len"
        and wr': "file_written (file_pos inode) (?p + r) (slice (unat amt + r) r' buffer) (disk_byte dv t) (disk_byte dv u)"
        and r': "stops_after (file_ok dv s inode) (?p + r) (unat len - unat amt - r) r'"
        using less.hyps [OF _ t(1), of "amt + ?c"] run True prog(2) t(3) by (auto simp: add.assoc)
      moreover have "r' \<le> unat len - unat amt - r" using r' by (simp add: stops_after_def)
      moreover from this have "inj_on (file_pos inode) {?p..<?p + (r + r')}"
        using prog(3) True by (intro inj_on_subset [OF less.prems(3)]) auto
      with \<open>r' \<le> _\<close> have "file_written (file_pos inode) ?p (slice (unat amt) r buffer @ slice (unat amt + r) r' buffer)
          (disk_byte dv s) (disk_byte dv u)"
        using wr wr' buf prog(3) True by (intro file_written_append [where ?c1.0 = "disk_byte dv t"]) auto
      moreover have "stops_after (file_ok dv s inode) ?p (r + (unat len - unat amt - r)) (r + r')"
        using r r' True by (intro stops_after_add) (auto simp: stops_after_def)
      ultimately show ?thesis
        using prog(3) True io_only_trans [OF t(2) u(2)]
        by (intro exI [of _ n] exI [of _ "r + r'"] exI [of _ u]) simp
    qed
  qed
qed

lemma write_to_ino_run:
  assumes "fs_ready hw dv fr d s" and "inode_ok dv s sb ino" and "unat offset + unat len \<le> 15 * 1024"
    and "unat len \<le> length buffer"
    and inj: "inj_on (file_pos (inode_at (disk_byte dv s) sb ino)) {unat offset..<unat offset + unat len}"
  defines "inode \<equiv> inode_at (disk_byte dv s) sb ino"
  obtains n r t where "write_to_ino hw fr d sb ino buffer offset len s = Ok n t" and "fs_ready hw dv fr d t"
    and "io_only s t" and "disk_ok dv t = disk_ok dv s" and "unat n \<le> r" and "r = unat len \<longrightarrow> n = len"
    and "file_written (file_pos inode) (unat offset) (take r buffer) (disk_byte dv s) (disk_byte dv t)"
    and "stops_after (file_ok dv s inode) (unat offset) (unat len) r"
proof -
  obtain t where get: "inode_from_ino hw fr d sb (decode_inode (uninit fr 256)) ino s = Ok (True, inode) t"
    and t: "fs_ready hw dv fr d t" "same_disk dv s t"
    unfolding inode_def by (rule inode_from_ino_ok [OF assms(1,2) length_encode_inode_decode])
  have len: "length (i_block inode) = 15" by (simp add: inode_def)
  have st: "io_only s t" using t(2) by (simp add: same_disk_def)
  obtain n r u where "write_ino_loop hw fr d inode buffer offset len 0 t = Ok n u"
    and u: "fs_ready hw dv fr d u" "io_only t u" "disk_ok dv u = disk_ok dv s" "unat n \<le> r" "r = unat len \<longrightarrow> n = len"
      "file_written (file_pos inode) (unat offset) (take r buffer) (disk_byte dv s) (disk_byte dv u)"
      "stops_after (file_ok dv s inode) (unat offset) (unat len) r"
    using write_ino_loop_correct [OF t(1), of 0 len offset inode buffer] len assms(3,4) inj [folded inode_def]
      same_disk_simps [OF t(2)] by (auto simp: slice_def)
  then have "write_to_ino hw fr d sb ino buffer offset len s = Ok n u"
    using get by (simp add: write_to_ino_def monad_simps)
  then show thesis using that u io_only_trans [OF st u(2)] by blast
qed

text \<open>Metadata that a write to a file does not touch stays what it was.\<close>

lemma file_written_outside:
  assumes "file_written fp p xs c c'" and "fp ` {p..<p + length xs} \<inter> {a..<a + n} = {}"
  shows "bytes_at c' a n = bytes_at c a n"
proof (rule nth_equalityI)
  fix i assume "i < length (bytes_at c' a n)"
  then have "a + i \<notin> fp ` {p..<p + length xs}" and "i < n" using assms(2) by auto
  with assms(1) show "bytes_at c' a n ! i = bytes_at c a n ! i"
    by (simp add: nth_bytes_at file_written_def)
qed simp

lemma inode_at_unchanged:
  assumes "bytes_at c' (bg_pos (ino_group sb ino)) 32 = bytes_at c (bg_pos (ino_group sb ino)) 32"
    and "bytes_at c' (ino_pos c sb ino) 256 = bytes_at c (ino_pos c sb ino) 256"
  shows "ino_pos c' sb ino = ino_pos c sb ino" and "inode_at c' sb ino = inode_at c sb ino"
proof -
  show "ino_pos c' sb ino = ino_pos c sb ino" using assms(1) by (simp add: ino_pos_def bg_at_def)
  then show "inode_at c' sb ino = inode_at c sb ino" using assms(2) by (simp add: inode_at_def)
qed

end
