(* ===== verification/Ext2_Dir.thy ===== *)
theory Ext2_Dir
  imports Ext2_Proofs
begin

text \<open>
  Directories and paths.  A directory block is a sequence of entries, each as long as its length
  field says; the scan of src/ext2.c copies every entry to the start of the buffer that holds the
  block, over entries it has already passed.  It is compared with a lookup in the list of entries
  that the block represents.
\<close>

section \<open>What a directory contains\<close>

text \<open>The entries of a well-formed block from an offset on: inode number and name.\<close>

function dir_entries :: "bytes \<Rightarrow> nat \<Rightarrow> (u32 \<times> bytes) list option" where
  "dir_entries block idx =
     (if idx < 1024 then
        let de = decode_dirent (drop idx block); n = unat (de_rec_len de); k = unat (de_name_len de) in
        if n < 8 + k \<or> idx + n > 1024 then None
        else map_option (Cons (de_inode de, slice (idx + 8) k block)) (dir_entries block (idx + n))
      else Some [])"
  by pat_completeness auto
termination
  by (relation "measure (\<lambda>(block, idx). 1024 - idx)") auto

declare dir_entries.simps [simp del]

text \<open>The comparison that the code makes with an entry, and the first entry that passes it.\<close>

definition entry_matches :: "bytes \<Rightarrow> u32 \<times> bytes \<Rightarrow> bool" where
  "entry_matches path = (\<lambda>(n, name). strncmp_equal (length name) name path)"

definition dir_lookup :: "bytes \<Rightarrow> (u32 \<times> bytes) list \<Rightarrow> u32 option" where
  "dir_lookup path es = map_option fst (find (entry_matches path) es)"

lemma strncmp_equal_take: "n \<le> m \<Longrightarrow> strncmp_equal n (take m name) path = strncmp_equal n name path"
proof (induction n arbitrary: m name path)
  case (Suc n)
  then obtain k where "m = Suc k" by (cases m) auto
  with Suc show ?case by (cases name) (simp_all add: char_at_def)
qed simp

text \<open>Without zero bytes in the strings, an entry passes if its name is a prefix of the component.\<close>

lemma strncmp_equal_prefix:
  "0 \<notin> set name \<Longrightarrow> strncmp_equal (length name) name path \<longleftrightarrow> take (length name) path = name"
proof (induction name arbitrary: path)
  case (Cons x name)
  then show ?case by (cases path) (auto simp: char_at_def)
qed simp

section \<open>The scan of a block\<close>

lemma decode_dirent_take: "8 \<le> n \<Longrightarrow> decode_dirent (take n bs) = decode_dirent bs"
  by (simp add: decode_dirent_def slice_def drop_take)

lemma decode_dirent_append: "8 \<le> length xs \<Longrightarrow> decode_dirent (xs @ ys) = decode_dirent xs"
  by (simp add: decode_dirent_def slice_def)

lemma copy_down_keeps:
  assumes "idx = 0 \<or> n \<le> idx" and "idx + n \<le> length buffer"
  shows "drop idx (copy_down idx n buffer) = drop idx buffer"
proof (cases "idx = 0")
  case True
  then show ?thesis by (simp add: copy_down_def slice_def)
next
  case False
  then have n: "n \<le> idx" "length (slice idx n buffer) = n" using assms by simp_all
  then show ?thesis by (simp add: copy_down_def)
qed

lemma copy_down_entry:
  assumes idx: "idx = 0 \<or> 8 \<le> idx" and same: "drop idx buffer = drop idx block"
    and len: "length buffer = 1024" "length block = 1024" and n: "8 \<le> n" "idx + n \<le> 1024"
  defines "buf \<equiv> copy_down idx n (copy_down idx 8 buffer)"
  shows "decode_dirent (copy_down idx 8 buffer) = decode_dirent (drop idx block)"
    and "decode_dirent buf = decode_dirent (drop idx block)"
    and "take (n - 8) (drop 8 buf) = slice (idx + 8) (n - 8) block"
    and "drop (idx + n) buf = drop (idx + n) block" and "length buf = 1024"
proof -
  let ?b = "copy_down idx 8 buffer"
  have b: "drop idx ?b = drop idx block"
    using copy_down_keeps [of idx 8 buffer] idx same len n by simp
  have "?b = slice idx 8 block @ drop 8 buffer" using same by (simp add: copy_down_def slice_def)
  then show "decode_dirent ?b = decode_dirent (drop idx block)"
    using len n decode_dirent_take [of 8 "drop idx block"] by (simp add: decode_dirent_append slice_def)
  have lb: "length ?b = 1024" using len n by (simp add: copy_down_def)
  have e: "buf = slice idx n block @ drop n ?b" using b by (simp add: buf_def copy_down_def slice_def)
  then show "length buf = 1024" using len lb n by simp
  show "decode_dirent buf = decode_dirent (drop idx block)"
    using e len n decode_dirent_take [of n "drop idx block"] by (simp add: decode_dirent_append slice_def)
  show "take (n - 8) (drop 8 buf) = slice (idx + 8) (n - 8) block"
    using e len n by (simp add: slice_def drop_take add.commute)
  have "drop (idx + n) ?b = drop (idx + n) block" using arg_cong [OF b, of "drop n"] by (simp add: add.commute)
  then show "drop (idx + n) buf = drop (idx + n) block" using e len n by simp
qed

lemma dirent_scan_correct:
  assumes "dir_entries block idx = Some es" and "idx = 0 \<or> 8 \<le> idx" and "drop idx buffer = drop idx block"
    and "length buffer = 1024" and "length block = 1024"
  shows "dirent_scan path buffer idx = Some (case dir_lookup path es of None \<Rightarrow> Absent | Some n \<Rightarrow> Found n)"
  using assms
proof (induction block idx arbitrary: es buffer rule: dir_entries.induct)
  case (1 block idx)
  show ?case
  proof (cases "idx < 1024")
    case False
    with "1.prems"(1) show ?thesis
      by (simp add: dir_entries.simps [of block idx] dirent_scan.simps [of path buffer idx] dir_lookup_def)
  next
    case True
    define de where "de = decode_dirent (drop idx block)"
    define n where "n = unat (de_rec_len de)"
    define k where "k = unat (de_name_len de)"
    note defs = de_def [symmetric] n_def [symmetric] k_def [symmetric]
    from "1.prems"(1) True obtain es' where ok: "8 + k \<le> n" "idx + n \<le> 1024"
      and rest: "dir_entries block (idx + n) = Some es'" and es: "es = (de_inode de, slice (idx + 8) k block) # es'"
      by (auto simp: dir_entries.simps [of block idx] Let_def defs split: if_splits)
    let ?buf = "copy_down idx n (copy_down idx 8 buffer)"
    note c = copy_down_entry [OF "1.prems"(2-5), of n, unfolded defs]
    have "8 \<le> n" using ok by simp
    note c = c [OF this ok(2)]
    have "strncmp_equal k (drop 8 ?buf) path = strncmp_equal k (slice (idx + 8) (n - 8) block) path"
      using ok strncmp_equal_take [of k "n - 8" "drop 8 ?buf" path] c(3) by simp
    also have "\<dots> = strncmp_equal k (slice (idx + 8) k block) path"
      using ok strncmp_equal_take [of k k "slice (idx + 8) (n - 8) block" path] by (simp add: slice_def)
    finally have m: "strncmp_equal k (drop 8 ?buf) path = entry_matches path (de_inode de, slice (idx + 8) k block)"
      using ok "1.prems"(5) by (simp add: entry_matches_def)
    have "dirent_scan path ?buf (idx + n) = Some (case dir_lookup path es' of None \<Rightarrow> Absent | Some n \<Rightarrow> Found n)"
      using "1.IH" [OF True de_def n_def k_def _ rest, of ?buf] ok c(4,5) "1.prems"(5) by simp
    with True ok m show ?thesis
      by (simp add: dirent_scan.simps [of path buffer idx] Let_def c(1,2) defs es dir_lookup_def)
  qed
qed

section \<open>Directories\<close>

definition dir_blocks :: "ext2_inode \<Rightarrow> u32 list" where
  "dir_blocks dir = takeWhile (\<lambda>b. b \<noteq> 0) (take 13 (i_block dir))"

primrec dir_list :: "(nat \<Rightarrow> u8) \<Rightarrow> u32 list \<Rightarrow> (u32 \<times> bytes) list option" where
  "dir_list c [] = Some []"
| "dir_list c (b # bs) =
     (case dir_entries (bytes_at c (unat (block_pos b)) 1024) 0 of
        None \<Rightarrow> None
      | Some es \<Rightarrow> map_option (append es) (dir_list c bs))"

definition blocks_ok :: "'d disk_view \<Rightarrow> ('d, 'z) virtio_state_scheme \<Rightarrow> u32 list \<Rightarrow> bool" where
  "blocks_ok dv s bs = list_all (\<lambda>b. region_ok dv s (unat (block_pos b)) 1024) bs"

lemma dir_lookup_append:
  "dir_lookup path (xs @ ys) = (case dir_lookup path xs of None \<Rightarrow> dir_lookup path ys | Some n \<Rightarrow> Some n)"
  by (induction xs) (auto simp: dir_lookup_def)

text \<open>What looking up a name in a directory gives: the inode, if the name is there.\<close>

definition lookup_result ::
    "(nat \<Rightarrow> u8) \<Rightarrow> ext2_superblock \<Rightarrow> u32 option \<Rightarrow> ext2_inode \<Rightarrow> u32 option \<Rightarrow> bool \<times> ext2_inode \<times> u32 option" where
  "lookup_result c sb found inode ino =
     (case found of None \<Rightarrow> (False, inode, ino) | Some n \<Rightarrow> (True, inode_at c sb n, map_option (\<lambda>_. n) ino))"

lemma inode_from_dir_blocks_correct:
  assumes "fs_ready hw dv fr d s" and "length (uninit fr 1024) = 1024" and "length (encode_inode inode) \<le> 256"
    and "blocks_ok dv s (takeWhile (\<lambda>b. b \<noteq> 0) bs)"
    and "dir_list (disk_byte dv s) (takeWhile (\<lambda>b. b \<noteq> 0) bs) = Some es"
    and "\<And>n. dir_lookup path es = Some n \<Longrightarrow> inode_ok dv s sb n"
  shows "\<exists>t. inode_from_dir_blocks hw fr d sb path bs inode ino s =
      Ok (lookup_result (disk_byte dv s) sb (dir_lookup path es) inode ino) t \<and>
    fs_ready hw dv fr d t \<and> same_disk dv s t"
  using assms(1,4-6)
proof (induction bs arbitrary: s es)
  case Nil
  then show ?case by (auto simp: monad_simps lookup_result_def dir_lookup_def same_disk_def)
next
  case (Cons b bs)
  show ?case
  proof (cases "b = 0")
    case True
    with Cons.prems show ?thesis by (auto simp: monad_simps lookup_result_def dir_lookup_def same_disk_def)
  next
    case False
    let ?block = "bytes_at (disk_byte dv s) (unat (block_pos b)) 1024"
    from Cons.prems(3) False obtain es1 es2 where e1: "dir_entries ?block 0 = Some es1"
      and e2: "dir_list (disk_byte dv s) (takeWhile (\<lambda>b. b \<noteq> 0) bs) = Some es2" and es: "es = es1 @ es2"
      by (auto split: option.splits)
    have "region_ok dv s (unat (block_pos b)) (unat (1024 :: u64))" "unat (block_pos b) + unat (1024 :: u64) \<le> 2 ^ 64"
      using Cons.prems(2) False block_pos_less [of b] by (simp_all add: blocks_ok_def)
    then obtain t where rd: "virtio_blk_read_sync hw fr d (block_pos b) 1024 s = Ok (bytes_at (disk_byte dv s) (unat (block_pos b)) (unat (1024 :: u64))) t"
      and t: "fs_ready hw dv fr d t" "same_disk dv s t"
      by (rule read_region [OF Cons.prems(1)])
    have scan: "dirent_scan path ?block 0 = Some (case dir_lookup path es1 of None \<Rightarrow> Absent | Some n \<Rightarrow> Found n)"
      by (rule dirent_scan_correct [OF e1]) simp_all
    note same = same_disk_simps [OF t(2)] inode_ok_same [OF t(2)]
    show ?thesis
    proof (cases "dir_lookup path es1")
      case None
      have "blocks_ok dv t (takeWhile (\<lambda>b. b \<noteq> 0) bs)" using Cons.prems(2) False by (simp add: blocks_ok_def same)
      then obtain u where "inode_from_dir_blocks hw fr d sb path bs inode ino t =
          Ok (lookup_result (disk_byte dv s) sb (dir_lookup path es2) inode ino) u" "fs_ready hw dv fr d u" "same_disk dv t u"
        using Cons.IH [OF t(1)] e2 Cons.prems(4) None by (auto simp: same es dir_lookup_append)
      with False rd scan None assms(2) same_disk_trans [OF t(2)] show ?thesis
        by (auto simp: monad_simps es dir_lookup_append)
    next
      case (Some n)
      have "inode_ok dv t sb n" using Cons.prems(4) Some by (simp add: same es dir_lookup_append)
      then obtain u where "inode_from_ino hw fr d sb inode n t = Ok (True, inode_at (disk_byte dv t) sb n) u"
        "fs_ready hw dv fr d u" "same_disk dv t u"
        using inode_from_ino_ok [OF t(1) _ assms(3)] by blast
      with False rd scan Some assms(2) same_disk_trans [OF t(2)] show ?thesis
        by (auto simp: monad_simps es dir_lookup_append lookup_result_def same)
    qed
  qed
qed

section \<open>Paths\<close>

fun split_path :: "bytes \<Rightarrow> bytes list" where
  "split_path [] = [[]]"
| "split_path (c # cs) = (if c = slash then [] # split_path cs else (c # hd (split_path cs)) # tl (split_path cs))"

definition components :: "bytes \<Rightarrow> bytes list" where
  "components path = filter (\<lambda>x. x \<noteq> []) (split_path path)"

lemma split_path_not_Nil [simp]: "split_path p \<noteq> []"
  by (cases p) simp_all

lemma components_slash [simp]: "components (slash # p) = components p"
  by (simp add: components_def)

lemma components_skip: "components (dropWhile (\<lambda>c. c = slash) p) = components p"
  by (induction p) auto

lemma split_path_token:
  "split_path p = takeWhile (\<lambda>c. c \<noteq> slash) p #
     (case dropWhile (\<lambda>c. c \<noteq> slash) p of [] \<Rightarrow> [] | _ # r \<Rightarrow> split_path r)"
  by (induction p) (auto split: list.splits)

lemma components_token:
  assumes "p \<noteq> []" and "hd p \<noteq> slash"
  shows "components p = takeWhile (\<lambda>c. c \<noteq> slash) p # components (tl (dropWhile (\<lambda>c. c \<noteq> slash) p))"
proof -
  have t: "takeWhile (\<lambda>c. c \<noteq> slash) p \<noteq> []" using assms by (cases p) auto
  show ?thesis
  proof (cases "dropWhile (\<lambda>c. c \<noteq> slash) p")
    case Nil
    then have "split_path p = [takeWhile (\<lambda>c. c \<noteq> slash) p]" using split_path_token [of p] by (simp only: list.case)
    then show ?thesis unfolding Nil using t by (simp add: components_def)
  next
    case (Cons x r)
    then have "split_path p = takeWhile (\<lambda>c. c \<noteq> slash) p # split_path r" using split_path_token [of p] by (simp only: list.case)
    then show ?thesis unfolding Cons using t by (simp add: components_def)
  qed
qed

lemma strtok_components:
  "strtok path = None \<Longrightarrow> components path = []"
  "strtok path = Some (next, rest) \<Longrightarrow> components path = next # components rest"
proof -
  let ?p = "dropWhile (\<lambda>c. c = slash) path"
  have c: "components path = components ?p" by (simp add: components_skip)
  have nil: "components [] = []" by (simp add: components_def)
  have "strtok path = None \<Longrightarrow> ?p = []" by (simp add: strtok_def Let_def split: if_splits)
  then show "strtok path = None \<Longrightarrow> components path = []" using c nil by metis
  assume "strtok path = Some (next, rest)"
  then have p: "?p \<noteq> []" and n: "next = takeWhile (\<lambda>c. c \<noteq> slash) ?p" "rest = tl (dropWhile (\<lambda>c. c \<noteq> slash) ?p)"
    by (auto simp: strtok_def Let_def split: if_splits)
  have "hd ?p \<noteq> slash" using hd_dropWhile [OF p] by simp
  with p have "components ?p = next # components rest" unfolding n by (rule components_token)
  then show "components path = next # components rest" using c by (rule trans [rotated])
qed

text \<open>
  Following a list of components from a directory: the answer, or \<open>None\<close> when on the way there is a
  directory that cannot be read or is not well-formed.
\<close>

primrec resolve ::
    "'d disk_view \<Rightarrow> ('d, 'z) virtio_state_scheme \<Rightarrow> ext2_superblock \<Rightarrow> bytes list \<Rightarrow> ext2_inode \<Rightarrow> u32 option \<Rightarrow>
     (bool \<times> ext2_inode \<times> u32 option) option" where
  "resolve dv s sb [] inode ino = Some (True, inode, ino)"
| "resolve dv s sb (x # xs) inode ino =
     (if \<not> blocks_ok dv s (dir_blocks inode) then None
      else case dir_list (disk_byte dv s) (dir_blocks inode) of
        None \<Rightarrow> None
      | Some es \<Rightarrow> (case dir_lookup x es of
          None \<Rightarrow> Some (False, inode, ino)
        | Some n \<Rightarrow> if inode_ok dv s sb n
            then resolve dv s sb xs (inode_at (disk_byte dv s) sb n) (map_option (\<lambda>_. n) ino) else None))"

lemma resolve_same: "same_disk dv s t \<Longrightarrow> resolve dv t sb xs inode ino = resolve dv s sb xs inode ino"
proof (induction xs arbitrary: inode ino)
  case (Cons x xs)
  then show ?case
    by (simp add: blocks_ok_def same_disk_simps inode_ok_same split: option.split)
qed simp

lemma length_encode_inode_at: "length (encode_inode (inode_at c sb n)) \<le> 256"
  by (simp add: inode_at_def length_encode_inode_decode)

lemma path_walk_correct:
  assumes "fs_ready hw dv fr d s" and "length (uninit fr 1024) = 1024" and "length (encode_inode inode) \<le> 256"
    and "resolve dv s sb (components path) inode ino = Some res"
  shows "\<exists>t. path_walk hw fr d sb path inode ino s = Ok res t \<and> fs_ready hw dv fr d t \<and> same_disk dv s t"
  using assms(1,3,4)
proof (induction "length path" arbitrary: path inode ino s rule: less_induct)
  case less
  show ?case
  proof (cases "strtok path")
    case None
    with less.prems strtok_components(1) show ?thesis
      by (simp add: path_walk.simps [of hw fr d sb path] monad_simps same_disk_def)
  next
    case (Some p)
    then obtain x rest where tok: "strtok path = Some (x, rest)" by (cases p) simp
    have "components path = x # components rest" using tok by (rule strtok_components)
    with less.prems(3) obtain es where es: "blocks_ok dv s (dir_blocks inode)" "dir_list (disk_byte dv s) (dir_blocks inode) = Some es"
      and res: "(case dir_lookup x es of None \<Rightarrow> Some (False, inode, ino)
        | Some n \<Rightarrow> if inode_ok dv s sb n
            then resolve dv s sb (components rest) (inode_at (disk_byte dv s) sb n) (map_option (\<lambda>_. n) ino) else None) = Some res"
      by (auto split: if_splits option.splits)
    have "\<exists>t. inode_from_dir hw fr d sb x inode inode ino s =
        Ok (lookup_result (disk_byte dv s) sb (dir_lookup x es) inode ino) t \<and> fs_ready hw dv fr d t \<and> same_disk dv s t"
      unfolding inode_from_dir_def EXT2_MAX_DIRECT_BLOCKS_PER_INODE_def
      using es res by (intro inode_from_dir_blocks_correct [OF less.prems(1) assms(2) less.prems(2)])
        (auto simp: dir_blocks_def split: if_splits)
    then obtain t where dir: "inode_from_dir hw fr d sb x inode inode ino s =
        Ok (lookup_result (disk_byte dv s) sb (dir_lookup x es) inode ino) t"
      and t: "fs_ready hw dv fr d t" "same_disk dv s t" by blast
    show ?thesis
    proof (cases "dir_lookup x es")
      case None
      with tok dir t res show ?thesis
        by (auto simp: path_walk.simps [of hw fr d sb path] monad_simps lookup_result_def)
    next
      case (Some n)
      with res have "resolve dv t sb (components rest) (inode_at (disk_byte dv s) sb n) (map_option (\<lambda>_. n) ino) = Some res"
        by (simp add: resolve_same [OF t(2)] split: if_splits)
      with less.hyps [OF strtok_shorter [OF tok] t(1) length_encode_inode_at]
      obtain u where "path_walk hw fr d sb rest (inode_at (disk_byte dv s) sb n) (map_option (\<lambda>_. n) ino) t = Ok res u"
        "fs_ready hw dv fr d u" "same_disk dv t u" by blast
      with tok dir Some same_disk_trans [OF t(2)] show ?thesis
        by (auto simp: path_walk.simps [of hw fr d sb path] monad_simps lookup_result_def)
    qed
  qed
qed

end
