(* ===== verification/Ext2_Image.thy ===== *)
theory Ext2_Image
  imports Ext2_Dir
begin

text \<open>
  A small disk image on the reference device, for concrete runs of the file system: a group
  descriptor, a root directory (inode 2) with one entry, and a file (inode 3) of two blocks.
\<close>

definition ref_sb :: ext2_superblock where
  "ref_sb = (decode_superblock (replicate 1024 0))\<lparr>s_inodes_per_group := 16, s_inode_size := 256, s_rev_level := 1\<rparr>"

definition ref_bg :: ext2_blockgroup where
  "ref_bg = \<lparr>bg_block_bitmap = 3, bg_inode_bitmap = 4, bg_inode_table = 5, bg_free_blocks_count = 40,
     bg_free_inodes_count = 13, bg_used_dirs_count = 1, bg_pad = 0, bg_reserved = replicate 12 0\<rparr>"

definition ref_inode :: "u32 list \<Rightarrow> ext2_inode" where
  "ref_inode blocks = (decode_inode (replicate 256 0))\<lparr>i_block := blocks @ replicate (15 - length blocks) 0\<rparr>"

definition ref_dir :: bytes where
  "ref_dir = [2, 0, 0, 0, 12, 0, 1, 2, 46, 0, 0, 0] @ [3, 0, 0, 0, 0xF4, 3, 4, 1, 110, 111, 116, 101]"

definition ref_image :: "u64 \<Rightarrow> bytes" where
  "ref_image = (\<lambda>_. [])(4 := encode_blockgroup ref_bg, 10 := replicate 256 0 @ encode_inode (ref_inode [8]),
     11 := encode_inode (ref_inode [10, 11]), 16 := ref_dir)"

abbreviation ref_fs :: "ref_disk virtio_state" where
  "ref_fs \<equiv> ref_state ref_image 64"

abbreviation ref_content :: "nat \<Rightarrow> u8" where
  "ref_content \<equiv> disk_byte ref_view ref_fs"

lemma ref_fs_disk: "disk ref_view (ref_state img k) sec = take 512 (img sec @ replicate 512 0)"
  by (simp add: ref_view_def ref_state_def heap_init_def ref_bus_def heap_state.defs virtio_state.defs)

lemma ref_fs_ok: "p < 512 * 64 \<Longrightarrow> disk_ok ref_view (ref_state img 64) p"
proof -
  assume "p < 512 * 64"
  then have "unat (of_nat (p div 512) :: u64) < 64"
    by (subst unat_of_nat_small) (auto simp: div_less_iff_less_mult)
  then show ?thesis
    by (simp add: disk_ok_def ref_view_def ref_state_def heap_init_def ref_bus_def heap_state.defs
      virtio_state.defs word_less_nat_alt)
qed

lemma ref_region_ok: "p + n \<le> 512 * 64 \<Longrightarrow> region_ok ref_view (ref_state img 64) p n"
  by (simp add: region_ok_def ref_fs_ok)

lemma ref_bytes:
  assumes "p div 512 = k" and "p mod 512 + n \<le> 512" and "p + n \<le> 2 ^ 64"
  shows "bytes_at (disk_byte ref_view (ref_state img 64)) p n = slice (p mod 512) n (take 512 (img (of_nat k) @ replicate 512 0))"
  using sector_slice [of ref_view "ref_state img 64" p n] assms by (simp add: ref_fs_disk)

lemma length_encode_blockgroup: "length (bg_reserved bg) = 12 \<Longrightarrow> length (encode_blockgroup bg) = 32"
  by (simp add: encode_blockgroup_def)

lemma decode_encode_blockgroup: "length (bg_reserved bg) = 12 \<Longrightarrow> decode_blockgroup (encode_blockgroup bg) = bg"
  by (simp add: decode_blockgroup_def encode_blockgroup_def slice_skip slice_hit le_word_le_bytes)

lemma inode_wf_ref: "length bs \<le> 15 \<Longrightarrow> inode_wf (ref_inode bs)"
  by (simp add: inode_wf_def ref_inode_def decode_inode_def)

lemma ref_bg_at: "bg_at ref_content 0 = ref_bg"
proof -
  have "bytes_at ref_content (bg_pos 0) 32 = encode_blockgroup ref_bg"
    using ref_bytes [of "bg_pos 0" 4 32]
    by (simp add: bg_pos_def ref_image_def slice_hit length_encode_blockgroup ref_bg_def)
  then show ?thesis by (simp add: bg_at_def decode_encode_blockgroup ref_bg_def)
qed

lemma ref_ino_pos: "ino_pos ref_content ref_sb 2 = 5376" "ino_pos ref_content ref_sb 3 = 5632"
  by (simp_all add: ino_pos_def ino_group_def ref_sb_def ref_bg_at)
    (simp_all add: ref_bg_def block_pos_def EXT2_SUPPORTED_BLOCK_SIZE_def)

lemma ref_inode_at: "inode_at ref_content ref_sb 2 = ref_inode [8]" "inode_at ref_content ref_sb 3 = ref_inode [10, 11]"
proof -
  have "length (encode_inode (ref_inode [8])) = 256" "length (encode_inode (ref_inode [10, 11])) = 256"
    by (simp_all add: length_encode_inode inode_wf_ref)
  then have "bytes_at ref_content 5376 256 = encode_inode (ref_inode [8])"
    "bytes_at ref_content 5632 256 = encode_inode (ref_inode [10, 11])"
    using ref_bytes [of 5376 10 256] ref_bytes [of 5632 11 256] by (simp_all add: ref_image_def slice_hit slice_skip)
  then show "inode_at ref_content ref_sb 2 = ref_inode [8]" "inode_at ref_content ref_sb 3 = ref_inode [10, 11]"
    by (simp_all add: inode_at_def ref_ino_pos decode_encode_inode inode_wf_ref)
qed

lemma ref_inode_ok: "inode_ok ref_view ref_fs ref_sb 2" "inode_ok ref_view ref_fs ref_sb 3"
  by (simp_all add: inode_ok_def ref_ino_pos ref_region_ok bg_pos_def ino_group_def)
    (simp_all add: ref_sb_def ref_region_ok)

lemma ref_fs_ready: "blk_ready (ref_hw ref_vring) ref_view 1 ref_fs \<and> frame_ok ref_frame (blk_buf ref_frame)"
  using ref_state_ready ref_frame_ok by (rule conjI)

end
