(* ===== verification/Filesystem.thy ===== *)
theory Filesystem
  imports Ext2_Image
begin

text \<open>
  What the file system promises: where inodes are found, that time stamps, reads and writes touch
  what they should and nothing else, and how names are looked up.  Every statement is about a
  machine whose block device meets its specification (\<open>fs_ready\<close>) and comes with a run on the image
  of \<open>Ext2_Image\<close>.
\<close>

section \<open>Inodes\<close>



text \<open>
  When the group descriptor and the inode are in good sectors, \<open>inode_from_ino\<close> succeeds with the
  256 bytes found as ext2 prescribes: at the block that the descriptor of group
  \<open>(ino - 1) div inodes_per_group\<close> names as inode table, plus 256 bytes for each of the
  \<open>(ino - 1) mod inodes_per_group\<close> inodes before.  The block number must be below \<open>2 ^ 22\<close>, because the
  code multiplies it by the block size in 32 bits.  The disk is not changed.
\<close>

theorem inode_from_ino_correct:
  assumes "fs_ready hw dv fr d s" and "inode_ok dv s sb ino" and "inode_wf old"
    and "unat (bg_inode_table (bg_at (disk_byte dv s) ((ino - 1) div s_inodes_per_group sb))) < 2 ^ 22"
  shows "\<exists>t. inode_from_ino hw fr d sb old ino s = Ok (True, decode_inode (bytes_at (disk_byte dv s)
      (1024 * unat (bg_inode_table (bg_at (disk_byte dv s) ((ino - 1) div s_inodes_per_group sb))) +
       256 * unat ((ino - 1) mod s_inodes_per_group sb)) 256)) t \<and> fs_ready hw dv fr d t \<and> same_disk dv s t"
proof -
  let ?b = "bg_inode_table (bg_at (disk_byte dv s) ((ino - 1) div s_inodes_per_group sb))"
  have "unat (?b * 1024) = unat ?b * 1024"
    using assms(4) by (subst unat_mult_lem [THEN iffD1]) simp_all
  then have "unat (block_pos ?b) = 1024 * unat ?b"
    by (simp add: block_pos_def EXT2_SUPPORTED_BLOCK_SIZE_def unat_ucast_up)
  moreover have "length (encode_inode old) \<le> 256" using length_encode_inode [OF assms(3)] by simp
  ultimately show ?thesis
    using inode_from_ino_ok [OF assms(1,2), of old] by (simp add: inode_at_def ino_pos_def ino_group_def) blast
qed

theorem inode_from_ino_correct_witness:
  "\<exists>t. inode_from_ino (ref_hw ref_vring) ref_frame 1 ref_sb (ref_inode []) 3 ref_fs = Ok (True, ref_inode [10, 11]) t"
proof -
  have p: "(2 :: u32) div s_inodes_per_group ref_sb = 0" "(2 :: u32) mod s_inodes_per_group ref_sb = 2"
    by (simp_all add: ref_sb_def)
  have b: "bg_inode_table (bg_at ref_content 0) = 5" by (simp add: ref_bg_at) (simp add: ref_bg_def)
  have "decode_inode (bytes_at ref_content 5632 256) = ref_inode [10, 11]"
    using ref_inode_at(2) by (simp add: inode_at_def ref_ino_pos)
  then show ?thesis
    using inode_from_ino_correct [OF ref_fs_ready ref_inode_ok(2) inode_wf_ref [of "[]"]] by (auto simp: p b)
qed

text \<open>
  C38.  Setting the access, change or modification time of an inode replaces exactly the four bytes of
  that field on the disk (at offsets 8, 12 and 16 of the inode) by the little-endian time, and
  no other byte of the disk.
\<close>

theorem set_times_correct:
  assumes "fs_ready hw dv fr d s" and "inode_ok dv s sb ino"
  shows "(\<exists>t. set_atime_for_ino hw fr d sb ino w s = Ok True t \<and> fs_ready hw dv fr d t \<and>
      wrote_disk dv (ino_pos (disk_byte dv s) sb ino + 8) (le_bytes 4 w) s t) \<and>
    (\<exists>t. set_ctime_for_ino hw fr d sb ino w s = Ok True t \<and> fs_ready hw dv fr d t \<and>
      wrote_disk dv (ino_pos (disk_byte dv s) sb ino + 12) (le_bytes 4 w) s t) \<and>
    (\<exists>t. set_mtime_for_ino hw fr d sb ino w s = Ok True t \<and> fs_ready hw dv fr d t \<and>
      wrote_disk dv (ino_pos (disk_byte dv s) sb ino + 16) (le_bytes 4 w) s t)"
  using set_times_ok [OF assms, of w] by blast

theorem set_times_correct_witness:
  "\<exists>t. set_mtime_for_ino (ref_hw ref_vring) ref_frame 1 ref_sb 3 0x01020304 ref_fs = Ok True t \<and>
    disk_byte ref_view t = overwrite 5648 [4, 3, 2, 1] ref_content"
proof -
  have "le_bytes 4 (0x01020304 :: u32) = [4, 3, 2, 1]" by (simp add: le_bytes_def upt_conv_Cons)
  then show ?thesis
    using set_times_correct [OF ref_fs_ready ref_inode_ok(2), of "0x01020304"] by (auto simp: wrote_disk_def ref_ino_pos)
qed

section \<open>Files\<close>

text \<open>
  C8.  \<open>read_from_ino\<close> on a range within the fifteen blocks of an inode returns and puts into the
  buffer the bytes of the file from \<open>offset\<close> on, block by block through the block numbers of the
  inode, up to the first byte that the device refuses.  The count it returns is the whole length
  if there is no such byte, and never more than what is in the buffer.  The disk is unchanged.
\<close>

theorem read_from_ino_correct:
  assumes "fs_ready hw dv fr d s" and "inode_ok dv s sb ino" and "unat offset + unat len \<le> 15 * 1024"
  shows "\<exists>n r t. read_from_ino hw fr d sb ino offset len s =
      Ok (n, bytes_at (file_byte dv s (inode_at (disk_byte dv s) sb ino)) (unat offset) r) t \<and>
    stops_after (file_ok dv s (inode_at (disk_byte dv s) sb ino)) (unat offset) (unat len) r \<and>
    unat n \<le> r \<and> (r = unat len \<longrightarrow> n = len) \<and> fs_ready hw dv fr d t \<and> same_disk dv s t"
  by (rule read_from_ino_run [OF assms]) blast

theorem read_from_ino_correct_witness:
  "\<exists>n r t. read_from_ino (ref_hw ref_vring) ref_frame 1 ref_sb 3 1000 100 ref_fs =
      Ok (n, bytes_at (file_byte ref_view ref_fs (ref_inode [10, 11])) 1000 r) t \<and>
    stops_after (file_ok ref_view ref_fs (ref_inode [10, 11])) 1000 100 r"
  using read_from_ino_correct [OF ref_fs_ready ref_inode_ok(2), of 1000 100] by (auto simp: ref_inode_at)

text \<open>
  C7.  \<open>write_to_ino\<close> on a range within the fifteen blocks, no two positions of which are the same
  byte of the disk, writes the input to the file positions from \<open>offset\<close> on, up to the first byte
  that the device refuses, and changes no other byte of the disk.  It returns the whole length
  if everything was written, and never more than what was.
\<close>

theorem write_to_ino_correct:
  assumes "fs_ready hw dv fr d s" and "inode_ok dv s sb ino" and "unat offset + unat len \<le> 15 * 1024"
    and "unat len \<le> length buffer"
    and "inj_on (file_pos (inode_at (disk_byte dv s) sb ino)) {unat offset..<unat offset + unat len}"
  shows "\<exists>n r t. write_to_ino hw fr d sb ino buffer offset len s = Ok n t \<and>
    file_written (file_pos (inode_at (disk_byte dv s) sb ino)) (unat offset) (take r buffer) (disk_byte dv s) (disk_byte dv t) \<and>
    stops_after (file_ok dv s (inode_at (disk_byte dv s) sb ino)) (unat offset) (unat len) r \<and>
    unat n \<le> r \<and> (r = unat len \<longrightarrow> n = len) \<and> fs_ready hw dv fr d t \<and> io_only s t"
  by (rule write_to_ino_run [OF assms]) blast

lemma ref_file_pos: "p < 2048 \<Longrightarrow> file_pos (ref_inode [10, 11]) p = 10240 + p"
proof -
  assume p: "p < 2048"
  show ?thesis
  proof (cases "p < 1024")
    case False
    then obtain q where "p = 1024 + q" "q < 1024" using p by (metis add.commute le_Suc_ex not_less nat_add_left_cancel_less
      numeral_Bit0)
    then show ?thesis by (simp add: file_pos_def ref_inode_def block_pos_def EXT2_SUPPORTED_BLOCK_SIZE_def)
  qed (simp add: file_pos_def ref_inode_def block_pos_def EXT2_SUPPORTED_BLOCK_SIZE_def)
qed

lemma ref_file_inj: "b \<le> 2048 \<Longrightarrow> inj_on (file_pos (ref_inode [10, 11])) {a..<b}"
  by (rule inj_onI) (simp add: ref_file_pos)

theorem write_to_ino_correct_witness:
  "\<exists>n r t. write_to_ino (ref_hw ref_vring) ref_frame 1 ref_sb 3 (replicate 100 9) 1000 100 ref_fs = Ok n t \<and>
    file_written (file_pos (ref_inode [10, 11])) 1000 (take r (replicate 100 9)) ref_content (disk_byte ref_view t) \<and>
    stops_after (file_ok ref_view ref_fs (ref_inode [10, 11])) 1000 100 r"
  using write_to_ino_correct [OF ref_fs_ready ref_inode_ok(2), of 1000 100 "replicate 100 9"]
  by (auto simp: ref_inode_at ref_file_inj)

text \<open>
  A file reads back what was written to it: if all bytes involved are in good sectors, and the
  written range of the file overlaps neither the group descriptor nor the inode itself, then
  after \<open>write_to_ino\<close> has written the whole input a \<open>read_from_ino\<close> of the same range returns it.
\<close>

theorem file_write_read_roundtrip:
  assumes "fs_ready hw dv fr d s" and "inode_ok dv s sb ino" and "unat offset + unat len \<le> 15 * 1024"
    and "unat len = length buffer"
    and "inj_on (file_pos (inode_at (disk_byte dv s) sb ino)) {unat offset..<unat offset + unat len}"
    and "\<forall>p \<in> {unat offset..<unat offset + unat len}. file_ok dv s (inode_at (disk_byte dv s) sb ino) p"
    and "file_pos (inode_at (disk_byte dv s) sb ino) ` {unat offset..<unat offset + unat len} \<inter>
      ({bg_pos (ino_group sb ino)..<bg_pos (ino_group sb ino) + 32} \<union>
       {ino_pos (disk_byte dv s) sb ino..<ino_pos (disk_byte dv s) sb ino + 256}) = {}"
  shows "\<exists>t u. write_to_ino hw fr d sb ino buffer offset len s = Ok len t \<and>
    read_from_ino hw fr d sb ino offset len t = Ok (len, buffer) u \<and> same_disk dv t u"
proof -
  let ?i = "inode_at (disk_byte dv s) sb ino" and ?c = "disk_byte dv s"
  have buf: "unat len \<le> length buffer" using assms(4) by simp
  obtain n r t where wr: "write_to_ino hw fr d sb ino buffer offset len s = Ok n t"
    and t: "fs_ready hw dv fr d t" "disk_ok dv t = disk_ok dv s" and n: "r = unat len \<longrightarrow> n = len"
    and fw: "file_written (file_pos ?i) (unat offset) (take r buffer) ?c (disk_byte dv t)"
    and r: "stops_after (file_ok dv s ?i) (unat offset) (unat len) r"
    using write_to_ino_run [OF assms(1-3) buf assms(5)] by blast
  have r: "r = unat len" using stops_after_all [OF r] assms(6) by simp
  then have fw: "file_written (file_pos ?i) (unat offset) buffer ?c (disk_byte dv t)" using fw assms(4) by simp
  have bg: "bytes_at (disk_byte dv t) (bg_pos (ino_group sb ino)) 32 = bytes_at ?c (bg_pos (ino_group sb ino)) 32"
    by (rule file_written_outside [OF fw]) (use assms(4,7) in auto)
  have "bytes_at (disk_byte dv t) (ino_pos ?c sb ino) 256 = bytes_at ?c (ino_pos ?c sb ino) 256"
    by (rule file_written_outside [OF fw]) (use assms(4,7) in auto)
  note same = inode_at_unchanged [OF bg this]
  have "inode_ok dv t sb ino" using assms(2) by (simp add: inode_ok_def same region_ok_def t(2))
  then obtain m k u where rd: "read_from_ino hw fr d sb ino offset len t = Ok (m, bytes_at (file_byte dv t ?i) (unat offset) k) u"
    and u: "same_disk dv t u" and m: "k = unat len \<longrightarrow> m = len"
    and k: "stops_after (file_ok dv t ?i) (unat offset) (unat len) k"
    using read_from_ino_run [OF t(1) _ assms(3), of sb ino] unfolding same(2) by blast
  have "k = unat len" using stops_after_all [OF k] assms(6) by (simp add: t(2))
  moreover have "bytes_at (file_byte dv t ?i) (unat offset) (unat len) = buffer"
    using fw assms(4) by (intro nth_equalityI) (simp_all add: nth_bytes_at file_written_def)
  ultimately show ?thesis using wr rd u m n r by auto
qed

theorem file_write_read_roundtrip_witness:
  "\<exists>t u. write_to_ino (ref_hw ref_vring) ref_frame 1 ref_sb 3 (replicate 100 9) 1000 100 ref_fs = Ok 100 t \<and>
    read_from_ino (ref_hw ref_vring) ref_frame 1 ref_sb 3 1000 100 t = Ok (100, replicate 100 9) u \<and> same_disk ref_view t u"
proof (rule file_write_read_roundtrip [OF ref_fs_ready ref_inode_ok(2)])
  have g: "bg_pos (ino_group ref_sb 3) = 2048" by (simp add: bg_pos_def ino_group_def) (simp add: ref_sb_def)
  have "file_pos (ref_inode [10, 11]) ` {1000..<1100} \<subseteq> {11240..<11340}" by (auto simp: ref_file_pos)
  then show "file_pos (inode_at ref_content ref_sb 3) ` {unat (1000 :: u64)..<unat (1000 :: u64) + unat (100 :: u64)} \<inter>
      ({bg_pos (ino_group ref_sb 3)..<bg_pos (ino_group ref_sb 3) + 32} \<union>
       {ino_pos ref_content ref_sb 3..<ino_pos ref_content ref_sb 3 + 256}) = {}"
    by (auto simp: ref_inode_at ref_ino_pos g)
qed (auto simp: ref_inode_at ref_file_inj ref_file_pos ref_fs_ok)

section \<open>Names\<close>

text \<open>
  C19.  Scanning a well-formed directory block finds the first entry whose name is a prefix of the
  name looked for, and reports that there is none otherwise; it always ends and stays inside the
  buffer, although it copies every entry over the ones before.  An entry is well-formed if its
  length covers its header and name and it lies in the block.  (ext2 asks for equal names: a
  name that merely begins with the name of an entry is found as well.)
\<close>

theorem dirent_scan_finds_prefix:
  assumes "length block = 1024" and "dir_entries block 0 = Some es" and "\<forall>(n, name) \<in> set es. 0 \<notin> set name"
  shows "dirent_scan path block 0 =
    Some (case find (\<lambda>(n, name). take (length name) path = name) es of None \<Rightarrow> Absent | Some (n, name) \<Rightarrow> Found n)"
proof -
  have "find (entry_matches path) es = find (\<lambda>(n, name). take (length name) path = name) es"
    using assms(3) by (intro find_cong) (auto simp: entry_matches_def strncmp_equal_prefix)
  then show ?thesis
    using dirent_scan_correct [OF assms(2), of block path] assms(1)
    by (auto simp: dir_lookup_def split: option.splits)
qed

lemma ref_dir_entries:
  "dir_entries (ref_dir @ replicate 1000 0) 0 = Some [(2, [46]), (3, [110, 111, 116, 101])]"
proof -
  have a: "decode_dirent (ref_dir @ replicate 1000 0) =
      \<lparr>de_inode = 2, de_rec_len = 12, de_name_len = 1, de_file_type = 2\<rparr>"
    by (simp add: decode_dirent_def ref_dir_def slice_def)
  have b: "decode_dirent (drop 12 (ref_dir @ replicate 1000 0)) =
      \<lparr>de_inode = 3, de_rec_len = 1012, de_name_len = 4, de_file_type = 1\<rparr>"
    by (simp add: decode_dirent_def ref_dir_def slice_def)
  have "dir_entries (ref_dir @ replicate 1000 0) 1024 = Some []" by (simp add: dir_entries.simps)
  then have "dir_entries (ref_dir @ replicate 1000 0) 12 = Some [(3, slice 20 4 (ref_dir @ replicate 1000 0))]"
    by (simp add: dir_entries.simps [of _ 12] b Let_def del: drop_append)
  then show ?thesis
    by (simp add: dir_entries.simps [of _ 0] a Let_def) (simp add: ref_dir_def slice_def)
qed

theorem dirent_scan_finds_prefix_witness:
  "dirent_scan [110, 111, 116, 101] (ref_dir @ replicate 1000 0) 0 = Some (Found 3) \<and>
   dirent_scan [110, 111, 116, 101, 115] (ref_dir @ replicate 1000 0) 0 = Some (Found 3) \<and>
   dirent_scan [110, 111] (ref_dir @ replicate 1000 0) 0 = Some Absent"
proof -
  have "length (ref_dir @ replicate 1000 (0 :: u8)) = 1024" by (simp add: ref_dir_def)
  note f = dirent_scan_finds_prefix [OF this ref_dir_entries]
  show ?thesis using f [of "[110, 111, 116, 101]"] f [of "[110, 111, 116, 101, 115]"] f [of "[110, 111]"] by simp
qed

lemma ino_from_path_run:
  assumes "fs_ready hw dv fr d s" and "length (uninit fr 1024) = 1024" and "inode_ok dv s sb 2"
    and "resolve dv s sb (components path) (inode_at (disk_byte dv s) sb 2) ino = Some (found, inode, ino')"
  shows "\<exists>t. ino_from_path hw fr d sb path ino s = Ok (found, ino') t \<and> fs_ready hw dv fr d t \<and> same_disk dv s t"
proof -
  obtain t where get: "inode_from_ino hw fr d sb (decode_inode (uninit fr 256)) 2 s = Ok (True, inode_at (disk_byte dv s) sb 2) t"
    and t: "fs_ready hw dv fr d t" "same_disk dv s t"
    by (rule inode_from_ino_ok [OF assms(1,3) length_encode_inode_decode])
  have "resolve dv t sb (components path) (inode_at (disk_byte dv s) sb 2) ino = Some (found, inode, ino')"
    using assms(4) by (simp add: resolve_same [OF t(2)])
  then obtain u where "path_walk hw fr d sb path (inode_at (disk_byte dv s) sb 2) ino t = Ok (found, inode, ino') u"
    and "fs_ready hw dv fr d u" and "same_disk dv t u"
    using path_walk_correct [OF t(1) assms(2) length_encode_inode_at] by blast
  with get same_disk_trans [OF t(2)] show ?thesis by (auto simp: ino_from_path_def monad_simps)
qed

text \<open>
  C6.  Looking up a path follows its components (the non-empty parts between slashes) from the
  root directory, inode 2, through the directories' entries, and gives the number of the last
  inode found, or failure where a component is missing.  The variable for the inode number keeps
  its old value if the path has no component.
\<close>

theorem ino_from_path_correct:
  assumes "fs_ready hw dv fr d s" and "length (uninit fr 1024) = 1024" and "inode_ok dv s sb 2"
    and "resolve dv s sb (components path) (inode_at (disk_byte dv s) sb 2) ino = Some (found, inode, ino')"
  shows "\<exists>t. ino_from_path hw fr d sb path ino s = Ok (found, ino') t \<and> fs_ready hw dv fr d t \<and> same_disk dv s t"
  using ino_from_path_run [OF assms] .

lemma ref_root_block: "bytes_at ref_content 8192 1024 = ref_dir @ replicate 1000 0"
proof -
  have "bytes_at ref_content 8192 512 = ref_dir @ replicate 488 0" "bytes_at ref_content 8704 512 = replicate 512 0"
    using ref_bytes [of 8192 16 512] ref_bytes [of 8704 17 512]
    by (simp_all add: ref_image_def slice_def) (simp_all add: ref_dir_def)
  then show ?thesis
    using bytes_at_append [of ref_content 8192 512 512] by (simp flip: replicate_add)
qed

lemma ref_resolve:
  "resolve ref_view ref_fs ref_sb (components [47, 47, 110, 111, 116, 101]) (inode_at ref_content ref_sb 2) (Some 0) =
     Some (True, ref_inode [10, 11], Some 3)"
proof -
  have blocks: "dir_blocks (ref_inode [8]) = [8]" by (simp add: dir_blocks_def ref_inode_def)
  have pos: "unat (block_pos 8) = 8192" by (simp add: block_pos_def EXT2_SUPPORTED_BLOCK_SIZE_def)
  have comps: "components [47, 47, 110, 111, 116, 101] = [[110, 111, 116, 101]]"
    by (simp add: components_def slash_def)
  have look: "dir_lookup [110, 111, 116, 101] [(2, [46]), (3, [110, 111, 116, 101])] = Some 3"
    by (simp add: dir_lookup_def entry_matches_def char_at_def)
  show ?thesis
    by (simp add: comps ref_inode_at blocks blocks_ok_def pos ref_region_ok ref_root_block ref_dir_entries look ref_inode_ok
      del: append_assoc)
qed

lemma ref_uninit: "length (uninit ref_frame 1024) = 1024"
  by (simp add: ref_frame_def)

theorem ino_from_path_correct_witness:
  "\<exists>t. ino_from_path (ref_hw ref_vring) ref_frame 1 ref_sb [47, 47, 110, 111, 116, 101] (Some 0) ref_fs = Ok (True, Some 3) t"
  using ino_from_path_correct [OF ref_fs_ready ref_uninit ref_inode_ok(1) ref_resolve] by blast

text \<open>
  An entry whose length field is zero, as on a damaged disk, stops the system: if the name
  looked for does not match it, the scan never ends.
\<close>

theorem dirent_scan_zero_length:
  assumes "length buffer = 1024" and "de_rec_len (decode_dirent buffer) = 0"
    and "\<not> strncmp_equal (unat (de_name_len (decode_dirent buffer))) (drop 8 buffer) path"
  shows "dirent_scan path buffer 0 = None"
proof (rule ccontr)
  assume "dirent_scan path buffer 0 \<noteq> None"
  then obtain r where "dirent_scan path buffer 0 = Some r" by blast
  moreover have "\<not> (p = path \<and> b = buffer \<and> i = 0)" if "dirent_scan p b i = Some y" for p b i y
    using that
  proof (rule dirent_scan.raw_induct [rotated])
    fix f p b i y
    assume IH: "\<And>p b i y. f p b i = Some y \<Longrightarrow> \<not> (p = path \<and> b = buffer \<and> i = 0)"
      and eq: "(if i < 1024 then if i + 8 > 1024 then Some Overrun
         else let buffer = copy_down i 8 b; rec_len = unat (de_rec_len (decode_dirent buffer)) in
           if i + rec_len > 1024 then Some Overrun
           else let buffer = copy_down i rec_len buffer; de = decode_dirent buffer in
             if strncmp_equal (unat (de_name_len de)) (drop 8 buffer) p then Some (Found (de_inode de))
             else f p buffer (i + unat (de_rec_len de))
       else Some Absent) = Some y"
    have "copy_down 0 8 buffer = buffer" "copy_down 0 0 buffer = buffer" by (simp_all add: copy_down_def slice_def)
    with assms eq IH [of path buffer 0 y] show "\<not> (p = path \<and> b = buffer \<and> i = 0)"
      by (intro notI, elim conjE, hypsubst) (simp add: Let_def)
  qed
  ultimately show False by blast
qed

theorem dirent_scan_zero_length_witness: "dirent_scan [110] ([9, 0, 0, 0, 0, 0, 1, 1, 65] @ replicate 1015 0) 0 = None"
proof (rule dirent_scan_zero_length)
  show "de_rec_len (decode_dirent ([9, 0, 0, 0, 0, 0, 1, 1, 65] @ replicate 1015 0)) = 0"
    by (simp add: decode_dirent_def slice_def)
  show "\<not> strncmp_equal (unat (de_name_len (decode_dirent ([9, 0, 0, 0, 0, 0, 1, 1, 65] @ replicate 1015 0))))
      (drop 8 ([9, 0, 0, 0, 0, 0, 1, 1, 65] @ replicate 1015 0)) [110]"
    by (simp add: decode_dirent_def slice_def char_at_def)
qed simp

section \<open>Superblock and blocks\<close>

lemma actual_block_size_1024: "actual_block_size log = 1024 \<longleftrightarrow> log mod 32 = 0"
proof
  assume a: "actual_block_size log = 1024"
  define k where "k = unat (log mod 32)"
  have "bit (1024 :: u64) 10" by simp
  then have "bit (scast (push_bit k (1024 :: u32)) :: u64) 10" using a by (simp add: actual_block_size_def k_def)
  then have "bit (push_bit k (1024 :: u32)) 10" by (simp add: bit_signed_iff)
  then have "k \<le> 10" "bit (1024 :: u32) (10 - k)" by (simp_all add: bit_push_bit_iff)
  moreover have "bit (1024 :: u32) n \<longleftrightarrow> n = 10" for n
    using bit_exp_iff [of 10 n, where 'a = u32] by auto
  ultimately have "k = 0" by auto
  then show "log mod 32 = 0" by (simp add: k_def unat_eq_0)
qed (simp add: actual_block_size_def)

lemma fs_ready_console [simp]: "blk_ready hw dv d (s\<lparr>console := x\<rparr>) = blk_ready hw dv d s"
  by (simp add: blk_ready_def vring_at_def)

lemma read_superblock_run:
  assumes "fs_ready hw dv fr d s" and "region_ok dv s 1024 1024" and "length (encode_superblock old) \<le> 1024"
    and "sb = decode_superblock (bytes_at (disk_byte dv s) 1024 1024)"
  shows "\<exists>t. read_superblock hw fr d old s = Ok (s_log_block_size sb mod 32 = 0 \<and> s_inode_size sb = 256, sb) t \<and>
    fs_ready hw dv fr d t \<and> disk_byte dv t = disk_byte dv s \<and> disk_ok dv t = disk_ok dv s \<and>
    (console t = console s \<longleftrightarrow> s_log_block_size sb mod 32 = 0 \<and> s_inode_size sb = 256 \<and> s_rev_level sb = 1)"
proof -
  obtain t where "virtio_blk_read_sync hw fr d 1024 1024 s = Ok (bytes_at (disk_byte dv s) 1024 1024) t"
    and t: "fs_ready hw dv fr d t" "same_disk dv s t"
    using read_region [OF assms(1), of 1024 1024] assms(2) by auto
  moreover have "console t = console s" "disk_byte dv t = disk_byte dv s" "disk_ok dv t = disk_ok dv s" using t(2) by (auto simp: same_disk_def io_only_def)
  moreover have "disk_byte dv (t\<lparr>console := x\<rparr>) = disk_byte dv t" "disk_ok dv (t\<lparr>console := x\<rparr>) = disk_ok dv t" for x
    by (simp_all add: disk_byte_def disk_ok_def fun_eq_iff)
  ultimately show ?thesis
    using assms(3) by (simp add: read_superblock_def monad_simps Let_def actual_block_size_1024 flip: assms(4))
qed

text \<open>
  C40.  \<open>read_superblock\<close> fills in the 1024 bytes at position 1024 of the disk and accepts them exactly if
  the block size is 1024 (as far as the processor looks at the shift amount) and the inode
  size is 256; a revision level other than 1 is reported on the console but accepted.
\<close>

theorem read_superblock_correct:
  assumes "fs_ready hw dv fr d s" and "region_ok dv s 1024 1024" and "length (encode_superblock old) \<le> 1024"
    and "sb = decode_superblock (bytes_at (disk_byte dv s) 1024 1024)"
  shows "\<exists>t. read_superblock hw fr d old s = Ok (s_log_block_size sb mod 32 = 0 \<and> s_inode_size sb = 256, sb) t \<and>
    fs_ready hw dv fr d t \<and> disk_byte dv t = disk_byte dv s \<and>
    (console t = console s \<longleftrightarrow> s_log_block_size sb mod 32 = 0 \<and> s_inode_size sb = 256 \<and> s_rev_level sb = 1)"
  using read_superblock_run [OF assms] by (elim exE conjE) (intro exI conjI)

theorem read_superblock_correct_witness:
  "\<exists>t. read_superblock (ref_hw ref_vring) ref_frame 1 ref_sb ref_fs =
      Ok (False, decode_superblock (bytes_at ref_content 1024 1024)) t \<and>
    disk_byte ref_view t = ref_content"
proof -
  have "bytes_at ref_content 1024 512 = replicate 512 0" "bytes_at ref_content 1536 512 = replicate 512 0"
    using ref_bytes [of 1024 2 512] ref_bytes [of 1536 3 512] by (simp_all add: ref_image_def slice_def)
  then have "bytes_at ref_content 1024 1024 = replicate 1024 0"
    using bytes_at_append [of ref_content 1024 512 512] by (simp flip: replicate_add)
  then have "s_inode_size (decode_superblock (bytes_at ref_content 1024 1024)) = 0"
    by (simp add: decode_superblock_def slice_def numeral_eq_Suc)
  moreover have "length (encode_superblock ref_sb) \<le> 1024"
    by (simp add: encode_superblock_def ref_sb_def decode_superblock_def)
  ultimately show ?thesis
    using read_superblock_correct [OF ref_fs_ready _ _ refl, of ref_sb] by (auto simp: ref_region_ok)
qed

end
