(* ===== verification/System.thy ===== *)
theory System
  imports Filesystem
begin

text \<open>
  Time and waiting (src/system.c, src/os.c, include/os.h, and \<open>timer_interrupt_handler\<close>,
  \<open>demand_s\<close> and \<open>nanosleep_s\<close> of src/strap_handler.c).  The timer compare register and its
  shadow, the deferred kernel work and the sleeping process are part of the state.  A deferred
  function is a code address; what calling it does is a parameter (\<open>call\<close>), since no code of the
  kernel registers one.
\<close>

section \<open>State\<close>

record sleep =
  wakeup_time :: u64
  should_wake :: u64
  cookie :: u64
  deferred_f :: u64

record process =
  brk :: u64
  tid_set :: u64
  clear_child_tid :: u64
  asleep :: sleep

record kernel =
  deferred :: sleep

record 'd os_state = "'d virtio_state" +
  shadow_stime :: u64
  stimecmp :: u64
  current :: process
  kernel :: kernel
  dl_random_bytes :: u64

section \<open>The timer\<close>

definition STIME_UNSET :: u64 where
  "STIME_UNSET = - 1"

definition set_stimecmp :: "u64 \<Rightarrow> (('d, 'z) os_state_scheme, unit) kernel_op" where
  "set_stimecmp future = (\<lambda>s.
     if future \<noteq> STIME_UNSET \<and> shadow_stime s \<noteq> STIME_UNSET \<and> shadow_stime s < future then Ok () s
     else Ok () (s\<lparr>shadow_stime := future, stimecmp := future\<rparr>))"

definition unset_stimecmp :: "(('d, 'z) os_state_scheme, unit) kernel_op" where
  "unset_stimecmp = set_stimecmp (- 1)"

abbreviation read_stime :: "'d hw \<Rightarrow> (('d, 'z) os_state_scheme, u64) kernel_op" where
  "read_stime hw \<equiv> mgets (\<lambda>s. hw_time hw (bus s))"

definition get_stime :: "'d hw \<Rightarrow> (('d, 'z) os_state_scheme, u64) kernel_op" where
  "get_stime hw = read_stime hw"

text \<open>The real-time clock gives nanoseconds; the result is the pair of seconds and nanoseconds.\<close>

definition system_time :: "'d hw \<Rightarrow> u64 \<Rightarrow> (('d, 'z) base_state_scheme, bool \<times> u64 \<times> u64) kernel_op" where
  "system_time hw clockid = (\<lambda>s.
     let low = ucast (hw_load hw 0x00101000 4 (bus s)) :: u32;
         high = ucast (hw_load hw (0x00101000 + 4) 4 (bus s)) :: u32;
         time = push_bit 32 (ucast high) OR ucast low :: u64 in
     Ok (True, time div 1000000000, time mod 1000000000) s)"

section \<open>Deferred work\<close>

definition set_deferred :: "'d hw \<Rightarrow> u64 \<Rightarrow> u64 \<Rightarrow> u64 \<Rightarrow> (('d, 'z) os_state_scheme, unit) kernel_op" where
  "set_deferred hw whence f c =
     mbind (get_stime hw) (\<lambda>now.
     mthen (mmodify (\<lambda>s. s\<lparr>kernel := (kernel s)\<lparr>deferred := (deferred (kernel s))\<lparr>cookie := c,
         wakeup_time := now + whence, deferred_f := f\<rparr>\<rparr>\<rparr>))
      (\<lambda>s. set_stimecmp (wakeup_time (deferred (kernel s))) s))"

definition do_timer_deferreds ::
    "(u64 \<Rightarrow> u64 \<Rightarrow> (('d, 'z) os_state_scheme, unit) kernel_op) \<Rightarrow> u64 \<Rightarrow> (('d, 'z) os_state_scheme, unit) kernel_op" where
  "do_timer_deferreds call now = (\<lambda>s.
     let d = deferred (kernel s) in
     if wakeup_time d < now then
       mthen (if deferred_f d = 0 then mfault NullPointer else call (deferred_f d) (cookie d))
        (mmodify (\<lambda>s. s\<lparr>kernel := (kernel s)\<lparr>deferred := (deferred (kernel s))\<lparr>deferred_f := 0, cookie := 0,
           wakeup_time := 0\<rparr>\<rparr>\<rparr>)) s
     else Ok () s)"

section \<open>The timer interrupt\<close>

definition timer_interrupt_handler ::
    "'d hw \<Rightarrow> (u64 \<Rightarrow> u64 \<Rightarrow> (('d, 'z) os_state_scheme, unit) kernel_op) \<Rightarrow> (('d, 'z) os_state_scheme, unit) kernel_op" where
  "timer_interrupt_handler hw call =
     mbind (get_stime hw) (\<lambda>stime.
     mthen unset_stimecmp
     (mthen (\<lambda>s. let w = wakeup_time (deferred (kernel s)) in
        if w \<noteq> 0 then
          if stime > w then do_timer_deferreds call stime s else set_stimecmp w s
        else Ok () s)
      (\<lambda>s. let w = wakeup_time (asleep (current s)) in
        if w \<noteq> 0 then
          if stime > w then Ok () (s\<lparr>current := (current s)\<lparr>asleep := (asleep (current s))\<lparr>should_wake := 1\<rparr>\<rparr>\<rparr>)
          else set_stimecmp w s
        else Ok () s)))"

text \<open>
  \<open>yield\<close> opens a window for interrupts: the machine moves on, and a timer interrupt that is due
  is handled.
\<close>

definition yield ::
    "'d hw \<Rightarrow> (u64 \<Rightarrow> u64 \<Rightarrow> (('d, 'z) os_state_scheme, unit) kernel_op) \<Rightarrow> (('d, 'z) os_state_scheme, unit) kernel_op" where
  "yield hw call =
     mthen (mmodify (\<lambda>s. s\<lparr>bus := hw_step hw (bus s)\<rparr>))
      (\<lambda>s. if stimecmp s \<le> hw_time hw (bus s) then timer_interrupt_handler hw call s else Ok () s)"

section \<open>Waiting\<close>

text \<open>
  The code adds times in double precision.  A \<open>double\<close> has 53 significant bits; an integer that
  needs more is rounded to the nearest one that does not, ties going to the even one.
\<close>

fun bit_length :: "nat \<Rightarrow> nat" where
  "bit_length n = (if n = 0 then 0 else Suc (bit_length (n div 2)))"

declare bit_length.simps [simp del]

definition round_double :: "nat \<Rightarrow> nat" where
  "round_double n =
     (if bit_length n \<le> 53 then n
      else let e = bit_length n - 53; q = n div 2 ^ e; r = n mod 2 ^ e; h = 2 ^ (e - 1) in
        (if r > h \<or> r = h \<and> odd q then q + 1 else q) * 2 ^ e)"

definition WAIT_TIMEOUT :: u64 where
  "WAIT_TIMEOUT = - 1"

definition demand_expired :: "u64 \<Rightarrow> u64 \<Rightarrow> bool" where
  "demand_expired timeout now \<longleftrightarrow> round_double (unat now) > round_double (round_double (unat timeout) + 30000000)"

text \<open>
  The endless loops of \<open>demand_s\<close> and \<open>nanosleep_s\<close>: yield until a condition holds; \<open>None\<close> stands for
  waiting for ever.
\<close>

partial_function (option) wait_until ::
    "'d hw \<Rightarrow> (u64 \<Rightarrow> u64 \<Rightarrow> (('d, 'z) os_state_scheme, unit) kernel_op) \<Rightarrow> (('d, 'z) os_state_scheme \<Rightarrow> bool) \<Rightarrow>
     ('d, 'z) os_state_scheme \<Rightarrow> (('d, 'z) os_state_scheme, unit) outcome option" where
  "wait_until hw call p s =
     (case yield hw call s of
        Fault f t \<Rightarrow> Some (Fault f t)
      | Ok _ t \<Rightarrow> if p t then Some (Ok () t) else wait_until hw call p t)"

definition wait_loop ::
    "'d hw \<Rightarrow> (u64 \<Rightarrow> u64 \<Rightarrow> (('d, 'z) os_state_scheme, unit) kernel_op) \<Rightarrow> (('d, 'z) os_state_scheme \<Rightarrow> bool) \<Rightarrow>
     (('d, 'z) os_state_scheme, unit) kernel_op" where
  "wait_loop hw call p = (\<lambda>s. case wait_until hw call p s of None \<Rightarrow> Fault Diverges s | Some r \<Rightarrow> r)"

definition demand_s ::
    "'d hw \<Rightarrow> (u64 \<Rightarrow> u64 \<Rightarrow> (('d, 'z) os_state_scheme, unit) kernel_op) \<Rightarrow> u64 \<Rightarrow> u64 \<Rightarrow> (('d, 'z) os_state_scheme, u64) kernel_op" where
  "demand_s hw call timeout event_p =
     mbind (get_stime hw) (\<lambda>now.
       let timeout = now + timeout in
       mthen (set_stimecmp timeout)
       (mthen (wait_loop hw call (\<lambda>s. demand_expired timeout (hw_time hw (bus s))))
         (mreturn WAIT_TIMEOUT)))"

text \<open>
  \<open>get_stime () + (tv_sec * 10e6 + tv_nsec)\<close>, converted back to an integer; the conversion of the
  processor saturates.
\<close>

definition round_signed :: "int \<Rightarrow> int" where
  "round_signed z = (if z < 0 then - int (round_double (nat (- z))) else int (round_double (nat z)))"

definition wakeup_at :: "u64 \<Rightarrow> u64 \<Rightarrow> u64 \<Rightarrow> u64" where
  "wakeup_at now tv_sec tv_nsec =
     (let product = round_signed (round_signed (sint tv_sec) * 10000000);
          duration = round_signed (product + round_signed (sint tv_nsec));
          result = round_signed (round_signed (uint now) + duration) in
      if result < 0 then 0 else if result \<ge> 2 ^ 64 then - 1 else of_int result)"

definition nanosleep_s ::
    "'d hw \<Rightarrow> (u64 \<Rightarrow> u64 \<Rightarrow> (('d, 'z) os_state_scheme, unit) kernel_op) \<Rightarrow> u64 \<Rightarrow> u64 \<Rightarrow> u64 \<Rightarrow> u64 \<Rightarrow>
     (('d, 'z) os_state_scheme, u64) kernel_op" where
  "nanosleep_s hw call clockid flags duration_p rem_p =
     mbind (get_stime hw) (\<lambda>now.
     mbind (mgets (\<lambda>s. wakeup_at now (le_word (load_bytes duration_p 8 (ram s)))
         (le_word (load_bytes (duration_p + 8) 8 (ram s))))) (\<lambda>w.
     mthen (mmodify (\<lambda>s. s\<lparr>current := (current s)\<lparr>asleep := (asleep (current s))\<lparr>wakeup_time := w\<rparr>\<rparr>\<rparr>))
     (mthen (set_stimecmp w)
     (mthen (wait_loop hw call (\<lambda>s. should_wake (asleep (current s)) \<noteq> 0))
     (mthen (mmodify (\<lambda>s. s\<lparr>current := (current s)\<lparr>asleep := (asleep (current s))\<lparr>should_wake := 0, wakeup_time := 0\<rparr>\<rparr>\<rparr>))
       epoweroff)))))"

definition configure_dl_random ::
    "'d hw \<Rightarrow> frame \<Rightarrow> u64 \<Rightarrow> (('d, 'z) os_state_scheme, unit) kernel_op" where
  "configure_dl_random hw fr randomness_p =
     mthen (mbus (\<lambda>b. b\<lparr>mem := store_bytes randomness_p (replicate 8 0) (mem b)\<rparr>))
     (mbind (virtio_get_randomness hw fr randomness_p 8) (\<lambda>r.
       mthen (if r \<noteq> 8 then
           mthen (eprint_str (''Error occurred configuring dl_random.'' @ [CHR 0x0A])) epoweroff
         else mreturn ())
        (mmodify (\<lambda>s. s\<lparr>dl_random_bytes := le_word (load_bytes randomness_p 8 (ram s))\<rparr>))))"

section \<open>The earliest deadline\<close>

definition timer_ok :: "('d, 'z) os_state_scheme \<Rightarrow> bool" where
  "timer_ok s \<longleftrightarrow> stimecmp s = shadow_stime s"

text \<open>All ones is the latest time, so a register that is unset counts as a deadline that never comes.\<close>

lemma le_unset: "w \<le> STIME_UNSET"
  by (simp add: STIME_UNSET_def word_order.extremum)

lemma set_stimecmp_eq:
  "timer_ok s \<Longrightarrow> set_stimecmp w s =
     Ok () (let m = (if w = STIME_UNSET then w else min (stimecmp s) w) in s\<lparr>shadow_stime := m, stimecmp := m\<rparr>)"
  using le_unset [of w] by (auto simp: set_stimecmp_def timer_ok_def Let_def min_def not_less)

lemma timer_same: "timer_ok s \<Longrightarrow> s\<lparr>shadow_stime := stimecmp s, stimecmp := stimecmp s\<rparr> = s"
  by (cases s) (simp add: timer_ok_def)

definition due :: "u64 \<Rightarrow> u64 \<Rightarrow> bool" where
  "due now w \<longleftrightarrow> w \<noteq> 0 \<and> w < now"

definition pending :: "u64 \<Rightarrow> u64 \<Rightarrow> u64 list" where
  "pending now w = (if w = 0 \<or> w < now then [] else [w])"

definition earliest :: "u64 list \<Rightarrow> u64" where
  "earliest ws = foldr min ws STIME_UNSET"

definition os_part :: "('d, 'z) os_state_scheme \<Rightarrow> u64 \<times> u64 \<times> process \<times> kernel" where
  "os_part s = (shadow_stime s, stimecmp s, current s, kernel s)"

lemma unset_stimecmp_eq: "unset_stimecmp s = Ok () (s\<lparr>shadow_stime := STIME_UNSET, stimecmp := STIME_UNSET\<rparr>)"
  by (simp add: unset_stimecmp_def set_stimecmp_def STIME_UNSET_def)

lemma get_stime_eq [monad_simps]: "get_stime hw s = Ok (hw_time hw (bus s)) s"
  by (simp add: get_stime_def monad_simps)

text \<open>The two halves of the interrupt handler, each after the timer has been unset or set to something.\<close>

definition handle_deferred ::
    "(u64 \<Rightarrow> u64 \<Rightarrow> (('d, 'z) os_state_scheme, unit) kernel_op) \<Rightarrow> u64 \<Rightarrow> (('d, 'z) os_state_scheme, unit) kernel_op" where
  "handle_deferred call now = (\<lambda>s. let w = wakeup_time (deferred (kernel s)) in
     if w \<noteq> 0 then if now > w then do_timer_deferreds call now s else set_stimecmp w s else Ok () s)"

definition handle_sleeper :: "u64 \<Rightarrow> (('d, 'z) os_state_scheme, unit) kernel_op" where
  "handle_sleeper now = (\<lambda>s. let w = wakeup_time (asleep (current s)) in
     if w \<noteq> 0 then
       if now > w then Ok () (s\<lparr>current := (current s)\<lparr>asleep := (asleep (current s))\<lparr>should_wake := 1\<rparr>\<rparr>\<rparr>)
       else set_stimecmp w s
     else Ok () s)"

lemma timer_interrupt_handler_parts:
  "timer_interrupt_handler hw call s = mthen (handle_deferred call (hw_time hw (bus s))) (handle_sleeper (hw_time hw (bus s)))
     (s\<lparr>shadow_stime := STIME_UNSET, stimecmp := STIME_UNSET\<rparr>)"
  by (simp add: timer_interrupt_handler_def handle_deferred_def handle_sleeper_def monad_simps unset_stimecmp_eq)

lemma earliest_pending:
  "earliest (pending now w) = (if w = 0 \<or> w < now then STIME_UNSET else w)"
  by (simp add: earliest_def pending_def min_absorb1 le_unset)

lemma min_unset [simp]: "min w STIME_UNSET = w" "min STIME_UNSET w = w"
  by (simp_all add: min_absorb1 min_absorb2 le_unset)

text \<open>
  A wake-up time of all ones is taken for a request to unset the timer, whoever else waits for it;
  for every other time the register ends up at the earlier deadline.
\<close>

lemma handle_sleeper_eq:
  assumes "timer_ok s"
  defines "w \<equiv> wakeup_time (asleep (current s))"
  assumes "w \<noteq> STIME_UNSET"
  shows "handle_sleeper now s = Ok () (let m = min (stimecmp s) (earliest (pending now w)) in
    s\<lparr>shadow_stime := m, stimecmp := m,
      current := (if due now w then (current s)\<lparr>asleep := (asleep (current s))\<lparr>should_wake := 1\<rparr>\<rparr> else current s)\<rparr>)"
proof -
  consider (idle) "w = 0" | (due) "w \<noteq> 0" "w < now" | (pend) "w \<noteq> 0" "\<not> w < now" by blast
  then show ?thesis
  proof cases
    case idle
    then show ?thesis
      using timer_same [OF assms(1)] by (simp add: handle_sleeper_def earliest_pending due_def Let_def flip: w_def)
  next
    case due
    then show ?thesis
      using timer_same [OF assms(1)] by (simp add: handle_sleeper_def earliest_pending due_def Let_def flip: w_def)
  next
    case pend
    then show ?thesis
      using assms(3) by (simp add: handle_sleeper_def earliest_pending due_def Let_def set_stimecmp_eq [OF assms(1)] flip: w_def)
  qed
qed

text \<open>What calling the deferred function leaves alone.\<close>

definition call_returns ::
    "(u64 \<Rightarrow> u64 \<Rightarrow> (('d, 'z) os_state_scheme, unit) kernel_op) \<Rightarrow> u64 \<Rightarrow> u64 \<Rightarrow> bool" where
  "call_returns call f c \<longleftrightarrow> f \<noteq> 0 \<and> (\<forall>s. \<exists>t. call f c s = Ok () t \<and> os_part t = os_part s)"

lemma handle_deferred_eq:
  assumes "stimecmp s = STIME_UNSET" and "shadow_stime s = STIME_UNSET"
  defines "d \<equiv> deferred (kernel s)"
  assumes "due now (wakeup_time d) \<Longrightarrow> call_returns call (deferred_f d) (cookie d)"
  obtains t where "handle_deferred call now s = Ok () t" and "current t = current s"
    and "stimecmp t = earliest (pending now (wakeup_time d))" and "timer_ok t"
    and "deferred (kernel t) = (if due now (wakeup_time d) then d\<lparr>deferred_f := 0, cookie := 0, wakeup_time := 0\<rparr> else d)"
proof (cases "due now (wakeup_time d)")
  case True
  then obtain t where call: "call (deferred_f d) (cookie d) s = Ok () t" and f: "deferred_f d \<noteq> 0"
    and "os_part t = os_part s"
    using assms(4) unfolding call_returns_def by blast
  then have t: "shadow_stime t = STIME_UNSET" "stimecmp t = STIME_UNSET" "current t = current s" "kernel t = kernel s"
    using assms(1,2) by (simp_all add: os_part_def)
  have "handle_deferred call now s = Ok () (t\<lparr>kernel := (kernel t)\<lparr>deferred := (deferred (kernel t))\<lparr>deferred_f := 0,
      cookie := 0, wakeup_time := 0\<rparr>\<rparr>\<rparr>)"
    using True call f by (simp add: handle_deferred_def do_timer_deferreds_def Let_def due_def monad_simps flip: d_def)
  then show thesis
    by (rule that) (use True t in \<open>simp_all add: timer_ok_def earliest_pending due_def d_def\<close>)
next
  case False
  have ok: "timer_ok s" using assms(1,2) by (simp add: timer_ok_def)
  show thesis
  proof (cases "wakeup_time d = 0")
    case True
    then have "handle_deferred call now s = Ok () s" by (simp add: handle_deferred_def Let_def flip: d_def)
    then show thesis
      by (rule that) (use True False ok assms(1) in \<open>simp_all add: earliest_pending d_def\<close>)
  next
    case nz: False
    then have "handle_deferred call now s = set_stimecmp (wakeup_time d) s"
      using False by (simp add: handle_deferred_def Let_def due_def flip: d_def)
    with set_stimecmp_eq [OF ok, of "wakeup_time d"] assms(1)
    have "handle_deferred call now s = Ok () (s\<lparr>shadow_stime := wakeup_time d, stimecmp := wakeup_time d\<rparr>)"
      by (simp add: Let_def)
    then show thesis
      by (rule that) (use nz False in \<open>simp_all add: timer_ok_def earliest_pending due_def d_def\<close>)
  qed
qed

lemma earliest_append: "earliest (xs @ ys) = min (earliest xs) (earliest ys)"
  by (induction xs) (simp_all add: earliest_def min.assoc)

text \<open>
  C25.  The timer compare register always holds the earliest deadline: asking for a deadline sets the
  register to the minimum of its value and the new deadline, and register and shadow stay equal.
  All ones, the latest time, stands for no deadline, and asking for it clears the register.
\<close>

theorem set_stimecmp_earliest:
  assumes "timer_ok s"
  shows "\<exists>t. set_stimecmp w s = Ok () t \<and> timer_ok t \<and>
    stimecmp t = (if w = STIME_UNSET then STIME_UNSET else min (stimecmp s) w) \<and>
    t = s\<lparr>shadow_stime := stimecmp t, stimecmp := stimecmp t\<rparr>"
  using set_stimecmp_eq [OF assms, of w] by (simp add: timer_ok_def Let_def)


definition ref_sleep :: "u64 \<Rightarrow> sleep" where
  "ref_sleep w = \<lparr>wakeup_time = w, should_wake = 0, cookie = 0, deferred_f = 0\<rparr>"

definition os_init :: "'d virtio_state \<Rightarrow> u64 \<Rightarrow> u64 \<Rightarrow> 'd os_state" where
  "os_init s kernel_w process_w = virtio_state.extend s (os_state.fields STIME_UNSET STIME_UNSET
     \<lparr>brk = 0, tid_set = 0, clear_child_tid = 0, asleep = ref_sleep process_w\<rparr>
     \<lparr>deferred = ref_sleep kernel_w\<rparr> 0x12345678)"

lemma os_init_simps [simp]:
  "bus (os_init s k p) = bus s" "stimecmp (os_init s k p) = STIME_UNSET" "shadow_stime (os_init s k p) = STIME_UNSET"
  "wakeup_time (asleep (current (os_init s k p))) = p" "should_wake (asleep (current (os_init s k p))) = 0"
  "wakeup_time (deferred (kernel (os_init s k p))) = k" "timer_ok (os_init s k p)"
  by (simp_all add: os_init_def os_state.defs virtio_state.defs ref_sleep_def timer_ok_def)

theorem set_stimecmp_earliest_witness:
  "\<exists>t. set_stimecmp 500 ((os_init ref_fs 0 0)\<lparr>shadow_stime := 900, stimecmp := 900\<rparr>) = Ok () t \<and> stimecmp t = 500"
proof -
  have "timer_ok ((os_init ref_fs 0 0)\<lparr>shadow_stime := 900, stimecmp := 900\<rparr>)" by (simp add: timer_ok_def)
  then show ?thesis using set_stimecmp_earliest [of _ 500] by (fastforce simp: STIME_UNSET_def)
qed


section \<open>Waiting ends when its time has come\<close>

text \<open>No deferred work, and a wake-up time that is not the unset value: the timer interrupt cannot fail.\<close>

definition quiet :: "('d, 'z) os_state_scheme \<Rightarrow> bool" where
  "quiet s \<longleftrightarrow> wakeup_time (deferred (kernel s)) = 0 \<and> wakeup_time (asleep (current s)) \<noteq> STIME_UNSET"

definition woken :: "u64 \<Rightarrow> process \<Rightarrow> process" where
  "woken now p = (if due now (wakeup_time (asleep p)) then p\<lparr>asleep := (asleep p)\<lparr>should_wake := 1\<rparr>\<rparr> else p)"

lemma woken_simps [simp]:
  "wakeup_time (asleep (woken now p)) = wakeup_time (asleep p)"
  "should_wake (asleep (woken now p)) = (if due now (wakeup_time (asleep p)) then 1 else should_wake (asleep p))"
  by (simp_all add: woken_def)

lemma yield_quiet:
  fixes hw :: "'d hw" and s :: "('d, 'z) os_state_scheme"
  assumes "quiet s"
  defines "b \<equiv> hw_step hw (bus s)" and "w \<equiv> wakeup_time (asleep (current s))"
  shows "yield hw call s = Ok () (if stimecmp s \<le> hw_time hw b
    then s\<lparr>bus := b, shadow_stime := earliest (pending (hw_time hw b) w), stimecmp := earliest (pending (hw_time hw b) w),
      current := woken (hw_time hw b) (current s)\<rparr>
    else s\<lparr>bus := b\<rparr>)"
proof -
  let ?t = "s\<lparr>bus := b, shadow_stime := STIME_UNSET, stimecmp := STIME_UNSET\<rparr>"
  have "timer_ok ?t" by (simp add: timer_ok_def)
  moreover have "handle_deferred call now ?t = Ok () ?t" for now
    using assms(1) by (simp add: handle_deferred_def quiet_def)
  ultimately have "timer_interrupt_handler hw call (s\<lparr>bus := b\<rparr>) = Ok () (s\<lparr>bus := b,
      shadow_stime := earliest (pending (hw_time hw b) w), stimecmp := earliest (pending (hw_time hw b) w),
      current := woken (hw_time hw b) (current s)\<rparr>)"
    using handle_sleeper_eq [of ?t "hw_time hw b"] assms(1)
    by (simp add: timer_interrupt_handler_parts monad_simps Let_def woken_def quiet_def w_def)
  then show ?thesis by (simp add: yield_def monad_simps b_def)
qed

lemma yield_quiet_step:
  assumes "quiet s"
  obtains t where "yield hw call s = Ok () t" and "quiet t" and "bus t = hw_step hw (bus s)"
  using yield_quiet [OF assms, of hw call] assms that
  by (cases "stimecmp s \<le> hw_time hw (hw_step hw (bus s))") (simp_all add: quiet_def)

text \<open>The time that the machine shows after \<open>k\<close> steps.\<close>

abbreviation time_after :: "'d hw \<Rightarrow> 'd bus \<Rightarrow> nat \<Rightarrow> u64" where
  "time_after hw b k \<equiv> hw_time hw ((hw_step hw ^^ k) b)"

text \<open>
  A loop that waits for a condition which, while the loop runs, holds exactly when the devices are in
  a certain state.
\<close>

locale waiting =
  fixes hw :: "'d hw"
    and call :: "u64 \<Rightarrow> u64 \<Rightarrow> (('d, 'z) os_state_scheme, unit) kernel_op"
    and p :: "('d, 'z) os_state_scheme \<Rightarrow> bool"
    and inv :: "('d, 'z) os_state_scheme \<Rightarrow> bool"
    and g :: "'d bus \<Rightarrow> bool"
  assumes step: "inv s \<Longrightarrow> \<exists>t. yield hw call s = Ok () t \<and> bus t = hw_step hw (bus s) \<and> (p t \<longleftrightarrow> g (bus t)) \<and> (\<not> p t \<longrightarrow> inv t)"
begin

lemma returns:
  "inv s \<Longrightarrow> g ((hw_step hw ^^ Suc k) (bus s)) \<Longrightarrow>
   \<exists>t j. wait_until hw call p s = Some (Ok () t) \<and> p t \<and> g (bus t) \<and> bus t = (hw_step hw ^^ Suc j) (bus s)"
proof (induction k arbitrary: s)
  case 0
  then show ?case using step by (fastforce simp: wait_until.simps [of hw call p] intro: exI [of _ 0])
next
  case (Suc k)
  obtain t where t: "yield hw call s = Ok () t" "bus t = hw_step hw (bus s)" "p t \<longleftrightarrow> g (bus t)" "\<not> p t \<longrightarrow> inv t"
    using step [OF Suc.prems(1)] by blast
  show ?case
  proof (cases "p t")
    case True
    then show ?thesis using t by (auto simp: wait_until.simps [of hw call p s] intro: exI [of _ 0])
  next
    case False
    have "g ((hw_step hw ^^ Suc k) (bus t))" using Suc.prems(2) t(2) by (simp add: funpow_swap1)
    with Suc.IH [of t] False t(4) obtain u j where u: "wait_until hw call p t = Some (Ok () u)" "p u" "g (bus u)"
      "bus u = (hw_step hw ^^ Suc j) (bus t)" by blast
    then have "wait_until hw call p s = Some (Ok () u)" "bus u = (hw_step hw ^^ Suc (Suc j)) (bus s)"
      using False t by (simp_all add: wait_until.simps [of hw call p s] funpow_swap1)
    with u show ?thesis by blast
  qed
qed

lemma ends: "wait_until hw call p s = Some r \<Longrightarrow> inv s \<Longrightarrow> \<exists>k. g ((hw_step hw ^^ Suc k) (bus s))"
proof -
  have "hw' = hw \<longrightarrow> call' = call \<longrightarrow> p' = p \<longrightarrow> inv s \<longrightarrow> (\<exists>k. g ((hw_step hw ^^ Suc k) (bus s)))"
    if "wait_until hw' call' p' s = Some r" for hw' call' p' s r
    using that
  proof (rule wait_until.raw_induct [rotated], intro impI)
    fix f hw' call' p' s r
    assume IH: "\<And>hw' call' p' s r. f hw' call' p' s = Some r \<Longrightarrow>
        hw' = hw \<longrightarrow> call' = call \<longrightarrow> p' = p \<longrightarrow> inv s \<longrightarrow> (\<exists>k. g ((hw_step hw ^^ Suc k) (bus s)))"
      and eq: "(case yield hw' call' s of Fault fa t \<Rightarrow> Some (Fault fa t)
        | Ok u t \<Rightarrow> if p' t then Some (Ok () t) else f hw' call' p' t) = Some r"
      and same: "hw' = hw" "call' = call" "p' = p" and inv: "inv s"
    obtain t where t: "yield hw call s = Ok () t" "bus t = hw_step hw (bus s)" "p t \<longleftrightarrow> g (bus t)" "\<not> p t \<longrightarrow> inv t"
      using step [OF inv] by blast
    show "\<exists>k. g ((hw_step hw ^^ Suc k) (bus s))"
    proof (cases "p t")
      case True
      with t show ?thesis by (intro exI [of _ 0]) simp
    next
      case False
      with eq t(1) same have "f hw call p t = Some r" by simp
      with IH False t(4) obtain k where "g ((hw_step hw ^^ Suc k) (bus t))" by blast
      then show ?thesis using t(2) by (intro exI [of _ "Suc k"]) (simp add: funpow_swap1)
    qed
  qed
  then show "wait_until hw call p s = Some r \<Longrightarrow> inv s \<Longrightarrow> \<exists>k. g ((hw_step hw ^^ Suc k) (bus s))" by blast
qed

lemma wait_loop_cases:
  assumes "inv s"
  shows "if \<exists>k. g ((hw_step hw ^^ Suc k) (bus s)) then \<exists>t j. wait_loop hw call p s = Ok () t \<and> p t \<and> g (bus t) \<and> bus t = (hw_step hw ^^ Suc j) (bus s)
    else wait_loop hw call p s = Fault Diverges s"
proof (cases "wait_until hw call p s")
  case None
  with returns [OF assms] have "\<not> (\<exists>k. g ((hw_step hw ^^ Suc k) (bus s)))" by fastforce
  with None show ?thesis by (simp add: wait_loop_def)
next
  case (Some r)
  with ends [OF _ assms] have "\<exists>k. g ((hw_step hw ^^ Suc k) (bus s))" by blast
  with returns [OF assms] show ?thesis by (fastforce simp: wait_loop_def)
qed

end

interpretation demand: waiting hw call "\<lambda>s. demand_expired timeout (hw_time hw (bus s))" quiet
    "\<lambda>b. demand_expired timeout (hw_time hw b)" for hw call timeout
proof
  fix s :: "('a, 'b) os_state_scheme" assume "quiet s"
  then show "\<exists>t. yield hw call s = Ok () t \<and> bus t = hw_step hw (bus s) \<and>
      (demand_expired timeout (hw_time hw (bus t)) \<longleftrightarrow> demand_expired timeout (hw_time hw (bus t))) \<and>
      (\<not> demand_expired timeout (hw_time hw (bus t)) \<longrightarrow> quiet t)"
    by (rule yield_quiet_step) blast
qed

text \<open>A process that sleeps until \<open>w\<close>, with the timer set no later than that.\<close>

definition sleeping :: "u64 \<Rightarrow> ('d, 'z) os_state_scheme \<Rightarrow> bool" where
  "sleeping w s \<longleftrightarrow> quiet s \<and> w \<noteq> 0 \<and> wakeup_time (asleep (current s)) = w \<and> should_wake (asleep (current s)) = 0 \<and>
     stimecmp s \<le> w"

interpretation nanosleep: waiting hw call "\<lambda>s. should_wake (asleep (current s)) \<noteq> 0" "sleeping w"
    "\<lambda>b. w < hw_time hw b" for hw call w
proof
  fix s :: "('a, 'b) os_state_scheme" assume s: "sleeping w s"
  let ?b = "hw_step hw (bus s)"
  have q: "quiet s" using s by (simp add: sleeping_def)
  have "stimecmp s \<le> hw_time hw ?b" if "w < hw_time hw ?b" using s that by (auto simp: sleeping_def)
  with s show "\<exists>t. yield hw call s = Ok () t \<and> bus t = hw_step hw (bus s) \<and>
      (should_wake (asleep (current t)) \<noteq> 0 \<longleftrightarrow> w < hw_time hw (bus t)) \<and> (\<not> should_wake (asleep (current t)) \<noteq> 0 \<longrightarrow> sleeping w t)"
    using yield_quiet [OF q, of hw call]
    by (cases "stimecmp s \<le> hw_time hw ?b") (auto simp: sleeping_def quiet_def due_def earliest_pending)
qed

text \<open>A machine with nothing but a clock that advances by a fixed amount in every step.\<close>

definition clock_hw :: "u64 \<Rightarrow> u64 hw" where
  "clock_hw tick = \<lparr>hw_step = (\<lambda>b. b\<lparr>dev := dev b + tick\<rparr>), hw_store = (\<lambda>a n x b. b), hw_load = (\<lambda>a n b. 0), hw_time = dev\<rparr>"

definition clock_state :: "bytes \<Rightarrow> u64 os_state" where
  "clock_state bs = os_init (heap_state.extend (heap_init demandos_linker \<lparr>mem = store_bytes 0x1000 bs (\<lambda>_. 0),
     desc_mem = (\<lambda>_. []), avail_mem = (\<lambda>_. \<lparr>a_flags = 0, a_idx = 0, a_ring = []\<rparr>),
     used_mem = (\<lambda>_. \<lparr>u_flags = 0, u_idx = 0, u_ring = []\<rparr>), dev = 0\<rparr>) (virtio_state.fields [] 0)) 0 0"

lemma clock_state_simps [simp]:
  "dev (bus (clock_state bs)) = 0" "ram (clock_state bs) = store_bytes 0x1000 bs (\<lambda>_. 0)" "timer_ok (clock_state bs)"
  "wakeup_time (deferred (kernel (clock_state bs))) = 0" "wakeup_time (asleep (current (clock_state bs))) = 0"
  "should_wake (asleep (current (clock_state bs))) = 0"
  by (simp_all add: clock_state_def heap_init_def heap_state.defs virtio_state.defs)

lemma bit_length_le: "bit_length n \<le> k \<longleftrightarrow> n < 2 ^ k"
proof (induction k arbitrary: n)
  case 0
  show ?case by (subst bit_length.simps) simp
next
  case (Suc k)
  show ?case
  proof (cases "n = 0")
    case False
    then have "bit_length n \<le> Suc k \<longleftrightarrow> n div 2 < 2 ^ k"
      by (subst bit_length.simps) (simp add: Suc.IH)
    also have "\<dots> \<longleftrightarrow> n < 2 ^ Suc k" by (simp add: div_less_iff_less_mult mult.commute)
    finally show ?thesis .
  qed (simp add: bit_length.simps)
qed

lemma round_double_exact: "n < 2 ^ 53 \<Longrightarrow> round_double n = n"
  using bit_length_le [of n 53] by (simp add: round_double_def)

text \<open>
  The comparison of times in double precision is exact below \<open>2 ^ 53\<close> clock ticks: a demand has
  expired when more than thirty million ticks have passed since the timeout.
\<close>

theorem demand_expired_exact:
  assumes "unat now < 2 ^ 53" and "unat timeout + 30000000 < 2 ^ 53"
  shows "demand_expired timeout now \<longleftrightarrow> unat timeout + 30000000 < unat now"
  using assms by (simp add: demand_expired_def round_double_exact)

theorem demand_expired_exact_witness: "\<not> demand_expired 5 30000005 \<and> demand_expired 5 30000006"
  using demand_expired_exact [of 30000005 5] demand_expired_exact [of 30000006 5] by simp

lemma demand_s_run:
  assumes "quiet s" and "T = hw_time hw (bus s) + timeout"
  shows "if \<exists>k. demand_expired T (time_after hw (bus s) (Suc k))
    then \<exists>t j. demand_s hw call timeout ev s = Ok WAIT_TIMEOUT t \<and> demand_expired T (hw_time hw (bus t)) \<and>
      bus t = (hw_step hw ^^ Suc j) (bus s)
    else \<exists>t. demand_s hw call timeout ev s = Fault Diverges t"
proof -
  obtain t where t: "set_stimecmp T s = Ok () t" "quiet t" "bus t = bus s"
    using assms(1) by (cases "T \<noteq> STIME_UNSET \<and> shadow_stime s \<noteq> STIME_UNSET \<and> shadow_stime s < T")
      (simp_all add: set_stimecmp_def quiet_def)
  have run: "demand_s hw call timeout ev s =
      mthen (wait_loop hw call (\<lambda>s. demand_expired T (hw_time hw (bus s)))) (mreturn WAIT_TIMEOUT) t"
    using t by (simp add: demand_s_def monad_simps Let_def assms(2))
  show ?thesis
    using demand.wait_loop_cases [OF t(2), of T hw call] by (auto simp: run monad_simps t(3) split: if_splits)
qed

text \<open>
  C26.  Waiting for a demand lasts until the clock is past the timeout (and the margin): if the clock
  ever gets there the call returns \<open>WAIT_TIMEOUT\<close> at a time past it, and otherwise it waits for ever.
  It never reports that an event occurred.
\<close>

theorem demand_s_waits:
  assumes "quiet s" and "T = hw_time hw (bus s) + timeout"
  shows "if \<exists>k. demand_expired T (time_after hw (bus s) (Suc k))
    then \<exists>t. demand_s hw call timeout ev s = Ok WAIT_TIMEOUT t \<and> demand_expired T (hw_time hw (bus t))
    else \<exists>t. demand_s hw call timeout ev s = Fault Diverges t"
  using demand_s_run [OF assms, of call ev] by (auto split: if_splits)

theorem demand_s_waits_witness:
  "\<exists>t. demand_s (clock_hw 40000000) (\<lambda>f c. mreturn ()) 5000 0 (clock_state []) = Ok WAIT_TIMEOUT t"
proof -
  have "demand_expired 5000 40000000" by (simp add: demand_expired_def round_double_exact)
  then have "\<exists>k. demand_expired 5000 (time_after (clock_hw 40000000) (bus (clock_state [])) (Suc k))"
    by (intro exI [of _ 0]) (simp add: clock_hw_def)
  moreover have "quiet (clock_state [])" by (simp add: quiet_def STIME_UNSET_def)
  ultimately show ?thesis
    using demand_s_waits [of "clock_state []" 5000 "clock_hw 40000000" 5000 "\<lambda>f c. mreturn ()" 0]
    by (auto simp: clock_hw_def)
qed

text \<open>
  C27.  Sleeping never returns to the caller.  With no deferred work, the sleeper is woken once the
  clock has passed its wake-up time, provided it ever does, and then the machine is switched off;
  otherwise the kernel waits for ever.
\<close>

theorem nanosleep_s_never_returns:
  assumes "timer_ok s" and "wakeup_time (deferred (kernel s)) = 0" and "should_wake (asleep (current s)) = 0"
    and "w = wakeup_at (hw_time hw (bus s)) (le_word (load_bytes duration_p 8 (ram s))) (le_word (load_bytes (duration_p + 8) 8 (ram s)))"
    and "w \<noteq> 0" and "w \<noteq> STIME_UNSET"
  shows "if \<exists>k. w < time_after hw (bus s) (Suc k)
    then \<exists>t. nanosleep_s hw call clockid flags duration_p rem_p s = Fault PowerOff t \<and> w < hw_time hw (bus t)
    else \<exists>t. nanosleep_s hw call clockid flags duration_p rem_p s = Fault Diverges t"
proof -
  let ?s = "s\<lparr>current := (current s)\<lparr>asleep := (asleep (current s))\<lparr>wakeup_time := w\<rparr>\<rparr>\<rparr>"
  have "timer_ok ?s" using assms(1) by (simp add: timer_ok_def)
  from set_stimecmp_eq [OF this, of w] obtain t where t: "set_stimecmp w ?s = Ok () t" "sleeping w t" "bus t = bus s"
    using assms by (auto simp: Let_def sleeping_def quiet_def)
  have run: "nanosleep_s hw call clockid flags duration_p rem_p s =
      mthen (wait_loop hw call (\<lambda>s. should_wake (asleep (current s)) \<noteq> 0))
        (mthen (mmodify (\<lambda>s. s\<lparr>current := (current s)\<lparr>asleep := (asleep (current s))\<lparr>should_wake := 0, wakeup_time := 0\<rparr>\<rparr>\<rparr>))
          epoweroff) t"
    using t(1) by (simp add: nanosleep_s_def monad_simps flip: assms(4))
  show ?thesis
    using nanosleep.wait_loop_cases [OF t(2), of hw call] by (auto simp: run monad_simps t(3) split: if_splits)
qed

theorem nanosleep_s_never_returns_witness:
  "\<exists>t. nanosleep_s (clock_hw 40000000) (\<lambda>f c. mreturn ()) 0 0 0x1000 0 (clock_state (le_bytes 8 (1 :: u64) @ le_bytes 8 (5 :: u64))) = Fault PowerOff t"
proof -
  let ?bs = "le_bytes 8 (1 :: u64) @ le_bytes 8 (5 :: u64)" and ?m = "store_bytes 0x1000 (le_bytes 8 (1 :: u64) @ le_bytes 8 (5 :: u64)) (\<lambda>_. 0)"
  have l: "load_bytes 0x1000 16 ?m = ?bs" using load_store_same [of ?bs "0x1000"] by simp
  have "load_bytes 0x1000 8 ?m = le_bytes 8 (1 :: u64)" "load_bytes 0x1008 8 ?m = le_bytes 8 (5 :: u64)"
    using load_bytes_slice [of 0 8 16 "0x1000" ?m] load_bytes_slice [of 8 8 16 "0x1000" ?m]
    by (simp_all add: l slice_def)
  then have w: "wakeup_at 0 (le_word (load_bytes 0x1000 8 ?m)) (le_word (load_bytes 0x1008 8 ?m)) = 10000005"
    by (simp add: le_word_le_bytes wakeup_at_def round_signed_def round_double_exact)
  have "\<exists>k. 10000005 < time_after (clock_hw 40000000) (bus (clock_state ?bs)) (Suc k)"
    by (intro exI [of _ 0]) (simp add: clock_hw_def)
  then show ?thesis
    using nanosleep_s_never_returns [of "clock_state ?bs" 10000005 "clock_hw 40000000" "0x1000" "\<lambda>f c. mreturn ()" 0 0 0] w
    by (auto simp: clock_hw_def STIME_UNSET_def)
qed

end
