(* ===== verification/Io.thy ===== *)
theory Io
  imports System
begin

text \<open>
  File descriptors (src/io.c, include/io.h): a table of one hundred descriptors with pointers to
  the functions that serve them, the handlers for the console and for files, and mounting the
  disk.  A function pointer is an optional value of a datatype with one constructor for each
  function that is ever stored there; calling a null pointer is a fault.
\<close>

section \<open>State\<close>

type_synonym c_int = "32 word"

datatype write_handler_t = Stdout_write_handler | Disk_write_handler

datatype read_handler_t = Disk_read_handler

datatype seek_handler_t = Disk_seek_handler

record io_descriptor =
  fd_open :: bool
  fd_pos :: u64
  fd_ino :: u32
  write_handler :: "write_handler_t option"
  read_handler :: "read_handler_t option"
  seek_handler :: "seek_handler_t option"

record 'd io_state = "'d os_state" +
  fds :: "io_descriptor list"
  superblock :: ext2_superblock
  superblock_mounted :: bool

definition max_fd :: nat where
  "max_fd = 100"

definition is_fd_valid :: "u64 \<Rightarrow> bool" where
  "is_fd_valid fd \<longleftrightarrow> fd < of_nat max_fd"

definition is_fd_open :: "('d, 'z) io_state_scheme \<Rightarrow> u64 \<Rightarrow> bool" where
  "is_fd_open s fd \<longleftrightarrow> is_fd_valid fd \<and> fd_open (fds s ! unat fd)"

definition next_fd :: "('d, 'z) io_state_scheme \<Rightarrow> c_int" where
  "next_fd s = (case find (\<lambda>i. \<not> fd_open (fds s ! i)) [0..<max_fd] of Some i \<Rightarrow> of_nat i | None \<Rightarrow> - 1)"

definition set_fd :: "nat \<Rightarrow> (io_descriptor \<Rightarrow> io_descriptor) \<Rightarrow> ('d, 'z) io_state_scheme \<Rightarrow> ('d, 'z) io_state_scheme" where
  "set_fd i f s = s\<lparr>fds := (fds s)[i := f (fds s ! i)]\<rparr>"

section \<open>Handlers\<close>

definition stdout_write_handler ::
    "'d hw \<Rightarrow> u64 \<Rightarrow> u64 \<Rightarrow> u64 \<Rightarrow> (('d, 'z) virtio_state_scheme, c_int) kernel_op" where
  "stdout_write_handler hw fd buf sz =
     (case find_virtio_driver 3 of
        None \<Rightarrow> mreturn (- 1)
      | Some d \<Rightarrow> mbind (get_driver d) (\<lambda>drv.
          if \<not> initialized drv then mreturn (- 1)
          else mbind (vring_use_descr (d, 1)) (\<lambda>u.
            let just_used = ucast u :: u32 in
            mbind (vring_add_to_descr (d, 1) buf (ucast sz) 0 just_used True) (\<lambda>_.
            mthen (vring_post_descr (d, 1) just_used)
            (mthen (signal_virtio_device hw d 1)
            (mthen (vring_wait_completion hw (d, 1))
            (mthen (vring_unuse_descr (d, 1) (ucast just_used))
              (mreturn (ucast sz)))))))))"

definition superblock_for_ino :: "('d, 'z) io_state_scheme \<Rightarrow> u32 \<Rightarrow> ext2_superblock" where
  "superblock_for_ino s ino = superblock s"

definition superblock_for_pathname :: "('d, 'z) io_state_scheme \<Rightarrow> bytes \<Rightarrow> ext2_superblock" where
  "superblock_for_pathname s pathname = superblock s"

text \<open>The driver of the disk, if it is there and initialised.\<close>

definition with_disk ::
    "(nat \<Rightarrow> (('d, 'z) virtio_state_scheme, 'a) kernel_op) \<Rightarrow> 'a \<Rightarrow> (('d, 'z) virtio_state_scheme, 'a) kernel_op" where
  "with_disk k failed = (case find_virtio_driver 1 of
     None \<Rightarrow> mreturn failed
   | Some d \<Rightarrow> mbind (get_driver d) (\<lambda>drv. if \<not> initialized drv then mreturn failed else k d))"

text \<open>
  The bytes that are written are taken from memory when the handler is entered, those that are
  read are put there when all of them have arrived; the buffer of the caller does not overlap
  the stack of the kernel.
\<close>

definition disk_write_handler ::
    "'d hw \<Rightarrow> frame \<Rightarrow> u64 \<Rightarrow> u64 \<Rightarrow> u64 \<Rightarrow> (('d, 'z) io_state_scheme, c_int) kernel_op" where
  "disk_write_handler hw fr fd buf sz = with_disk (\<lambda>driver s.
     if \<not> is_fd_open s fd then Ok (- 1) s
     else
       let iod = fds s ! unat fd; superb = superblock_for_ino s (fd_ino iod) in
       mbind (write_to_ino hw fr driver superb (fd_ino iod) (load_bytes buf (unat sz) (ram s)) (fd_pos iod) sz) (\<lambda>r.
       let write_result = ucast r in
       mbind (system_time hw 1) (\<lambda>(ok, tv_sec, tv_nsec).
         if \<not> ok then mreturn (- 1)
         else mbind (set_mtime_for_ino hw fr driver superb (fd_ino iod) (ucast tv_sec)) (\<lambda>ok.
           if \<not> ok then mreturn (- 1) else mreturn write_result))) s) (- 1)"

definition disk_read_handler ::
    "'d hw \<Rightarrow> frame \<Rightarrow> u64 \<Rightarrow> u64 \<Rightarrow> u64 \<Rightarrow> (('d, 'z) io_state_scheme, c_int) kernel_op" where
  "disk_read_handler hw fr fd buf sz =
     (if sz = 0 then mreturn 0
      else with_disk (\<lambda>driver s.
        if \<not> is_fd_open s fd then Ok (- 1) s
        else
          let iod = fds s ! unat fd; superb = superblock_for_ino s (fd_ino iod) in
          mbind (read_from_ino hw fr driver superb (fd_ino iod) (fd_pos iod) sz) (\<lambda>(r, bs).
          mthen (store buf bs)
          (let read_result = ucast r in
           mbind (system_time hw 1) (\<lambda>(ok, tv_sec, tv_nsec).
             if \<not> ok then mreturn (- 1)
             else mbind (set_atime_for_ino hw fr driver superb (fd_ino iod) (ucast tv_sec)) (\<lambda>ok.
               if \<not> ok then mreturn (- 1) else mreturn read_result)))) s) (- 1))"

definition disk_seek_handler :: "u64 \<Rightarrow> u64 \<Rightarrow> c_int \<Rightarrow> (('d, 'z) io_state_scheme, c_int) kernel_op" where
  "disk_seek_handler fd off whence = (\<lambda>s.
     if \<not> is_fd_open s fd then Ok (- 1) s
     else if whence = 1 then
       let pos = fd_pos (fds s ! unat fd) + off in Ok (ucast pos) (set_fd (unat fd) (\<lambda>d. d\<lparr>fd_pos := pos\<rparr>) s)
     else if whence = 2 then Ok (- 1) s
     else if whence = 0 then Ok (ucast off) (set_fd (unat fd) (\<lambda>d. d\<lparr>fd_pos := off\<rparr>) s)
     else Ok (- 1) s)"

definition call_write_handler ::
    "'d hw \<Rightarrow> frame \<Rightarrow> write_handler_t option \<Rightarrow> u64 \<Rightarrow> u64 \<Rightarrow> u64 \<Rightarrow> (('d, 'z) io_state_scheme, c_int) kernel_op" where
  "call_write_handler hw fr h fd buf sz =
     (case h of
        None \<Rightarrow> mfault NullPointer
      | Some Stdout_write_handler \<Rightarrow> stdout_write_handler hw fd buf sz
      | Some Disk_write_handler \<Rightarrow> disk_write_handler hw fr fd buf sz)"

definition call_read_handler ::
    "'d hw \<Rightarrow> frame \<Rightarrow> read_handler_t option \<Rightarrow> u64 \<Rightarrow> u64 \<Rightarrow> u64 \<Rightarrow> (('d, 'z) io_state_scheme, c_int) kernel_op" where
  "call_read_handler hw fr h fd buf sz =
     (case h of None \<Rightarrow> mfault NullPointer | Some Disk_read_handler \<Rightarrow> disk_read_handler hw fr fd buf sz)"

definition call_seek_handler ::
    "seek_handler_t option \<Rightarrow> u64 \<Rightarrow> u64 \<Rightarrow> c_int \<Rightarrow> (('d, 'z) io_state_scheme, c_int) kernel_op" where
  "call_seek_handler h fd off whence =
     (case h of None \<Rightarrow> mfault NullPointer | Some Disk_seek_handler \<Rightarrow> disk_seek_handler fd off whence)"

section \<open>Opening, closing, mounting\<close>

definition configure_stdio :: "(('d, 'z) io_state_scheme, bool) kernel_op" where
  "configure_stdio = mthen (mmodify (set_fd 1 (\<lambda>d. d\<lparr>write_handler := Some Stdout_write_handler, fd_open := True\<rparr>)))
     (mreturn True)"

definition configure_io :: "(('d, 'z) io_state_scheme, unit) kernel_op" where
  "configure_io = mbind configure_stdio (\<lambda>ok.
     if \<not> ok then eprint_str (''There was an error initializing stdio!'' @ [CHR 0x0A]) else mreturn ())"

definition close_fd :: "c_int \<Rightarrow> (('d, 'z) io_state_scheme, c_int) kernel_op" where
  "close_fd fd = (\<lambda>s.
     let i = scast fd :: u64 in
     if \<not> is_fd_valid i \<or> \<not> is_fd_open s i then Ok (- 1) s
     else Ok 0 (set_fd (unat i) (\<lambda>d. d\<lparr>fd_open := False, write_handler := None, read_handler := None, seek_handler := None\<rparr>) s))"

text \<open>\<open>assert (_superblock_mounted)\<close>\<close>

definition assert_mounted :: "(('d, 'z) io_state_scheme, unit) kernel_op" where
  "assert_mounted = (\<lambda>s. if superblock_mounted s then Ok () s else Fault AssertionFailed s)"

definition open_fd :: "'d hw \<Rightarrow> frame \<Rightarrow> bytes \<Rightarrow> (('d, 'z) io_state_scheme, c_int) kernel_op" where
  "open_fd hw fr pathname = with_disk (\<lambda>driver.
     mbind (mgets next_fd) (\<lambda>fd.
       if sint fd < 0 then mreturn fd
       else
         let i = unat fd in
         mthen (mmodify (set_fd i (\<lambda>d. d\<lparr>fd_open := True, write_handler := Some Disk_write_handler,
             read_handler := Some Disk_read_handler, seek_handler := Some Disk_seek_handler\<rparr>)))
         (mthen (\<lambda>s. if \<not> superblock_mounted s
             then mthen (eprint_str (''Superblock is not mounted.'' @ [CHR 0x0A])) assert_mounted s else Ok () s)
         (mbind (mgets (\<lambda>s. superblock_for_pathname s pathname)) (\<lambda>sb.
          mbind (mgets (\<lambda>s. fd_ino (fds s ! i))) (\<lambda>ino.
          mbind (ino_from_path hw fr driver sb pathname (Some ino)) (\<lambda>(ino_found, ino).
          mthen (mmodify (set_fd i (\<lambda>d. d\<lparr>fd_ino := (case ino of Some n \<Rightarrow> n | None \<Rightarrow> fd_ino d)\<rparr>)))
          (mthen (if \<not> ino_found then mthen (eprint_str ''Could not find the inode.'') assert_mounted else mreturn ())
            (mreturn fd))))))))) (- 1)"

definition io_mount_hd :: "'d hw \<Rightarrow> frame \<Rightarrow> (('d, 'z) io_state_scheme, u64) kernel_op" where
  "io_mount_hd hw fr =
     mthen (mmodify (\<lambda>s. s\<lparr>superblock := (superblock s)\<lparr>s_blocks_count := 0, s_inodes_count := 0\<rparr>\<rparr>))
     (with_disk (\<lambda>driver.
       mbind (mgets superblock) (\<lambda>sb.
       mbind (read_superblock hw fr driver sb) (\<lambda>(superblock_read_result, sb).
       mthen (mmodify (\<lambda>s. s\<lparr>superblock := sb\<rparr>))
       (mthen (if s_blocks_per_group sb = 0 then mfault DivisionByZero else mreturn ())
       (mthen (mmodify (\<lambda>s. s\<lparr>superblock_mounted := True\<rparr>))
         (mreturn 0)))))) (- 1))"

end
