(* ===== verification/Framing.thy ===== *)
theory Framing
  imports Io
begin

text \<open>
  What operations leave alone.  \<open>within R m\<close> says that the operation \<open>m\<close>, however it ends, takes a state
  to one related by \<open>R\<close>.  For a reflexive and transitive relation this composes along the constructs in
  which the model is written (locale \<open>frame_relation\<close>).  Two such relations are used: a part \<open>f\<close> of
  the state does not change (\<open>keeps f\<close>), and an invariant \<open>I\<close> stays true (\<open>maintains I\<close>).  Drivers and file
  system keep everything above the driver table (timers, processes, descriptors), whatever the
  devices do.
\<close>

section \<open>Operations that respect a relation on states\<close>

named_theorems frame_intros \<open>operations that respect a relation on states\<close>

definition within :: "('s \<Rightarrow> 's \<Rightarrow> bool) \<Rightarrow> ('s, 'a) kernel_op \<Rightarrow> bool" where
  "within R m \<longleftrightarrow> (\<forall>s. case m s of Ok _ t \<Rightarrow> R s t | Fault _ t \<Rightarrow> R s t)"

lemma withinI: "(\<And>s a t. m s = Ok a t \<Longrightarrow> R s t) \<Longrightarrow> (\<And>s e t. m s = Fault e t \<Longrightarrow> R s t) \<Longrightarrow> within R m"
  by (simp add: within_def split: outcome.split)

lemma within_Ok: "within R m \<Longrightarrow> m s = Ok a t \<Longrightarrow> R s t"
  by (auto simp: within_def dest: spec [of _ s])

lemma within_Fault: "within R m \<Longrightarrow> m s = Fault e t \<Longrightarrow> R s t"
  by (auto simp: within_def dest: spec [of _ s])

lemma within_mono: "within R m \<Longrightarrow> (\<And>s t. R s t \<Longrightarrow> Q s t) \<Longrightarrow> within Q m"
  by (auto intro!: withinI dest: within_Ok within_Fault)

lemma within_mmodify: "(\<And>s. R s (g s)) \<Longrightarrow> within R (mmodify g)"
  by (simp add: within_def monad_simps)

lemma within_if [frame_intros]: "(c \<Longrightarrow> within R m) \<Longrightarrow> (\<not> c \<Longrightarrow> within R n) \<Longrightarrow> within R (if c then m else n)"
  by simp

lemma within_let [frame_intros]: "(\<And>x. within R (m x)) \<Longrightarrow> within R (let x = e in m x)"
  by (simp add: Let_def)

lemma within_case_option [frame_intros]:
  "within R m \<Longrightarrow> (\<And>x. within R (k x)) \<Longrightarrow> within R (case r of None \<Rightarrow> m | Some x \<Rightarrow> k x)"
  by (cases r) simp_all

lemma within_case_prod [frame_intros]: "(\<And>x y. within R (k x y)) \<Longrightarrow> within R (case p of (x, y) \<Rightarrow> k x y)"
  by (cases p) simp

text \<open>Operations that look at the state first.\<close>

lemma within_guard [frame_intros]: "within R m \<Longrightarrow> within R n \<Longrightarrow> within R (\<lambda>s. if P s then m s else n s)"
  by (simp add: within_def)

lemma within_choose [frame_intros]:
  "within R n \<Longrightarrow> (\<And>b. within R (m b)) \<Longrightarrow> within R (\<lambda>s. case p s of None \<Rightarrow> n s | Some b \<Rightarrow> m b s)"
  by (simp add: within_def split: option.split)

lemma within_state: "(\<And>x. within R (m x)) \<Longrightarrow> within R (\<lambda>s. m (g s) s)"
  by (simp add: within_def)

lemma mthen_mbind: "mthen m k = mbind m (\<lambda>_. k)"
  by (rule ext) (simp add: mthen_def mbind_def)

locale frame_relation =
  fixes R :: "'s \<Rightarrow> 's \<Rightarrow> bool"
  assumes refl: "R s s" and trans: "R s t \<Longrightarrow> R t u \<Longrightarrow> R s u"
begin

lemma within_Okay [frame_intros]: "within R (\<lambda>s. Ok (g s) s)"
  by (simp add: within_def refl)

lemma within_stop [frame_intros]: "within R (\<lambda>s. Fault e s)"
  by (simp add: within_def refl)

lemma within_mreturn [frame_intros]: "within R (mreturn a)"
  by (simp add: within_def monad_simps refl)

lemma within_mfault [frame_intros]: "within R (mfault e)"
  by (simp add: within_def monad_simps refl)

lemma within_mgets [frame_intros]: "within R (mgets g)"
  by (simp add: within_def monad_simps refl)

lemma within_mbind [frame_intros]:
  assumes "within R m" "\<And>a. within R (k a)"
  shows "within R (mbind m k)"
proof (rule withinI)
  fix s a t
  assume "mbind m k s = Ok a t"
  then obtain b u where "m s = Ok b u" "k b u = Ok a t"
    by (auto simp: mbind_def split: outcome.splits)
  then show "R s t"
    using within_Ok [OF assms(1)] within_Ok [OF assms(2)] trans by blast
next
  fix s e t
  assume "mbind m k s = Fault e t"
  then consider "m s = Fault e t" | b u where "m s = Ok b u" "k b u = Fault e t"
    by (auto simp: mbind_def split: outcome.splits)
  then show "R s t"
  proof cases
    case 1
    then show ?thesis by (rule within_Fault [OF assms(1)])
  next
    case 2
    then show ?thesis
      using within_Ok [OF assms(1)] within_Fault [OF assms(2)] trans by blast
  qed
qed

lemma within_mthen [frame_intros]: "within R m \<Longrightarrow> within R k \<Longrightarrow> within R (mthen m k)"
  unfolding mthen_mbind by (rule within_mbind)

lemmas within_intros = within_Okay within_stop within_mreturn within_mfault within_mgets within_mbind within_mthen

end

abbreviation keeps :: "('s \<Rightarrow> 'b) \<Rightarrow> ('s, 'a) kernel_op \<Rightarrow> bool" where
  "keeps f \<equiv> within (\<lambda>s t. f t = f s)"

abbreviation maintains :: "('s \<Rightarrow> bool) \<Rightarrow> ('s, 'a) kernel_op \<Rightarrow> bool" where
  "maintains I \<equiv> within (\<lambda>s t. I s \<longrightarrow> I t)"

interpretation part: frame_relation "\<lambda>s t. f t = f s" for f
  by unfold_locales simp_all

interpretation invar: frame_relation "\<lambda>s t. I s \<longrightarrow> I t" for I
  by unfold_locales simp_all

lemmas keeps_Ok = within_Ok [where R = "\<lambda>s t. f t = f s" for f]

section \<open>Drivers\<close>

abbreviation upper :: "('d, 'z) virtio_state_scheme \<Rightarrow> 'z" where
  "upper \<equiv> virtio_state.more"

lemma keeps_eprint_str [frame_intros]: "keeps upper (eprint_str cs)"
  by (simp add: within_def monad_simps)

lemma keeps_epoweroff [frame_intros]: "keeps upper epoweroff"
  by (simp add: within_def monad_simps)

lemma keeps_mbus [frame_intros]: "keeps upper (mbus g)"
  by (simp add: within_def monad_simps)

lemma keeps_get_driver [frame_intros]: "keeps upper (get_driver d)"
  by (simp add: within_def get_driver_def)

lemma keeps_set_driver [frame_intros]: "keeps upper (set_driver d v)"
  unfolding set_driver_def by (rule within_mmodify) simp

lemma keeps_get_vring [frame_intros]: "keeps upper (get_vring r)"
  unfolding get_vring_def by (intro frame_intros)

lemma keeps_set_vring [frame_intros]: "keeps upper (set_vring r v)"
  unfolding set_vring_def by (cases r) (auto intro!: frame_intros)

lemma keeps_set_desc [frame_intros]: "keeps upper (set_desc p i item)"
  by (simp add: within_def set_desc_def monad_simps)

lemma keeps_use_descr [frame_intros]: "keeps upper (vring_use_descr r)"
  unfolding vring_use_descr_def by (intro frame_intros)

lemma keeps_unuse_descr [frame_intros]: "keeps upper (vring_unuse_descr r n)"
  unfolding vring_unuse_descr_def by (intro frame_intros)

lemma keeps_add_to_descr [frame_intros]: "keeps upper (vring_add_to_descr r buf sz flags w ends)"
  unfolding vring_add_to_descr_def by (intro frame_intros)

lemma keeps_post_descr [frame_intros]: "keeps upper (vring_post_descr r i)"
  unfolding vring_post_descr_def by (intro frame_intros)

lemma keeps_wait_completion [frame_intros]: "keeps upper (vring_wait_completion hw r)"
  unfolding vring_wait_completion_def by (intro frame_intros)

lemma keeps_signal [frame_intros]: "keeps upper (signal_virtio_device hw d sig)"
  unfolding signal_virtio_device_def by (intro frame_intros)

lemma keeps_randomness_chunk [frame_intros]: "keeps upper (randomness_chunk hw fr d buffer len filled next)"
  unfolding randomness_chunk_def by (intro frame_intros)

lemma keeps_randomness_loop [frame_intros]: "keeps upper (randomness_loop hw fr d buffer len filled next)"
proof (induction hw fr d buffer len filled "next" rule: randomness_loop.induct)
  case (1 hw fr d buffer len filled "next")
  show ?case
    by (subst randomness_loop.simps) (use "1" in \<open>intro frame_intros, auto\<close>)
qed

lemma keeps_get_randomness [frame_intros]: "keeps upper (virtio_get_randomness hw fr buffer len)"
  unfolding virtio_get_randomness_def by (intro frame_intros)

section \<open>Block driver and file system\<close>

lemma keeps_store [frame_intros]: "keeps upper (store p bs)"
  unfolding store_def by (intro frame_intros)

lemma keeps_write_sector [frame_intros]: "keeps upper (virtio_blk_write_sector_sync hw fr d sector p)"
  unfolding virtio_blk_write_sector_sync_def by (intro frame_intros)

lemma keeps_read_sector [frame_intros]: "keeps upper (virtio_blk_read_sector_sync hw fr d sector p)"
  unfolding virtio_blk_read_sector_sync_def by (intro frame_intros)

lemma keeps_blk_read_loop [frame_intros]: "keeps upper (virtio_blk_read_loop hw fr d offset sz amt out)"
proof (induction hw fr d offset sz amt out rule: virtio_blk_read_loop.induct)
  case (1 hw fr d offset sz amt out)
  show ?case
    by (subst virtio_blk_read_loop.simps) (auto simp: Let_def intro!: frame_intros "1" [OF _ refl refl refl])
qed

lemma keeps_blk_read_sync [frame_intros]: "keeps upper (virtio_blk_read_sync hw fr d offset sz)"
  unfolding virtio_blk_read_sync_def by (intro frame_intros)

lemma keeps_blk_write_loop [frame_intros]: "keeps upper (virtio_blk_write_loop hw fr d input offset sz amt)"
proof (induction hw fr d input offset sz amt rule: virtio_blk_write_loop.induct)
  case (1 hw fr d input offset sz amt)
  show ?case
    by (subst virtio_blk_write_loop.simps) (auto simp: Let_def intro!: frame_intros "1" [OF _ refl refl refl])
qed

lemma keeps_blk_write_sync [frame_intros]: "keeps upper (virtio_blk_write_sync hw fr d input offset sz)"
  unfolding virtio_blk_write_sync_def by (intro frame_intros)

text \<open>
  The file system touches the state through the block functions and messages only, so it
  respects every relation that these respect.
\<close>

lemma within_case_dirent [frame_intros]:
  "(\<And>n. within R (found n)) \<Longrightarrow> within R absent \<Longrightarrow> within R overrun \<Longrightarrow>
   within R (case r of Found n \<Rightarrow> found n | Absent \<Rightarrow> absent | Overrun \<Rightarrow> overrun)"
  by (cases r) simp_all

lemma ino_chunk_decreases: "amt < len \<Longrightarrow> unat len - unat (amt + ino_chunk offset len amt) < unat len - unat amt"
  using ino_chunk_progress(1-3) [of amt len offset] by linarith

locale disk_relation = frame_relation R
  for R :: "('d, 'z) virtio_state_scheme \<Rightarrow> ('d, 'z) virtio_state_scheme \<Rightarrow> bool" +
  fixes hw :: "'d hw" and fr :: frame and d :: nat
  assumes blk_read [frame_intros]: "within R (virtio_blk_read_sync hw fr d offset sz)"
    and blk_write [frame_intros]: "within R (virtio_blk_write_sync hw fr d input offset sz)"
    and print [frame_intros]: "within R (eprint_str cs)"
begin

lemma bg_from_bgno_within [frame_intros]: "within R (bg_from_bgno hw fr d superb bgno)"
  unfolding bg_from_bgno_def by (intro frame_intros)

lemma ino_disk_offset_within [frame_intros]: "within R (ino_disk_offset hw fr d superb ino)"
  unfolding ino_disk_offset_def by (intro frame_intros)

lemma inode_to_ino_within [frame_intros]: "within R (inode_to_ino hw fr d superb inode ino)"
  unfolding inode_to_ino_def by (intro frame_intros)

lemma inode_from_ino_within [frame_intros]: "within R (inode_from_ino hw fr d superb inode ino)"
  unfolding inode_from_ino_def by (intro frame_intros)

lemma dir_blocks_within [frame_intros]: "within R (inode_from_dir_blocks hw fr d superb path bs inode ino)"
  by (induction bs) (auto intro!: frame_intros)

lemma inode_from_dir_within [frame_intros]: "within R (inode_from_dir hw fr d superb path dir inode ino)"
  unfolding inode_from_dir_def by (intro frame_intros)

lemma path_walk_within [frame_intros]: "within R (path_walk hw fr d superb path inode ino)"
proof (induction "length path" arbitrary: path inode ino rule: less_induct)
  case less
  show ?case
  proof (cases "strtok path")
    case None
    then show ?thesis by (subst path_walk.simps) (simp add: within_mreturn)
  next
    case (Some p)
    then show ?thesis
      using less strtok_shorter by (subst path_walk.simps) (cases p; auto intro!: frame_intros)
  qed
qed

lemma ino_from_path_within [frame_intros]: "within R (ino_from_path hw fr d superb path ino)"
  unfolding ino_from_path_def by (intro frame_intros)

lemma read_superblock_within [frame_intros]: "within R (read_superblock hw fr d superb)"
  unfolding read_superblock_def by (intro frame_intros)

lemma read_ino_loop_within [frame_intros]: "within R (read_ino_loop hw fr d inode offset len redden buffer)"
proof (induction "unat len - unat redden" arbitrary: redden buffer rule: less_induct)
  case less
  from less ino_chunk_decreases show ?case
    by (subst read_ino_loop.simps) (auto simp: Let_def intro!: frame_intros)
qed

lemma read_from_ino_within [frame_intros]: "within R (read_from_ino hw fr d superb ino offset len)"
  unfolding read_from_ino_def by (intro frame_intros)

lemma write_ino_loop_within [frame_intros]: "within R (write_ino_loop hw fr d inode buffer offset len written)"
proof (induction "unat len - unat written" arbitrary: written rule: less_induct)
  case less
  from less ino_chunk_decreases show ?case
    by (subst write_ino_loop.simps) (auto simp: Let_def intro!: frame_intros)
qed

lemma write_to_ino_within [frame_intros]: "within R (write_to_ino hw fr d superb ino buffer offset len)"
  unfolding write_to_ino_def by (intro frame_intros)

lemma set_atime_within [frame_intros]: "within R (set_atime_for_ino hw fr d superb ino t)"
  unfolding set_atime_for_ino_def by (intro frame_intros)

lemma set_mtime_within [frame_intros]: "within R (set_mtime_for_ino hw fr d superb ino t)"
  unfolding set_mtime_for_ino_def by (intro frame_intros)

end

interpretation fs: disk_relation "\<lambda>s t. upper t = upper s" hw fr d for hw fr d
  by unfold_locales (intro frame_intros)+

end
