(* ===== verification/Descriptors.thy ===== *)
theory Descriptors
  imports Framing
begin

text \<open>
  The descriptor table as its users see it: a finite map from numbers to open files.  The locale
  \<open>fd_table\<close> states what such a table promises, the interpretation \<open>fd\<close> shows it for the array of
  io.c, and opening and closing are shown to be insertion at the lowest free number and
  deletion.
\<close>

section \<open>Interface\<close>

locale fd_table =
  fixes inv :: "'s \<Rightarrow> bool" and view :: "'s \<Rightarrow> nat \<Rightarrow> 'e option" and bound :: nat
    and fresh :: "'s \<Rightarrow> nat option" and install release :: "nat \<Rightarrow> 's \<Rightarrow> 's"
  assumes outside: "inv s \<Longrightarrow> bound \<le> i \<Longrightarrow> view s i = None"
    and fresh_Some: "inv s \<Longrightarrow> fresh s = Some i \<longleftrightarrow> i < bound \<and> view s i = None \<and> (\<forall>j<i. view s j \<noteq> None)"
    and install: "inv s \<Longrightarrow> i < bound \<Longrightarrow> inv (install i s) \<and> (\<exists>e. view (install i s) = (view s)(i \<mapsto> e))"
    and release: "inv s \<Longrightarrow> i < bound \<Longrightarrow> inv (release i s) \<and> view (release i s) = (view s)(i := None)"
begin

lemma fresh_None: "inv s \<Longrightarrow> fresh s = None \<longleftrightarrow> (\<forall>i<bound. view s i \<noteq> None)"
proof (cases "\<exists>i<bound. view s i = None")
  case True
  then obtain i where i: "i < bound \<and> view s i = None" "\<forall>j<i. \<not> (j < bound \<and> view s j = None)"
    using exists_least_iff [of "\<lambda>i. i < bound \<and> view s i = None"] by auto
  assume "inv s"
  moreover have "\<forall>j<i. view s j \<noteq> None" using i by auto
  ultimately have "fresh s = Some i" using i(1) fresh_Some by auto
  with True show ?thesis by auto
next
  case False
  assume "inv s"
  with False fresh_Some have "fresh s = None" by (cases "fresh s") auto
  with False show ?thesis by auto
qed

text \<open>A closed number is given out again before any higher one.\<close>

lemma fresh_release:
  assumes "inv s" and "i < bound"
  obtains j where "fresh (release i s) = Some j" and "j \<le> i"
proof -
  note r = release [OF assms]
  then obtain j where "fresh (release i s) = Some j"
    using fresh_None [of "release i s"] assms(2) by (cases "fresh (release i s)") auto
  moreover from this have "j \<le> i" using r fresh_Some [of "release i s" j] by (auto simp: not_le [symmetric])
  ultimately show thesis by (rule that)
qed

lemma fresh_release_install:
  assumes "inv s" and "fresh s = Some i"
  shows "fresh (release i (install i s)) = Some i"
proof -
  have i: "i < bound" "view s i = None" "\<forall>j<i. view s j \<noteq> None" using fresh_Some [OF assms(1)] assms(2) by auto
  obtain e where "inv (install i s)" and e: "view (install i s) = (view s)(i \<mapsto> e)"
    using install [OF assms(1) i(1)] by auto
  with release [of "install i s" i] i(1) have "inv (release i (install i s))" "view (release i (install i s)) = (view s)(i := None)"
    by auto
  with i show ?thesis by (subst fresh_Some) auto
qed

end

section \<open>The array of descriptors\<close>

datatype open_file = Console | File u32 u64

definition fd_ok :: "io_descriptor \<Rightarrow> bool" where
  "fd_ok d \<longleftrightarrow> (write_handler d, read_handler d, seek_handler d) \<in>
     (if fd_open d then {(Some Stdout_write_handler, None, None), (Some Disk_write_handler, Some Disk_read_handler, Some Disk_seek_handler)}
      else {(None, None, None)})"

definition fds_ok :: "('d, 'z) io_state_scheme \<Rightarrow> bool" where
  "fds_ok s \<longleftrightarrow> length (fds s) = max_fd \<and> list_all fd_ok (fds s)"

definition open_view :: "io_descriptor \<Rightarrow> open_file option" where
  "open_view d = (if \<not> fd_open d then None
     else if write_handler d = Some Stdout_write_handler then Some Console else Some (File (fd_ino d) (fd_pos d)))"

definition fd_view :: "('d, 'z) io_state_scheme \<Rightarrow> nat \<Rightarrow> open_file option" where
  "fd_view s i = (if i < length (fds s) then open_view (fds s ! i) else None)"

definition fresh_fd :: "('d, 'z) io_state_scheme \<Rightarrow> nat option" where
  "fresh_fd s = (if sint (next_fd s) < 0 then None else Some (unat (next_fd s)))"

definition disk_fd :: "io_descriptor \<Rightarrow> io_descriptor" where
  "disk_fd d = d\<lparr>fd_open := True, write_handler := Some Disk_write_handler, read_handler := Some Disk_read_handler,
     seek_handler := Some Disk_seek_handler\<rparr>"

definition closed_fd :: "io_descriptor \<Rightarrow> io_descriptor" where
  "closed_fd d = d\<lparr>fd_open := False, write_handler := None, read_handler := None, seek_handler := None\<rparr>"

lemma fd_funs:
  "(\<lambda>d. d\<lparr>fd_open := False, write_handler := None, read_handler := None, seek_handler := None\<rparr>) = closed_fd"
  "(\<lambda>d. d\<lparr>fd_open := True, write_handler := Some Disk_write_handler, read_handler := Some Disk_read_handler,
     seek_handler := Some Disk_seek_handler\<rparr>) = disk_fd"
  by (simp_all add: closed_fd_def disk_fd_def fun_eq_iff)

lemma fd_ok_simps [simp]: "fd_ok (disk_fd d)" "fd_ok (closed_fd d)" "fd_ok (d\<lparr>fd_pos := p\<rparr>) = fd_ok d"
  "fd_ok (d\<lparr>fd_ino := n\<rparr>) = fd_ok d" "open_view (disk_fd d) = Some (File (fd_ino d) (fd_pos d))"
  "open_view (closed_fd d) = None" "open_view d = None \<longleftrightarrow> \<not> fd_open d"
  by (auto simp: fd_ok_def disk_fd_def closed_fd_def open_view_def)

lemma set_fd_simps [simp]:
  "bus (set_fd i f s) = bus s" "console (set_fd i f s) = console s" "virtio_drivers (set_fd i f s) = virtio_drivers s"
  "superblock (set_fd i f s) = superblock s" "superblock_mounted (set_fd i f s) = superblock_mounted s"
  "fds (set_fd i f s) = (fds s)[i := f (fds s ! i)]" "io_state.more (set_fd i f s) = io_state.more s"
  "set_fd i f (set_fd i g s) = set_fd i (f \<circ> g) s"
  by (simp_all add: set_fd_def) (cases "i < length (fds s)"; simp add: list_update_beyond)

lemma length_fds: "fds_ok s \<Longrightarrow> length (fds s) = max_fd"
  by (simp add: fds_ok_def)

lemma fds_ok_set_fd: "fds_ok s \<Longrightarrow> fd_ok (f (fds s ! i)) \<Longrightarrow> fds_ok (set_fd i f s)"
  by (cases "i < length (fds s)") (auto simp: fds_ok_def list_all_length nth_list_update list_update_beyond)

lemma fd_view_set_fd: "i < length (fds s) \<Longrightarrow> fd_view (set_fd i f s) = (fd_view s)(i := open_view (f (fds s ! i)))"
  by (auto simp: fd_view_def fun_eq_iff nth_list_update)

lemma next_fd_cases:
  assumes "fds_ok s"
  obtains "next_fd s = - 1" and "\<forall>i<max_fd. fd_open (fds s ! i)"
  | i where "next_fd s = of_nat i" and "i < max_fd" and "\<not> fd_open (fds s ! i)" and "\<forall>j<i. fd_open (fds s ! j)"
proof (cases "find (\<lambda>i. \<not> fd_open (fds s ! i)) [0..<max_fd]")
  case None
  moreover from this have "\<forall>i<max_fd. fd_open (fds s ! i)" by (simp add: find_None_iff)
  ultimately show thesis using that(1) by (simp add: next_fd_def)
next
  case (Some i)
  moreover from this have "i < max_fd" "\<not> fd_open (fds s ! i)" "\<forall>j<i. fd_open (fds s ! j)"
    by (auto simp: find_Some_iff)
  ultimately show thesis using that(2) [of i] by (simp add: next_fd_def)
qed

lemma small_int: "i < max_fd \<Longrightarrow> sint (of_nat i :: c_int) = int i" "i < max_fd \<Longrightarrow> unat (of_nat i :: c_int) = i"
proof -
  assume i: "i < max_fd"
  then have "signed_take_bit 31 (int i) = int i"
    by (intro signed_take_bit_int_eq_self) (simp_all add: max_fd_def)
  then show "sint (of_nat i :: c_int) = int i" by (simp add: signed_of_nat)
  show "unat (of_nat i :: c_int) = i" using i by (subst unat_of_nat_small) (simp_all add: max_fd_def)
qed

lemma fresh_fd_Some:
  assumes "fds_ok s"
  shows "fresh_fd s = Some i \<longleftrightarrow> i < max_fd \<and> fd_view s i = None \<and> (\<forall>j<i. fd_view s j \<noteq> None)"
proof -
  have len: "length (fds s) = max_fd" using assms by (simp add: fds_ok_def)
  show ?thesis
  proof (cases rule: next_fd_cases [OF assms])
    case 1
    then have "fresh_fd s = None" "\<forall>i<max_fd. fd_view s i \<noteq> None" using len by (simp_all add: fresh_fd_def fd_view_def)
    then show ?thesis by auto
  next
    case (2 j)
    then have "fresh_fd s = Some j" by (simp add: fresh_fd_def small_int)
    moreover have "fd_view s j = None" "\<forall>k<j. fd_view s k \<noteq> None" using 2 len by (auto simp: fd_view_def)
    ultimately show ?thesis using 2(2) by (cases i j rule: linorder_cases) auto
  qed
qed

interpretation fd: fd_table fds_ok fd_view max_fd fresh_fd "\<lambda>i. set_fd i disk_fd" "\<lambda>i. set_fd i closed_fd"
proof
  show "fd_view s i = None" if "fds_ok s" "max_fd \<le> i" for i and s :: "('a, 'b) io_state_scheme"
    using that by (simp add: fds_ok_def fd_view_def)
qed (auto simp: fresh_fd_Some fds_ok_set_fd fd_view_set_fd length_fds)

section \<open>Closing\<close>

lemma is_fd_open_view: "fds_ok s \<Longrightarrow> is_fd_open s fd \<longleftrightarrow> fd_view s (unat fd) \<noteq> None"
  by (simp add: is_fd_open_def is_fd_valid_def fd_view_def length_fds max_fd_def word_less_nat_alt del: not_None_eq)

lemma fd_of_int: "0 \<le> sint fd \<Longrightarrow> unat (scast (fd :: c_int) :: u64) = nat (sint fd)"
  "sint fd < 0 \<Longrightarrow> max_fd \<le> unat (scast (fd :: c_int) :: u64)"
proof -
  have "unat (of_int (sint fd) :: u64) = nat (take_bit 64 (sint fd))" by (simp only: unsigned_of_int) simp
  then have u: "unat (scast fd :: u64) = nat (sint fd mod 2 ^ 64)" by (simp add: take_bit_eq_mod)
  have b: "- (2 ^ 31) \<le> sint fd" "sint fd < 2 ^ 31" using sint_range_size [of fd] by (simp_all add: word_size)
  show "unat (scast fd :: u64) = nat (sint fd)" if "0 \<le> sint fd"
    using that b u by simp
  show "max_fd \<le> unat (scast fd :: u64)" if "sint fd < 0"
  proof -
    have "sint fd mod 2 ^ 64 = sint fd + 2 ^ 64" using that b by (intro int_mod_pos_eq [of _ _ "- 1"]) auto
    with u b show ?thesis by (simp add: max_fd_def)
  qed
qed

text \<open>
  C17.  Closing a descriptor that is open deletes exactly it from the table and returns 0; for a
  negative number, one that is too large or one that is not open nothing changes and the result
  is -1.
\<close>

theorem close_fd_correct:
  assumes "fds_ok s"
  shows "(0 \<le> sint fd \<and> fd_view s (nat (sint fd)) \<noteq> None \<longrightarrow>
      (\<exists>t. close_fd fd s = Ok 0 t \<and> fds_ok t \<and> fd_view t = (fd_view s)(nat (sint fd) := None) \<and> t = s\<lparr>fds := fds t\<rparr>)) \<and>
    (sint fd < 0 \<or> fd_view s (nat (sint fd)) = None \<longrightarrow> close_fd fd s = Ok (- 1) s)"
proof -
  let ?i = "unat (scast fd :: u64)"
  have closed: "close_fd fd s = (if fd_view s ?i = None then Ok (- 1) s else Ok 0 (set_fd ?i closed_fd s))"
    using is_fd_open_view [OF assms, of "scast fd"] by (simp add: close_fd_def Let_def fd_funs is_fd_open_def del: not_None_eq) blast
  have "?i < max_fd" if "fd_view s ?i \<noteq> None" using that fd.outside [OF assms] by (meson not_le)
  then have "fds_ok (set_fd ?i closed_fd s) \<and> fd_view (set_fd ?i closed_fd s) = (fd_view s)(?i := None)"
    if "fd_view s ?i \<noteq> None" using that fd.release [OF assms] by blast
  moreover have "set_fd ?i closed_fd s = s\<lparr>fds := fds (set_fd ?i closed_fd s)\<rparr>" by (simp add: set_fd_def)
  ultimately show ?thesis
    using closed fd_of_int [of fd] fd.outside [OF assms, of ?i] by (cases "sint fd < 0") auto
qed

section \<open>Opening\<close>

lemma blk_ready_cong:
  "bus s = bus t \<Longrightarrow> virtio_drivers s = virtio_drivers t \<Longrightarrow> blk_ready hw dv d s = blk_ready hw dv d t"
  by (simp add: blk_ready_def vring_at_def)

lemma disk_cong: "bus s = bus t \<Longrightarrow> disk_byte dv s = disk_byte dv t" "bus s = bus t \<Longrightarrow> disk_ok dv s = disk_ok dv t"
  by (simp_all add: disk_byte_def disk_ok_def fun_eq_iff)

lemma inode_ok_cong: "bus s = bus t \<Longrightarrow> inode_ok dv s = inode_ok dv t"
  by (simp add: inode_ok_def region_ok_def disk_cong [of s t] fun_eq_iff)

lemma resolve_cong: "bus s = bus t \<Longrightarrow> resolve dv s sb xs inode ino = resolve dv t sb xs inode ino"
proof (induction xs arbitrary: inode ino)
  case (Cons x xs)
  then show ?case
    by (simp add: blocks_ok_def region_ok_def disk_cong [of s t] inode_ok_cong [of s t] split: option.split)
qed simp

lemma with_disk_at:
  "Suc 0 < length (virtio_drivers s) \<Longrightarrow>
   with_disk k failed s = (if initialized (virtio_drivers s ! 1) then k 1 s else Ok failed s)"
  by (simp add: with_disk_def find_virtio_driver_def get_driver_def monad_simps)

lemma fds_ok_fds: "fds s = fds t \<Longrightarrow> fds_ok s = fds_ok t"
  by (simp add: fds_ok_def)

lemma fd_view_fds: "fds s = fds t \<Longrightarrow> fd_view s = fd_view t"
  by (simp add: fd_view_def fun_eq_iff)

lemma fds_console: "fds_ok (s\<lparr>console := x\<rparr>) = fds_ok s" "fd_view (s\<lparr>console := x\<rparr>) = fd_view s"
  by (simp_all add: fds_ok_def fd_view_def fun_eq_iff)

lemma disk_byte_console: "disk_byte dv (s\<lparr>console := x\<rparr>) = disk_byte dv s"
  by (simp add: disk_byte_def fun_eq_iff)

lemma disk_ok_console: "disk_ok dv (s\<lparr>console := x\<rparr>) = disk_ok dv s"
  by (rule disk_cong) simp

lemma upper_io:
  fixes s t :: "('d, 'z) io_state_scheme"
  assumes "upper t = upper s"
  shows "fds t = fds s" "superblock t = superblock s" "superblock_mounted t = superblock_mounted s" "current t = current s"
    "io_state.more t = io_state.more s"
  using assms by (cases s; cases t; simp)+

lemma next_fd_fresh: "fds_ok s \<Longrightarrow> fresh_fd s = Some i \<Longrightarrow> next_fd s = of_nat i \<and> i < max_fd"
  by (rule next_fd_cases [of s]) (auto simp: fresh_fd_def small_int)

lemma next_fd_full: "fds_ok s \<Longrightarrow> fresh_fd s = None \<Longrightarrow> next_fd s = - 1"
  by (rule next_fd_cases [of s]) (auto simp: fresh_fd_def small_int)

text \<open>What opening does once a free descriptor has been found.\<close>

definition not_found_msg :: string where
  "not_found_msg = ''Could not find the inode.''"

lemma open_fd_at:
  assumes "Suc 0 < length (virtio_drivers s)" and "initialized (virtio_drivers s ! 1)" and "fds_ok s"
    and "fresh_fd s = Some i" and "superblock_mounted s"
    and walk: "ino_from_path hw fr 1 (superblock s) path (Some (fd_ino (fds s ! i))) (set_fd i disk_fd s) = Ok (found, Some n) t"
  shows "open_fd hw fr path s = Ok (of_nat i) (if found then set_fd i (\<lambda>d. d\<lparr>fd_ino := n\<rparr>) t
    else (set_fd i (\<lambda>d. d\<lparr>fd_ino := n\<rparr>) t)\<lparr>console := console t @ map of_char not_found_msg\<rparr>)"
proof -
  have i: "next_fd s = of_nat i" "i < max_fd" using next_fd_fresh assms(3,4) by auto
  have "fd_ino (fds (set_fd i disk_fd s) ! i) = fd_ino (fds s ! i)"
    using i length_fds [OF assms(3)] by (simp add: disk_fd_def)
  moreover have "superblock_mounted t" using upper_io(3) [OF keeps_Ok [OF fs.ino_from_path_within walk]] assms(5) by simp
  ultimately show ?thesis
    using assms i
    by (simp add: open_fd_def with_disk_at monad_simps small_int fd_funs Let_def superblock_for_pathname_def
      assert_mounted_def not_found_msg_def)
qed

text \<open>The table at start-up: the console at number 1, everything else closed; and a mounted disk.\<close>

definition zero_fd :: io_descriptor where
  "zero_fd = \<lparr>fd_open = False, fd_pos = 0, fd_ino = 0, write_handler = None, read_handler = None, seek_handler = None\<rparr>"

definition io_init :: "'d os_state \<Rightarrow> ext2_superblock \<Rightarrow> bool \<Rightarrow> 'd io_state" where
  "io_init s sb m = os_state.extend s (io_state.fields (replicate max_fd zero_fd) sb m)"

definition ref_io :: "ref_disk io_state" where
  "ref_io = (case configure_io (io_init (os_init ref_fs 0 0) ref_sb True) of Ok _ s \<Rightarrow> s)"

lemma ref_io_simps [simp]:
  "bus ref_io = bus ref_fs" "virtio_drivers ref_io = virtio_drivers ref_fs"
  "superblock ref_io = ref_sb" "superblock_mounted ref_io"
  "fds ref_io = (replicate max_fd zero_fd)[1 := zero_fd\<lparr>write_handler := Some Stdout_write_handler, fd_open := True\<rparr>]"
  by (simp_all add: ref_io_def configure_io_def configure_stdio_def monad_simps io_init_def os_init_def
    os_state.defs io_state.defs virtio_state.defs max_fd_def)

lemma ref_io_fds: "fds_ok ref_io" "fresh_fd ref_io = Some 0" "fd_view ref_io = [1 \<mapsto> Console]"
proof -
  show ok: "fds_ok ref_io"
    by (auto simp: fds_ok_def list_all_length nth_list_update fd_ok_def zero_fd_def max_fd_def)
  show view: "fd_view ref_io = [1 \<mapsto> Console]"
    by (auto simp: fd_view_def open_view_def zero_fd_def fun_eq_iff nth_list_update max_fd_def)
  show "fresh_fd ref_io = Some 0"
    using fd.fresh_Some [OF ok, of 0] by (simp add: view max_fd_def)
qed

lemma ref_io_ready: "blk_ready (ref_hw ref_vring) ref_view 1 ref_io \<and> frame_ok ref_frame (blk_buf ref_frame)"
  using ref_fs_ready blk_ready_cong [of ref_io ref_fs] by simp

theorem close_fd_correct_witness:
  "(\<exists>t. close_fd 1 ref_io = Ok 0 t \<and> fd_view t = Map.empty) \<and> close_fd (- 1) ref_io = Ok (- 1) ref_io"
  using close_fd_correct [OF ref_io_fds(1), of 1] close_fd_correct [OF ref_io_fds(1), of "- 1"]
  by (auto simp: ref_io_fds)

lemma open_fd_run:
  assumes "fs_ready hw dv fr 1 s" and "length (uninit fr 1024) = 1024" and "inode_ok dv s (superblock s) 2"
    and "fds_ok s" and "fresh_fd s = Some i" and "superblock_mounted s"
    and "resolve dv s (superblock s) (components path) (inode_at (disk_byte dv s) (superblock s) 2)
      (Some (fd_ino (fds s ! i))) = Some (found, inode, Some n)"
  shows "\<exists>t. open_fd hw fr path s = Ok (of_nat i) t \<and> fds_ok t \<and>
    fd_view t = (fd_view s)(i \<mapsto> File n (fd_pos (fds s ! i))) \<and> (\<forall>j<i. fd_view s j \<noteq> None) \<and>
    fs_ready hw dv fr 1 t \<and> disk_byte dv t = disk_byte dv s \<and>
    console t = console s @ (if found then [] else map of_char ''Could not find the inode.'') \<and>
    disk_ok dv t = disk_ok dv s \<and> superblock t = superblock s \<and> io_state.more t = io_state.more s"
proof -
  let ?u = "set_fd i disk_fd s"
  have i: "i < max_fd" "\<forall>j<i. fd_view s j \<noteq> None" using fd.fresh_Some [OF assms(4)] assms(5) by auto
  have len: "i < length (fds s)" using i length_fds [OF assms(4)] by simp
  have u: "fs_ready hw dv fr 1 ?u" "inode_ok dv ?u (superblock s) 2" "disk_byte dv ?u = disk_byte dv s"
    using assms(1,3) blk_ready_cong [of ?u s] inode_ok_cong [of ?u s dv] disk_cong [of ?u s] by simp_all
  obtain t where walk: "ino_from_path hw fr 1 (superblock s) path (Some (fd_ino (fds s ! i))) ?u = Ok (found, Some n) t"
    and t: "fs_ready hw dv fr 1 t" "same_disk dv ?u t"
    using ino_from_path_run [OF u(1) assms(2) u(2)] assms(7) by (simp add: u(3) resolve_cong [of ?u s]) blast
  have driver: "Suc 0 < length (virtio_drivers s)" "initialized (virtio_drivers s ! 1)"
    using assms(1) by (simp_all add: blk_ready_def)
  let ?v = "set_fd i (\<lambda>d. d\<lparr>fd_ino := n\<rparr>) t"
  have fds: "fds t = fds ?u" and con: "console t = console s" "disk_byte dv t = disk_byte dv s"
    using upper_io(1) [OF keeps_Ok [OF fs.ino_from_path_within walk]] t(2) u(3) by (auto simp: same_disk_def io_only_def)
  have tk: "fds_ok t" "fd_view t = (fd_view s)(i \<mapsto> File (fd_ino (fds s ! i)) (fd_pos (fds s ! i)))"
    using fds_ok_set_fd [OF assms(4), of disk_fd i] fd_view_set_fd [OF len, of disk_fd]
    by (simp_all add: fds_ok_fds [OF fds] fd_view_fds [OF fds])
  have tlen: "i < length (fds t)" "fds t ! i = disk_fd (fds s ! i)" using len by (simp_all add: fds)
  have "fds_ok ?v" using tk(1) by (rule fds_ok_set_fd) (simp add: tlen)
  moreover have "fd_view ?v = (fd_view s)(i \<mapsto> File n (fd_pos (fds s ! i)))"
    unfolding fd_view_set_fd [OF tlen(1)] by (simp add: tk(2) tlen(2)) (simp add: open_view_def disk_fd_def)
  moreover have "fs_ready hw dv fr 1 ?v" "disk_byte dv ?v = disk_byte dv s"
    using t(1) blk_ready_cong [of ?v t] con disk_cong [of ?v t] by simp_all
  moreover have "disk_ok dv ?v = disk_ok dv s" "superblock ?v = superblock s" "io_state.more ?v = io_state.more s"
    using t(2) disk_cong(2) [of ?v t dv] disk_cong(2) [of ?u s dv] upper_io(2,5) [OF keeps_Ok [OF fs.ino_from_path_within walk]]
    by (simp_all add: same_disk_def)
  ultimately show ?thesis
    using open_fd_at [OF driver assms(4-6) walk] i(2) con
    by (cases found) (simp_all add: not_found_msg_def disk_byte_console disk_ok_console fds_console del: not_None_eq)
qed

text \<open>
  C12.  On a mounted disk, opening a path takes the lowest number that is free.  The descriptor
  gets the number of the inode that the path resolves to, other descriptors and the disk are
  unchanged.  If the path does not exist, a message is printed and the descriptor is opened all
  the same; it then names the last inode found on the way or, if there is none, the inode that
  was open there before.  In every case the position is the one that was left there.
\<close>

theorem open_fd_correct:
  assumes "fs_ready hw dv fr 1 s" and "length (uninit fr 1024) = 1024" and "inode_ok dv s (superblock s) 2"
    and "fds_ok s" and "fresh_fd s = Some i" and "superblock_mounted s"
    and "resolve dv s (superblock s) (components path) (inode_at (disk_byte dv s) (superblock s) 2)
      (Some (fd_ino (fds s ! i))) = Some (found, inode, Some n)"
  shows "\<exists>t. open_fd hw fr path s = Ok (of_nat i) t \<and> fds_ok t \<and>
    fd_view t = (fd_view s)(i \<mapsto> File n (fd_pos (fds s ! i))) \<and> (\<forall>j<i. fd_view s j \<noteq> None) \<and>
    fs_ready hw dv fr 1 t \<and> disk_byte dv t = disk_byte dv s \<and>
    console t = console s @ (if found then [] else map of_char ''Could not find the inode.'')"
  using open_fd_run [OF assms] by blast

theorem open_fd_correct_witness:
  "\<exists>t. open_fd (ref_hw ref_vring) ref_frame [47, 47, 110, 111, 116, 101] ref_io = Ok 0 t \<and>
    fd_view t = [1 \<mapsto> Console, 0 \<mapsto> File 3 0]"
proof -
  have "fd_ino (fds ref_io ! 0) = 0" "fd_pos (fds ref_io ! 0) = 0" by (simp_all add: zero_fd_def max_fd_def)
  then show ?thesis
    using open_fd_correct [OF ref_io_ready ref_uninit _ ref_io_fds(1,2), of "[47, 47, 110, 111, 116, 101]" True "ref_inode [10, 11]" 3]
      ref_resolve resolve_cong [of ref_io ref_fs] inode_ok_cong [of ref_io ref_fs] disk_cong [of ref_io ref_fs] ref_inode_ok(1)
    by (auto simp: ref_io_fds)
qed

text \<open>
  Opening fails with -1 and changes nothing when there is no disk or no free descriptor.  On a
  disk that is not mounted it stops the system with a failed assertion, after a message.
\<close>

theorem open_fd_refused:
  assumes "1 < length (virtio_drivers s)" and "fds_ok s"
  shows "(\<not> initialized (virtio_drivers s ! 1) \<or> (\<forall>i<max_fd. fd_view s i \<noteq> None) \<longrightarrow> open_fd hw fr path s = Ok (- 1) s) \<and>
    (initialized (virtio_drivers s ! 1) \<and> (\<exists>i<max_fd. fd_view s i = None) \<and> \<not> superblock_mounted s \<longrightarrow>
      (\<exists>t. open_fd hw fr path s = Fault AssertionFailed t \<and>
        console t = console s @ map of_char (''Superblock is not mounted.'' @ [CHR 0x0A])))"
proof (cases "fresh_fd s")
  case None
  then have full: "\<forall>i<max_fd. fd_view s i \<noteq> None" using fd.fresh_None [OF assms(2)] by simp
  have "open_fd hw fr path s = Ok (- 1) s"
    using next_fd_full [OF assms(2) None] assms(1) by (simp add: open_fd_def with_disk_at monad_simps)
  with full show ?thesis by auto
next
  case (Some i)
  then have i: "next_fd s = of_nat i" "i < max_fd" and "\<not> (\<forall>i<max_fd. fd_view s i \<noteq> None)"
    using next_fd_fresh [OF assms(2)] fd.fresh_None [OF assms(2)] by auto
  then show ?thesis
    using assms(1) by (auto simp: open_fd_def with_disk_at monad_simps small_int Let_def assert_mounted_def)
qed

theorem open_fd_refused_witness:
  "\<exists>t. open_fd (ref_hw ref_vring) ref_frame [110] (ref_io\<lparr>superblock_mounted := False\<rparr>) = Fault AssertionFailed t"
proof -
  let ?s = "ref_io\<lparr>superblock_mounted := False\<rparr>"
  have "fds_ok ?s" "fd_view ?s = fd_view ref_io" using ref_io_fds(1) fd_view_fds [of ?s ref_io] by (simp_all add: fds_ok_def)
  moreover have "1 < length (virtio_drivers ?s)" "initialized (virtio_drivers ?s ! 1)"
    using ref_io_ready by (auto simp: blk_ready_def)
  moreover have "\<exists>i<max_fd. fd_view ref_io i = None" by (rule exI [of _ 0]) (simp add: ref_io_fds max_fd_def)
  ultimately show ?thesis using open_fd_refused [of ?s "ref_hw ref_vring" ref_frame "[110]"] by auto
qed

end
