(* ===== verification/Strap.thy ===== *)
theory Strap
  imports Descriptors
begin

text \<open>
  System calls (src/strap_handler.c): one operation for each handler, the table of handlers
  that \<open>configure_syscall_handlers\<close> fills, and the dispatcher.  Handlers take the six argument
  registers.  A pointer to a handler is an optional value of the datatype \<open>syscall_handler\<close>,
  which has one constructor for each function that is stored in the table.  The number of entries
  comes from a header of the C library (\<open>__NR_syscalls\<close>) and is the length of the table.
\<close>

section \<open>State\<close>

datatype syscall_handler =
    Unimplemented | Hardware_riscv | Empty | Write_s | Set_child_tid | Poweroff_s | Set_brk_s | Readlinkat_s
  | Get_random_s | Clock_gettime32_s | Mprotect_s | Fstat_s | Ioctl_s | Sys_breakpoint | Openat_s | Close_s | Read_s
  | Seek_s | Nanosleep_s | Demand_s | Mount_hd_s | Internal_unit_test_s

record 'd strap_state = "'d io_state" +
  syscall_handlers :: "syscall_handler option list"

section \<open>Processes and memory\<close>

definition set_brk_s :: "u64 \<Rightarrow> (('d, 'z) os_state_scheme, u64) kernel_op" where
  "set_brk_s new_brk =
     mthen (if new_brk \<noteq> 0 then mmodify (\<lambda>s. s\<lparr>current := (current s)\<lparr>brk := new_brk\<rparr>\<rparr>) else mreturn ())
      (mgets (\<lambda>s. brk (current s)))"

definition hardware_riscv :: "('s, u64) kernel_op" where
  "hardware_riscv = mreturn 0"

definition set_child_tid :: "u64 \<Rightarrow> (('d, 'z) os_state_scheme, u64) kernel_op" where
  "set_child_tid tidptr =
     mthen (mmodify (\<lambda>s. s\<lparr>current := (current s)\<lparr>clear_child_tid := tidptr\<rparr>\<rparr>)) (mreturn 1)"

definition readlinkat_s :: "u64 \<Rightarrow> u64 \<Rightarrow> u64 \<Rightarrow> u64 \<Rightarrow> (('d, 'z) virtio_state_scheme, u64) kernel_op" where
  "readlinkat_s dirfd path buf buf_size =
     (let actual_path = ''/home/hawkinsw/code/boot2bpf/build/unibpform''; actual_path_length = 24 in
      mthen (store buf (map of_char (take actual_path_length actual_path))) (mreturn (of_nat actual_path_length)))"

definition get_random_s :: "'d hw \<Rightarrow> frame \<Rightarrow> u64 \<Rightarrow> u64 \<Rightarrow> u64 \<Rightarrow> (('d, 'z) virtio_state_scheme, u64) kernel_op" where
  "get_random_s hw fr buffer len flags = virtio_get_randomness hw fr buffer len"

definition empty :: "('s, u64) kernel_op" where
  "empty = mreturn 0"

definition mprotect_s :: "('s, u64) kernel_op" where
  "mprotect_s = mreturn 0"

definition ioctl_s :: "('s, u64) kernel_op" where
  "ioctl_s = mreturn 0"

definition poweroff_s :: "(('d, 'z) base_state_scheme, u64) kernel_op" where
  "poweroff_s = epoweroff"

definition unimplemented :: "(('d, 'z) base_state_scheme, u64) kernel_op" where
  "unimplemented = mthen (eprint_str ''Unimplemented'') sys_poweroff"

definition software_interrupt_handler :: "(('d, 'z) base_state_scheme, u64) kernel_op" where
  "software_interrupt_handler = mthen (epoweroff :: (('d, 'z) base_state_scheme, u64) kernel_op) (mreturn 0)"

text \<open>The default build does not compile the tests in.\<close>

definition internal_unit_test_s :: "('s, u64) kernel_op" where
  "internal_unit_test_s = mreturn 0"

section \<open>Files\<close>

text \<open>The string at an address, up to its terminating zero.\<close>

partial_function (option) c_string :: "(u64 \<Rightarrow> u8) \<Rightarrow> u64 \<Rightarrow> bytes option" where
  "c_string m p = (if m p = 0 then Some [] else Option.bind (c_string m (p + 1)) (\<lambda>bs. Some (m p # bs)))"

definition openat_s ::
    "'d hw \<Rightarrow> frame \<Rightarrow> u64 \<Rightarrow> u64 \<Rightarrow> u64 \<Rightarrow> u64 \<Rightarrow> (('d, 'z) io_state_scheme, u64) kernel_op" where
  "openat_s hw fr dirfd pathname flags mode = (\<lambda>s.
     case c_string (ram s) pathname of
       None \<Rightarrow> Fault Diverges s
     | Some path \<Rightarrow> mbind (open_fd hw fr path) (\<lambda>r. mreturn (scast r)) s)"

definition close_s :: "u64 \<Rightarrow> (('d, 'z) io_state_scheme, u64) kernel_op" where
  "close_s fd = mbind (close_fd (ucast fd)) (\<lambda>r. mreturn (scast r))"

definition seek_s :: "u64 \<Rightarrow> u64 \<Rightarrow> u64 \<Rightarrow> (('d, 'z) io_state_scheme, u64) kernel_op" where
  "seek_s fd offset whence = (\<lambda>s.
     if \<not> is_fd_open s fd then Ok (- 1) s
     else mbind (call_seek_handler (seek_handler (fds s ! unat fd)) fd offset (ucast whence)) (\<lambda>r. mreturn (scast r)) s)"

definition read_s :: "'d hw \<Rightarrow> frame \<Rightarrow> u64 \<Rightarrow> u64 \<Rightarrow> u64 \<Rightarrow> (('d, 'z) io_state_scheme, u64) kernel_op" where
  "read_s hw fr fd buf sz = (\<lambda>s.
     if \<not> is_fd_open s fd then Ok (- 1) s
     else mbind (call_read_handler hw fr (read_handler (fds s ! unat fd)) fd buf sz) (\<lambda>r. mreturn (scast r)) s)"

definition write_s :: "'d hw \<Rightarrow> frame \<Rightarrow> u64 \<Rightarrow> u64 \<Rightarrow> u64 \<Rightarrow> (('d, 'z) io_state_scheme, u64) kernel_op" where
  "write_s hw fr fd buf sz = (\<lambda>s.
     if \<not> is_fd_open s fd then Ok (- 1) s
     else mbind (call_write_handler hw fr (write_handler (fds s ! unat fd)) fd buf sz) (\<lambda>r. mreturn (scast r)) s)"

definition mount_hd_s :: "'d hw \<Rightarrow> frame \<Rightarrow> (('d, 'z) io_state_scheme, u64) kernel_op" where
  "mount_hd_s hw fr = mthen (malloc 500) (io_mount_hd hw fr)"

text \<open>\<open>struct stat\<close> is stored field by field, in the order of the assignments.\<close>

definition fstat_s :: "u64 \<Rightarrow> u64 \<Rightarrow> (('d, 'z) virtio_state_scheme, u64) kernel_op" where
  "fstat_s fd statbuf =
     mthen (store (statbuf + 48) (le_bytes 8 (0 :: u64)))
     (mthen (store (statbuf + 16) (le_bytes 4 (0x2190 :: u32)))
     (mthen (store (statbuf + 56) (le_bytes 4 (1024 :: u32)))
     (mthen (store (statbuf + 64) (le_bytes 8 (0 :: u64)))
     (mthen (store statbuf (le_bytes 8 (26 :: u64)))
     (mthen (store (statbuf + 8) (le_bytes 8 (7 :: u64)))
     (mthen (store (statbuf + 20) (le_bytes 4 (1 :: u32)))
     (mthen (store (statbuf + 24) (le_bytes 4 (1 :: u32)))
       (mreturn 0))))))))"

section \<open>Time\<close>

definition clock_gettime32_s :: "'d hw \<Rightarrow> u64 \<Rightarrow> u64 \<Rightarrow> (('d, 'z) virtio_state_scheme, u64) kernel_op" where
  "clock_gettime32_s hw clockid tp =
     mbind (system_time hw (scast (ucast clockid :: c_int))) (\<lambda>(ok, tv_sec, tv_nsec).
       mthen (store tp (le_bytes 8 tv_sec))
       (mthen (store (tp + 8) (le_bytes 8 tv_nsec))
         (mreturn (if ok then 1 else 0))))"

section \<open>Dispatch\<close>

definition set_syscall_handler :: "nat \<Rightarrow> syscall_handler \<Rightarrow> (('d, 'z) strap_state_scheme, unit) kernel_op" where
  "set_syscall_handler i h = (\<lambda>s.
     if i < length (syscall_handlers s) then Ok () (s\<lparr>syscall_handlers := (syscall_handlers s)[i := Some h]\<rparr>)
     else Fault OutOfBounds s)"

definition syscall_table :: "(nat \<times> syscall_handler) list" where
  "syscall_table = [(258, Hardware_riscv), (222, Empty), (64, Write_s), (96, Set_child_tid), (99, Empty),
     (93, Poweroff_s), (94, Poweroff_s), (214, Set_brk_s), (261, Empty), (78, Readlinkat_s), (278, Get_random_s),
     (113, Clock_gettime32_s), (226, Mprotect_s), (80, Fstat_s), (29, Ioctl_s), (14, Sys_breakpoint), (56, Openat_s),
     (57, Close_s), (63, Read_s), (62, Seek_s), (115, Nanosleep_s), (209, Demand_s), (210, Mount_hd_s),
     (211, Internal_unit_test_s)]"

primrec set_syscall_handlers :: "(nat \<times> syscall_handler) list \<Rightarrow> (('d, 'z) strap_state_scheme, unit) kernel_op" where
  "set_syscall_handlers [] = mreturn ()"
| "set_syscall_handlers (e # es) = mthen (set_syscall_handler (fst e) (snd e)) (set_syscall_handlers es)"

definition configure_syscall_handlers :: "(('d, 'z) strap_state_scheme, unit) kernel_op" where
  "configure_syscall_handlers =
     mbind (mgets (\<lambda>s. length (syscall_handlers s))) (\<lambda>n.
     mthen (set_syscall_handlers (map (\<lambda>i. (i, Unimplemented)) [0..<n]))
      (set_syscall_handlers syscall_table))"

text \<open>The call through a pointer of the table; a handler takes the argument registers that it uses.\<close>

definition call_syscall_handler ::
    "'d hw \<Rightarrow> frame \<Rightarrow> (u64 \<Rightarrow> u64 \<Rightarrow> (('d, 'z) strap_state_scheme, unit) kernel_op) \<Rightarrow> syscall_handler option \<Rightarrow>
     u64 \<Rightarrow> u64 \<Rightarrow> u64 \<Rightarrow> u64 \<Rightarrow> u64 \<Rightarrow> u64 \<Rightarrow> (('d, 'z) strap_state_scheme, u64) kernel_op" where
  "call_syscall_handler hw fr call h a0 a1 a2 a3 a4 a5 =
     (case h of
        None \<Rightarrow> mfault NullPointer
      | Some Unimplemented \<Rightarrow> unimplemented
      | Some Hardware_riscv \<Rightarrow> hardware_riscv
      | Some Empty \<Rightarrow> empty
      | Some Write_s \<Rightarrow> write_s hw fr a0 a1 a2
      | Some Set_child_tid \<Rightarrow> set_child_tid a0
      | Some Poweroff_s \<Rightarrow> poweroff_s
      | Some Set_brk_s \<Rightarrow> set_brk_s a0
      | Some Readlinkat_s \<Rightarrow> readlinkat_s a0 a1 a2 a3
      | Some Get_random_s \<Rightarrow> get_random_s hw fr a0 a1 a2
      | Some Clock_gettime32_s \<Rightarrow> clock_gettime32_s hw a0 a1
      | Some Mprotect_s \<Rightarrow> mprotect_s
      | Some Fstat_s \<Rightarrow> fstat_s a0 a1
      | Some Ioctl_s \<Rightarrow> ioctl_s
      | Some Sys_breakpoint \<Rightarrow> sys_breakpoint a0 a1 a2 a3 a4 a5
      | Some Openat_s \<Rightarrow> openat_s hw fr a0 a1 a2 a3
      | Some Close_s \<Rightarrow> close_s a0
      | Some Read_s \<Rightarrow> read_s hw fr a0 a1 a2
      | Some Seek_s \<Rightarrow> seek_s a0 a1 a2
      | Some Nanosleep_s \<Rightarrow> nanosleep_s hw call a0 a1 a2 a3
      | Some Demand_s \<Rightarrow> demand_s hw call a0 a1
      | Some Mount_hd_s \<Rightarrow> mount_hd_s hw fr
      | Some Internal_unit_test_s \<Rightarrow> internal_unit_test_s)"

definition system_call_dispatcher ::
    "'d hw \<Rightarrow> frame \<Rightarrow> (u64 \<Rightarrow> u64 \<Rightarrow> (('d, 'z) strap_state_scheme, unit) kernel_op) \<Rightarrow> u64 \<Rightarrow>
     u64 \<Rightarrow> u64 \<Rightarrow> u64 \<Rightarrow> u64 \<Rightarrow> u64 \<Rightarrow> u64 \<Rightarrow> (('d, 'z) strap_state_scheme, u64) kernel_op" where
  "system_call_dispatcher hw fr call a7 a0 a1 a2 a3 a4 a5 = (\<lambda>s.
     if unat a7 < length (syscall_handlers s)
     then call_syscall_handler hw fr call (syscall_handlers s ! unat a7) a0 a1 a2 a3 a4 a5 s
     else Fault OutOfBounds s)"

end
