(* ===== verification/Pci.thy ===== *)
theory Pci
  imports Strap
begin

unbundle bit_operations_syntax

text \<open>
  Finding and starting devices (src/pci.c, include/pci.h and the \<open>init_\<close> functions of
  src/virtio_driver.c): the macros that pack bus, device and function numbers into an offset, the scan of
  the configuration space, the table of drivers, and the initialisation of the three virtio
  drivers.  A driver is named by its index in \<open>virtio_drivers\<close>.
\<close>

section \<open>Configuration space\<close>

definition BUS_SHIFT :: nat where
  "BUS_SHIFT = 20"

definition DEV_SHIFT :: nat where
  "DEV_SHIFT = 15"

definition FUN_SHIFT :: nat where
  "FUN_SHIFT = 12"

definition DEV_MASK :: u32 where
  "DEV_MASK = NOT (of_nat DEV_SHIFT - 1)"

definition FUN_MASK :: u32 where
  "FUN_MASK = NOT (of_nat FUN_SHIFT - 1)"

text \<open>The arguments are small enough for the shifts of \<open>int\<close> not to overflow.\<close>

definition PCI_OFF :: "u32 \<Rightarrow> u32 \<Rightarrow> u32 \<Rightarrow> u32" where
  "PCI_OFF b d f = push_bit BUS_SHIFT b OR push_bit DEV_SHIFT d OR push_bit FUN_SHIFT f"

type_synonym pci_bus_t = u8

type_synonym pci_dev_t = u8

type_synonym pci_fun_t = u8

definition PCI_BUS :: "u32 \<Rightarrow> pci_bus_t" where
  "PCI_BUS off = ucast (drop_bit BUS_SHIFT off)"

definition PCI_DEV :: "u32 \<Rightarrow> pci_dev_t" where
  "PCI_DEV off = ucast (drop_bit DEV_SHIFT off AND DEV_MASK)"

definition PCI_FUN :: "u32 \<Rightarrow> pci_fun_t" where
  "PCI_FUN off = ucast (drop_bit FUN_SHIFT off AND FUN_MASK)"

abbreviation MAX_PCI_BUSSES :: u32 where
  "MAX_PCI_BUSSES \<equiv> 2"

abbreviation MAX_PCI_DEVICES :: u32 where
  "MAX_PCI_DEVICES \<equiv> 32"

abbreviation MAX_PCI_FUNCTIONS :: u32 where
  "MAX_PCI_FUNCTIONS \<equiv> 8"

definition MAX_PCI_OFF :: u32 where
  "MAX_PCI_OFF = PCI_OFF MAX_PCI_BUSSES MAX_PCI_DEVICES MAX_PCI_FUNCTIONS"

definition PCI_BASE :: u64 where
  "PCI_BASE = 0x30000000"

definition BAR0_OFFSET :: u64 where
  "BAR0_OFFSET = 0x10"

definition PCI_CONF_BASE :: u32 where
  "PCI_CONF_BASE = 0x0001000"

definition HOST_CONF_BASE :: u64 where
  "HOST_CONF_BASE = 0x3001000"

definition PCI_DEVICE_STATUS_UP :: u8 where
  "PCI_DEVICE_STATUS_UP = 7"

definition PCI_DEVICE_STATUS_OFFSET :: u64 where
  "PCI_DEVICE_STATUS_OFFSET = 4"

definition pci_config_space_alloc :: "(('d, 'z) virtio_state_scheme, u32) kernel_op" where
  "pci_config_space_alloc =
     mbind (mgets pci_config_base) (\<lambda>result.
     mthen (mmodify (\<lambda>s. s\<lparr>pci_config_base := pci_config_base s + 4096\<rparr>)) (mreturn result))"

definition pci_device_set_status :: "'d hw \<Rightarrow> u64 \<Rightarrow> u8 \<Rightarrow> (('d, 'z) virtio_state_scheme, unit) kernel_op" where
  "pci_device_set_status hw pci_cfg status =
     mbus (hw_store hw (pci_cfg + PCI_DEVICE_STATUS_OFFSET) 1 (ucast PCI_DEVICE_STATUS_UP))"

definition pci_device_set_bar :: "'d hw \<Rightarrow> u64 \<Rightarrow> u8 \<Rightarrow> u32 \<Rightarrow> (('d, 'z) virtio_state_scheme, unit) kernel_op" where
  "pci_device_set_bar hw pci_cfg which value =
     mbus (hw_store hw (pci_cfg + (BAR0_OFFSET + ucast which * 4)) 4 (ucast value))"

section \<open>Starting a driver\<close>

definition VIRTIO_DEVICE_STATUS_ACK :: u8 where
  "VIRTIO_DEVICE_STATUS_ACK = 1"

definition VIRTIO_DEVICE_STATUS_DRIVER_KNOWS :: u8 where
  "VIRTIO_DEVICE_STATUS_DRIVER_KNOWS = 2"

definition VIRTIO_DEVICE_STATUS_DRIVER_OK :: u8 where
  "VIRTIO_DEVICE_STATUS_DRIVER_OK = 4"

text \<open>
  \<open>struct vring\<close> has 64 bytes.  After \<open>malloc\<close> its fields hold whatever is in the memory at hand; from
  then on the block belongs to the driver and is kept in the driver table.
\<close>

definition sizeof_vring :: u64 where
  "sizeof_vring = 64"

definition vring_in :: "(u64 \<Rightarrow> u8) \<Rightarrow> u64 \<Rightarrow> vring" where
  "vring_in m p = \<lparr>vr_num = le_word (load_bytes p 4 m), vr_size = le_word (load_bytes (p + 8) 8 m),
     bouncebufs = le_word (load_bytes (p + 16) 8 m),
     bookeeping = \<lparr>used_last = le_word (load_bytes (p + 24) 2 m), avail_next = le_word (load_bytes (p + 26) 2 m),
       avail_avail = le_word (load_bytes (p + 28) 2 m), used_avail = le_word (load_bytes (p + 30) 2 m),
       descr_head = le_word (load_bytes (p + 32) 2 m), descr_next = le_word (load_bytes (p + 34) 2 m)\<rparr>,
     vr_desc = le_word (load_bytes (p + 40) 8 m), vr_avail = le_word (load_bytes (p + 48) 8 m),
     vr_used = le_word (load_bytes (p + 56) 8 m)\<rparr>"

definition alloc_vrings :: "nat \<Rightarrow> nat \<Rightarrow> (('d, 'z) virtio_state_scheme, unit) kernel_op" where
  "alloc_vrings driver n =
     mbind (malloc (sizeof_vring * of_nat n)) (\<lambda>p.
     mbind (get_driver driver) (\<lambda>drv.
     mbind (mgets ram) (\<lambda>m.
       set_driver driver (drv\<lparr>vring := map (\<lambda>i. vring_in m (p + of_nat i * sizeof_vring)) [0..<n]\<rparr>))))"

text \<open>\<open>driver->vring[q].num = num\<close>\<close>

definition set_vring_num :: "vref \<Rightarrow> u16 \<Rightarrow> (('d, 'z) virtio_state_scheme, unit) kernel_op" where
  "set_vring_num r num = mbind (get_vring r) (\<lambda>v. set_vring r (v\<lparr>vr_num := ucast num\<rparr>))"

text \<open>What the three functions begin with: the addresses are noted, the device is switched on.\<close>

definition attach_device :: "'d hw \<Rightarrow> nat \<Rightarrow> u64 \<Rightarrow> u64 \<Rightarrow> u32 \<Rightarrow> (('d, 'z) virtio_state_scheme, unit) kernel_op" where
  "attach_device hw driver pci_device host_regs pci_regs =
     mbind (get_driver driver) (\<lambda>drv.
     mthen (set_driver driver (drv\<lparr>host := host_regs, pci := pci_regs, conf := pci_device\<rparr>))
     (mthen (pci_device_set_bar hw pci_device 0 pci_regs)
     (mthen (pci_device_set_bar hw pci_device 1 0xffffffff)
     (mthen (pci_device_set_status hw pci_device PCI_DEVICE_STATUS_UP)
       (virtio_device_set_status hw host_regs VIRTIO_DEVICE_STATUS_ACK)))))"

text \<open>What they end with.\<close>

definition driver_up :: "'d hw \<Rightarrow> nat \<Rightarrow> u64 \<Rightarrow> (('d, 'z) virtio_state_scheme, bool) kernel_op" where
  "driver_up hw driver host_regs =
     mthen (virtio_device_set_status hw host_regs (VIRTIO_DEVICE_STATUS_DRIVER_KNOWS OR VIRTIO_DEVICE_STATUS_DRIVER_OK))
     (mbind (get_driver driver) (\<lambda>drv.
     mthen (set_driver driver (drv\<lparr>initialized := True\<rparr>))
       (mreturn True)))"

definition queue_desc_write :: "'d hw \<Rightarrow> u64 \<Rightarrow> vref \<Rightarrow> (('d, 'z) virtio_state_scheme, unit) kernel_op" where
  "queue_desc_write hw host_regs r = mbind (get_vring r) (\<lambda>v. virtio_device_queue_desc_write hw host_regs (vr_desc v))"

definition init_entropy_virtio ::
    "'d hw \<Rightarrow> linker \<Rightarrow> nat \<Rightarrow> u64 \<Rightarrow> u8 \<Rightarrow> u8 \<Rightarrow> u8 \<Rightarrow> u64 \<Rightarrow> u32 \<Rightarrow> (('d, 'z) virtio_state_scheme, bool) kernel_op" where
  "init_entropy_virtio hw ld driver pci_device pbus pdev pfun host_regs pci_regs =
     mthen (attach_device hw driver pci_device host_regs pci_regs)
     (mthen (virtio_device_queue_select hw host_regs 0)
     (mbind (virtio_device_queue_size_read hw host_regs) (\<lambda>virtio_q_len.
     mthen (alloc_vrings driver 1)
     (mthen (vring_init ld (driver, 0) (ucast virtio_q_len))
     (mthen (set_vring_num (driver, 0) virtio_q_len)
     (mthen (queue_desc_write hw host_regs (driver, 0))
       (driver_up hw driver host_regs)))))))"

definition init_blk_virtio ::
    "'d hw \<Rightarrow> linker \<Rightarrow> nat \<Rightarrow> u64 \<Rightarrow> u8 \<Rightarrow> u8 \<Rightarrow> u8 \<Rightarrow> u64 \<Rightarrow> u32 \<Rightarrow> (('d, 'z) virtio_state_scheme, bool) kernel_op" where
  "init_blk_virtio hw ld driver pci_device pbus pdev pfun host_regs pci_regs =
     mthen (attach_device hw driver pci_device host_regs pci_regs)
     (mbind (mgets (\<lambda>s. hw_load hw (host_regs + 0x00) 4 (bus s))) (\<lambda>blk_features_available.
     mthen (mbus (hw_store hw (host_regs + 0x04) 4 0))
     (mthen (virtio_device_queue_select hw host_regs 0)
     (mbind (virtio_device_queue_size_read hw host_regs) (\<lambda>virtio_q_len.
     mthen (eprint_str ''Found block device with queue size: '')
     (mthen (eprint_num (ucast virtio_q_len))
     (mthen (eprint (of_char (CHR 0x0A)))
     (mthen (alloc_vrings driver 1)
     (mthen (vring_init ld (driver, 0) 256)
     (mthen (set_vring_num (driver, 0) virtio_q_len)
     (mthen (queue_desc_write hw host_regs (driver, 0))
       (driver_up hw driver host_regs))))))))))))"

definition init_console_virtio ::
    "'d hw \<Rightarrow> linker \<Rightarrow> nat \<Rightarrow> u64 \<Rightarrow> u8 \<Rightarrow> u8 \<Rightarrow> u8 \<Rightarrow> u64 \<Rightarrow> u32 \<Rightarrow> (('d, 'z) virtio_state_scheme, bool) kernel_op" where
  "init_console_virtio hw ld driver pci_device pbus pdev pfun host_regs pci_regs =
     mthen (attach_device hw driver pci_device host_regs pci_regs)
     (mthen (virtio_device_queue_select hw host_regs 0)
     (mbind (virtio_device_queue_size_read hw host_regs) (\<lambda>virtio_q_len.
     mthen (alloc_vrings driver 2)
     (mthen (vring_init ld (driver, 0) (ucast virtio_q_len))
     (mthen (vring_init ld (driver, 1) (ucast virtio_q_len))
     (mthen (set_vring_num (driver, 0) virtio_q_len)
     (mthen (set_vring_num (driver, 1) virtio_q_len)
     (mthen (queue_desc_write hw host_regs (driver, 0))
     (mthen (virtio_device_queue_select hw host_regs 1)
     (mbind (virtio_device_queue_size_read hw host_regs) (\<lambda>virtio_q_len.
     mthen (queue_desc_write hw host_regs (driver, 1))
       (driver_up hw driver host_regs))))))))))))"

definition call_init_f ::
    "'d hw \<Rightarrow> linker \<Rightarrow> driver_init_f option \<Rightarrow> nat \<Rightarrow> u64 \<Rightarrow> u8 \<Rightarrow> u8 \<Rightarrow> u8 \<Rightarrow> u64 \<Rightarrow> u32 \<Rightarrow>
     (('d, 'z) virtio_state_scheme, bool) kernel_op" where
  "call_init_f hw ld f driver pci_device pbus pdev pfun host_regs pci_regs =
     (case f of
        None \<Rightarrow> mfault NullPointer
      | Some Init_entropy_virtio \<Rightarrow> init_entropy_virtio hw ld driver pci_device pbus pdev pfun host_regs pci_regs
      | Some Init_blk_virtio \<Rightarrow> init_blk_virtio hw ld driver pci_device pbus pdev pfun host_regs pci_regs
      | Some Init_console_virtio \<Rightarrow> init_console_virtio hw ld driver pci_device pbus pdev pfun host_regs pci_regs)"

section \<open>Scanning the bus\<close>

definition driver_type :: "u16 \<Rightarrow> u16" where
  "driver_type n = (if n > 0x1009 then n - 0x1040 else n - 0x1000)"

definition configure_pci_device ::
    "'d hw \<Rightarrow> linker \<Rightarrow> u64 \<Rightarrow> u8 \<Rightarrow> u8 \<Rightarrow> u8 \<Rightarrow> u64 \<Rightarrow> u32 \<Rightarrow> (('d, 'z) virtio_state_scheme, unit) kernel_op" where
  "configure_pci_device hw ld bus_base pbus pdev pfun host_regs pci_regs =
     (let device_conf = bus_base + ucast (PCI_OFF (ucast pbus) (ucast pdev) (ucast pfun)) in
      mbind (mgets (\<lambda>s. ucast (hw_load hw (device_conf + 2) 2 (bus s)))) (\<lambda>n.
      case find_virtio_driver (driver_type n) of
        None \<Rightarrow> mfault NullPointer
      | Some driver \<Rightarrow> mbind (get_driver driver) (\<lambda>drv.
          mbind (call_init_f hw ld (init_f drv) driver device_conf pbus pdev pfun host_regs pci_regs) (\<lambda>init_result.
            mreturn ()))))"

definition pci_scan_one :: "'d hw \<Rightarrow> linker \<Rightarrow> u32 \<Rightarrow> (('d, 'z) virtio_state_scheme, unit) kernel_op" where
  "pci_scan_one hw ld i =
     mbind (mgets (\<lambda>s. ucast (hw_load hw (PCI_BASE + ucast i) 2 (bus s)) :: u16)) (\<lambda>vendor_id.
       if vendor_id = 0x1af4 then
         mbind pci_config_space_alloc (\<lambda>allocd.
           configure_pci_device hw ld PCI_BASE (PCI_BUS i) (PCI_DEV i) (PCI_FUN i)
             (HOST_CONF_BASE + ucast allocd) (PCI_CONF_BASE + allocd))
       else mreturn ())"

lemma pci_consts: "MAX_PCI_OFF = 0x308000" "PCI_OFF 0 0 1 = 4096" "DEV_MASK = NOT 14" "FUN_MASK = NOT 11"
  by (simp_all add: MAX_PCI_OFF_def PCI_OFF_def BUS_SHIFT_def DEV_SHIFT_def FUN_SHIFT_def DEV_MASK_def FUN_MASK_def)

function pci_scan_from :: "'d hw \<Rightarrow> linker \<Rightarrow> u32 \<Rightarrow> (('d, 'z) virtio_state_scheme, unit) kernel_op" where
  "pci_scan_from hw ld i =
     (if i < MAX_PCI_OFF then mthen (pci_scan_one hw ld i) (pci_scan_from hw ld (i + PCI_OFF 0 0 1)) else mreturn ())"
  by pat_completeness auto
termination
proof (relation "measure (\<lambda>(hw, ld, i). unat MAX_PCI_OFF - unat i)")
  fix hw :: "'d hw" and ld and i :: u32
  assume "i < MAX_PCI_OFF"
  then have i: "unat i < 0x308000" by (simp add: word_less_nat_alt pci_consts)
  then have "unat (i + 4096) = unat i + 4096" by (subst unat_add_small) simp_all
  with i show "((hw, ld, i + PCI_OFF 0 0 1), hw, ld, i) \<in> measure (\<lambda>(hw, ld, i). unat MAX_PCI_OFF - unat i)"
    by (simp add: pci_consts)
qed simp

declare pci_scan_from.simps [simp del]

definition pci_scan :: "'d hw \<Rightarrow> linker \<Rightarrow> (('d, 'z) virtio_state_scheme, unit) kernel_op" where
  "pci_scan hw ld = pci_scan_from hw ld 0"

section \<open>The table of drivers\<close>

text \<open>The section \<open>.driver_inits\<close>: the three drivers that are declared, in this order.\<close>

definition declared_driver :: "u32 \<Rightarrow> driver_init_f \<Rightarrow> virtio_driver" where
  "declared_driver n f = \<lparr>device_id = n, initialized = False, init_f = Some f, host = 0, pci = 0, conf = 0, vring = []\<rparr>"

definition driver_inits :: "virtio_driver list" where
  "driver_inits = [declared_driver 5 Init_entropy_virtio, declared_driver 3 Init_console_virtio,
     declared_driver 1 Init_blk_virtio]"

primrec load_drivers :: "virtio_driver list \<Rightarrow> (('d, 'z) virtio_state_scheme, unit) kernel_op" where
  "load_drivers [] = mreturn ()"
| "load_drivers (driver # drivers) =
     mthen (if device_id driver \<ge> of_nat MAX_VIRTIO_DEVICE_ID
            then eprint_str (''Bad driver device id'' @ [CHR 0x0A])
            else set_driver (unat (device_id driver)) driver)
      (load_drivers drivers)"

definition configure_pci :: "'d hw \<Rightarrow> linker \<Rightarrow> (('d, 'z) virtio_state_scheme, unit) kernel_op" where
  "configure_pci hw ld = mthen (load_drivers driver_inits) (pci_scan hw ld)"

end
