(* ===== verification/Kernel.thy ===== *)
theory Kernel
  imports Pci
begin

text \<open>
  The kernel as a whole: every system call and the timer interrupt keep the descriptor table and
  the table of handlers well-formed, so that they are well-formed in every state that the system
  can reach, whatever program and devices do to memory.
\<close>

section \<open>What the handlers leave alone\<close>

text \<open>The part of the state above timers and processes.\<close>

abbreviation above_os :: "('d, 'z) os_state_scheme \<Rightarrow> 'z" where
  "above_os \<equiv> os_state.more"

lemma keeps_above_os: "keeps upper m \<Longrightarrow> keeps above_os m"
proof (erule within_mono)
  fix s t :: "('d, 'z) os_state_scheme"
  show "upper t = upper s \<Longrightarrow> above_os t = above_os s" by (cases s; cases t; simp)
qed

text \<open>Nothing in the kernel registers deferred work.\<close>

definition no_deferred :: "('d, 'z) os_state_scheme \<Rightarrow> bool" where
  "no_deferred s \<longleftrightarrow> wakeup_time (deferred (kernel s)) = 0"

abbreviation idle_part :: "('d, 'z) os_state_scheme \<Rightarrow> bool \<times> 'z" where
  "idle_part \<equiv> \<lambda>s. (no_deferred s, above_os s)"

lemma keeps_idle: "keeps upper m \<Longrightarrow> keeps idle_part m"
proof (erule within_mono)
  fix s t :: "('d, 'z) os_state_scheme"
  show "upper t = upper s \<Longrightarrow> idle_part t = idle_part s" by (cases s; cases t; simp add: no_deferred_def)
qed

lemma keeps_set_stimecmp [frame_intros]: "keeps idle_part (set_stimecmp w)"
  by (simp add: within_def set_stimecmp_def no_deferred_def)

lemma keeps_get_stime [frame_intros]: "keeps idle_part (get_stime hw)"
  unfolding get_stime_def by (intro frame_intros)

lemma keeps_current: "keeps idle_part (mmodify (\<lambda>s. s\<lparr>current := g s\<rparr>))"
  by (rule within_mmodify) (simp add: no_deferred_def)

text \<open>Without deferred work the timer interrupt keeps the part that is above it.\<close>

abbreviation idle_rel :: "('d, 'z) os_state_scheme \<Rightarrow> ('d, 'z) os_state_scheme \<Rightarrow> bool" where
  "idle_rel \<equiv> \<lambda>s t. no_deferred s \<longrightarrow> no_deferred t \<and> above_os t = above_os s"

interpretation idle: frame_relation idle_rel
  by unfold_locales auto

lemma idle_of_keeps: "keeps idle_part m \<Longrightarrow> within idle_rel m"
  by (erule within_mono) auto

lemma idle_timer: "within idle_rel (timer_interrupt_handler hw call)"
proof -
  have "within idle_rel (\<lambda>s. let w = wakeup_time (deferred (kernel s)) in
      if w \<noteq> 0 then if stime > w then do_timer_deferreds call stime s else set_stimecmp w s else Ok () s)" for stime
    by (auto simp: within_def no_deferred_def split: outcome.split)
  moreover have "within idle_rel (\<lambda>s. let w = wakeup_time (asleep (current s)) in
      if w \<noteq> 0 then if stime > w then Ok () (s\<lparr>current := (current s)\<lparr>asleep := (asleep (current s))\<lparr>should_wake := 1\<rparr>\<rparr>\<rparr>)
        else set_stimecmp w s else Ok () s)" for stime
    by (simp add: within_def no_deferred_def set_stimecmp_def Let_def)
  ultimately show ?thesis
    unfolding timer_interrupt_handler_def unset_stimecmp_def
    by (intro idle.within_mbind idle.within_mthen idle_of_keeps [OF keeps_set_stimecmp] idle_of_keeps [OF keeps_get_stime])
qed

lemma idle_yield: "within idle_rel (yield hw call)"
  unfolding yield_def
  by (intro idle.within_mthen within_guard idle_timer idle.within_Okay within_mmodify) (simp add: no_deferred_def)

lemma idle_wait_until:
  assumes "wait_until hw call p s = Some r"
  shows "case r of Ok _ t \<Rightarrow> idle_rel s t | Fault _ t \<Rightarrow> idle_rel s t"
  using assms
proof (rule wait_until.raw_induct [rotated])
  fix w hw call p s r
  assume IH: "\<And>hw call p s r. w hw call p s = Some r \<Longrightarrow> case r of Ok _ t \<Rightarrow> idle_rel s t | Fault _ t \<Rightarrow> idle_rel s t"
    and eq: "(case yield hw call s of Fault f t \<Rightarrow> Some (Fault f t)
      | Ok _ t \<Rightarrow> if p t then Some (Ok () t) else w hw call p t) = Some r"
  show "case r of Ok _ t \<Rightarrow> idle_rel s t | Fault _ t \<Rightarrow> idle_rel s t"
  proof (cases "yield hw call s")
    case (Ok a t)
    have st: "idle_rel s t" using within_Ok [OF idle_yield Ok] .
    show ?thesis
    proof (cases "p t")
      case True
      then have "r = Ok () t" using Ok eq by simp
      then show ?thesis using st by simp
    next
      case False
      then show ?thesis using Ok eq st IH [of hw call p t r] by (cases r) auto
    qed
  next
    case (Fault e t)
    then have "r = Fault e t" using eq by simp
    then show ?thesis using within_Fault [OF idle_yield Fault] by simp
  qed
qed

lemma idle_wait_loop: "within idle_rel (wait_loop hw call p)"
proof -
  have "case wait_loop hw call p s of Ok _ t \<Rightarrow> idle_rel s t | Fault _ t \<Rightarrow> idle_rel s t" for s
    using idle_wait_until [of hw call p s] by (cases "wait_until hw call p s") (simp_all add: wait_loop_def)
  then show ?thesis by (simp add: within_def)
qed

lemmas idle_intros = idle.within_intros idle_wait_loop idle_of_keeps [OF keeps_set_stimecmp]
  idle_of_keeps [OF keeps_get_stime] idle_of_keeps [OF keeps_current]
  idle_of_keeps [OF keeps_idle [OF keeps_epoweroff]]

lemma idle_demand_s: "within idle_rel (demand_s hw call timeout event)"
  unfolding demand_s_def by (intro idle_intros within_let)

lemma idle_nanosleep_s: "within idle_rel (nanosleep_s hw call clockid flags duration rem)"
  unfolding nanosleep_s_def by (intro idle_intros)

section \<open>The invariant of the kernel\<close>

definition handler_of :: "nat \<Rightarrow> syscall_handler" where
  "handler_of i = (case map_of syscall_table i of None \<Rightarrow> Unimplemented | Some h \<Rightarrow> h)"

definition kernel_ok :: "('d, 'z) strap_state_scheme \<Rightarrow> bool" where
  "kernel_ok s \<longleftrightarrow> fds_ok s \<and> no_deferred s \<and> (\<forall>i < length (syscall_handlers s). syscall_handlers s ! i = Some (handler_of i))"

text \<open>The invariant is kept, and so is the state of the processor, which extends that of the kernel.\<close>

abbreviation steady :: "('d, 'z) strap_state_scheme \<Rightarrow> ('d, 'z) strap_state_scheme \<Rightarrow> bool" where
  "steady \<equiv> \<lambda>s t. kernel_ok s \<longrightarrow> kernel_ok t \<and> strap_state.more t = strap_state.more s"

interpretation steady: frame_relation steady
  by unfold_locales auto

lemma kernel_ok_idle: "within idle_rel m \<Longrightarrow> within steady m"
proof (erule within_mono)
  fix s t :: "('d, 'z) strap_state_scheme"
  assume "idle_rel s t"
  moreover have "fds t = fds s \<and> syscall_handlers t = syscall_handlers s \<and> strap_state.more t = strap_state.more s" if "above_os t = above_os s"
    using that by (cases s; cases t; simp)
  ultimately show "steady s t" by (auto simp: kernel_ok_def fds_ok_def)
qed

lemma kernel_ok_keeps: "keeps upper m \<Longrightarrow> within steady m"
  by (rule kernel_ok_idle [OF idle_of_keeps [OF keeps_idle]])

lemma kernel_ok_set_fd: "kernel_ok s \<Longrightarrow> fd_ok (f (fds s ! i)) \<Longrightarrow> kernel_ok (set_fd i f s)"
  by (simp add: kernel_ok_def fds_ok_set_fd) (simp add: set_fd_def no_deferred_def)

lemma more_set_fd [simp]: "strap_state.more (set_fd i f s) = strap_state.more s"
  by (simp add: set_fd_def)

section \<open>Descriptor operations\<close>

lemma keeps_malloc [frame_intros]: "keeps upper (malloc sz)"
proof (rule withinI)
  show "upper t = upper s" if "malloc sz s = Ok a t" for s t :: "('a, 'b) virtio_state_scheme" and a
    using that by (auto simp: malloc_first_fit mark_used_def split: list.splits)
  show "upper t = upper s" if "malloc sz s = Fault e t" for s t :: "('a, 'b) virtio_state_scheme" and e
    using that by (auto simp: malloc_first_fit mark_used_def split: list.splits)
qed

lemma keeps_system_time [frame_intros]: "keeps upper (system_time hw c)"
  by (simp add: within_def system_time_def Let_def)

lemma keeps_stdout_write [frame_intros]: "keeps upper (stdout_write_handler hw fd buf sz)"
  unfolding stdout_write_handler_def by (intro frame_intros)

lemma keeps_with_disk [frame_intros]: "(\<And>d. keeps upper (k d)) \<Longrightarrow> keeps upper (with_disk k x)"
  unfolding with_disk_def by (intro frame_intros)

lemma keeps_disk_write [frame_intros]: "keeps upper (disk_write_handler hw fr fd buf sz)"
  unfolding disk_write_handler_def Let_def
  by (intro frame_intros within_state [where g = "\<lambda>s. s" and m = "\<lambda>s0. mbind (_ s0) (_ s0)"])

lemma keeps_disk_read [frame_intros]: "keeps upper (disk_read_handler hw fr fd buf sz)"
  unfolding disk_read_handler_def Let_def
  by (intro frame_intros within_state [where g = "\<lambda>s. s" and m = "\<lambda>s0. mbind (_ s0) (_ s0)"])

lemma ok_seek [frame_intros]: "within steady (disk_seek_handler fd off whence)"
proof -
  have "fd_ok (fds s ! unat fd)" if "kernel_ok s" "is_fd_open s fd" for s :: "('a, 'b) strap_state_scheme"
    using that by (auto simp: kernel_ok_def fds_ok_def list_all_length is_fd_open_def is_fd_valid_def word_less_nat_alt max_fd_def)
  then show ?thesis
    by (auto simp: within_def disk_seek_handler_def Let_def intro!: kernel_ok_set_fd)
qed

lemma ok_close [frame_intros]: "within steady (close_fd fd)"
  by (auto simp: within_def close_fd_def Let_def fd_funs intro!: kernel_ok_set_fd)

lemma ok_fd_ino: "within steady (mmodify (set_fd i (\<lambda>d. d\<lparr>fd_ino := g d\<rparr>)))"
proof (rule within_mmodify, rule impI, rule conjI [OF _ more_set_fd])
  fix s :: "('a, 'b) strap_state_scheme"
  assume ok: "kernel_ok s"
  show "kernel_ok (set_fd i (\<lambda>d. d\<lparr>fd_ino := g d\<rparr>) s)"
  proof (cases "i < length (fds s)")
    case True
    then show ?thesis using ok by (intro kernel_ok_set_fd) (auto simp: kernel_ok_def fds_ok_def list_all_length)
  next
    case False
    then show ?thesis using ok by (simp add: set_fd_def list_update_beyond)
  qed
qed

lemma ok_with_disk [frame_intros]:
  "(\<And>d. within steady (k d)) \<Longrightarrow> within steady (with_disk k x)"
  unfolding with_disk_def by (intro frame_intros kernel_ok_keeps [OF keeps_get_driver])

lemma ok_open [frame_intros]: "within steady (open_fd hw fr path)"
proof -
  have mark: "within steady (mmodify (set_fd i disk_fd))" for i
    by (rule within_mmodify) (simp add: kernel_ok_set_fd)
  show ?thesis
    unfolding open_fd_def fd_funs assert_mounted_def
    by (intro frame_intros mark ok_fd_ino kernel_ok_keeps [OF fs.ino_from_path_within] kernel_ok_keeps [OF keeps_eprint_str])
qed

lemma ok_superblock: "within steady (mmodify (\<lambda>s. s\<lparr>superblock := g s\<rparr>))"
  "within steady (mmodify (\<lambda>s. s\<lparr>superblock_mounted := b\<rparr>))"
  by (rule within_mmodify, simp add: kernel_ok_def fds_ok_def no_deferred_def)+

lemma ok_mount [frame_intros]: "within steady (io_mount_hd hw fr)"
  unfolding io_mount_hd_def
  by (intro frame_intros ok_superblock kernel_ok_keeps [OF fs.read_superblock_within])

section \<open>System calls\<close>

lemma ok_openat: "within steady (openat_s hw fr dirfd p flags mode)"
  unfolding openat_s_def by (intro frame_intros)

lemma ok_close_s: "within steady (close_s fd)"
  unfolding close_s_def by (intro frame_intros)

lemma ok_handler_call:
  assumes "\<And>h. within steady (m h)" and "\<And>r. within steady (k r)"
  shows "within steady (\<lambda>s. if P s then Ok x s else mbind (m (g s)) k s)"
  by (intro frame_intros within_state [where g = g and m = "\<lambda>h. mbind (m h) k"] assms)

lemma ok_file_calls: "within steady (seek_s fd off whence)" "within steady (read_s hw fr fd buf sz)"
  "within steady (write_s hw fr fd buf sz)"
proof -
  have seek: "within steady (call_seek_handler h fd off w)" for h w
    by (auto simp: call_seek_handler_def split: option.split seek_handler_t.split intro!: frame_intros)
  have rd: "within steady (call_read_handler hw fr h fd buf sz)" for h
    by (auto simp: call_read_handler_def split: option.split read_handler_t.split intro!: frame_intros kernel_ok_keeps)
  have wr: "within steady (call_write_handler hw fr h fd buf sz)" for h
    by (auto simp: call_write_handler_def split: option.split write_handler_t.split intro!: frame_intros kernel_ok_keeps)
  show "within steady (seek_s fd off whence)"
    unfolding seek_s_def by (rule ok_handler_call [OF seek]) (rule steady.within_mreturn)
  show "within steady (read_s hw fr fd buf sz)"
    unfolding read_s_def by (rule ok_handler_call [OF rd]) (rule steady.within_mreturn)
  show "within steady (write_s hw fr fd buf sz)"
    unfolding write_s_def by (rule ok_handler_call [OF wr]) (rule steady.within_mreturn)
qed

lemma keeps_small_calls:
  "keeps upper (readlinkat_s dirfd path buf n)" "keeps upper (get_random_s hw fr buf n flags)" "keeps upper (fstat_s fd p)"
  "keeps upper (clock_gettime32_s hw c p)" "keeps upper poweroff_s" "keeps upper unimplemented"
  "keeps upper (sys_breakpoint a b c d e f)"
  unfolding readlinkat_s_def get_random_s_def fstat_s_def clock_gettime32_s_def poweroff_s_def unimplemented_def
    sys_breakpoint_def
  by (intro frame_intros)+

lemma ok_process_calls: "within steady (set_brk_s b)" "within steady (set_child_tid p)"
  unfolding set_brk_s_def set_child_tid_def
  by (intro frame_intros kernel_ok_idle [OF idle_of_keeps [OF keeps_current]])+

lemma ok_mount_hd_s: "within steady (mount_hd_s hw fr)"
  unfolding mount_hd_s_def by (intro frame_intros kernel_ok_keeps [OF keeps_malloc])

lemma ok_call_syscall_handler: "within steady (call_syscall_handler hw fr call h a0 a1 a2 a3 a4 a5)"
proof (cases h)
  case None
  then show ?thesis by (simp add: call_syscall_handler_def) (rule steady.within_mfault)
next
  case (Some x)
  note calls = ok_openat ok_close_s ok_file_calls ok_process_calls ok_mount_hd_s kernel_ok_keeps [OF keeps_small_calls(1)]
    kernel_ok_keeps [OF keeps_small_calls(2)] kernel_ok_keeps [OF keeps_small_calls(3)] kernel_ok_keeps [OF keeps_small_calls(4)]
    kernel_ok_keeps [OF keeps_small_calls(5)] kernel_ok_keeps [OF keeps_small_calls(6)] kernel_ok_keeps [OF keeps_small_calls(7)]
    kernel_ok_idle [OF idle_demand_s] kernel_ok_idle [OF idle_nanosleep_s] steady.within_mreturn
  show ?thesis
    by (cases x) (simp_all add: Some call_syscall_handler_def calls hardware_riscv_def empty_def mprotect_s_def ioctl_s_def
      internal_unit_test_s_def)
qed

lemma ok_dispatcher: "within steady (system_call_dispatcher hw fr call a7 a0 a1 a2 a3 a4 a5)"
  unfolding system_call_dispatcher_def
  by (intro within_guard steady.within_stop
    within_state [where g = "\<lambda>s. syscall_handlers s ! unat a7" and m = "\<lambda>h. call_syscall_handler hw fr call h a0 a1 a2 a3 a4 a5"]
    ok_call_syscall_handler)

section \<open>Runs of the system\<close>

text \<open>
  A step of the system is a system call or a timer interrupt that returns, or whatever program
  and devices do to memory and devices in between.
\<close>

inductive kernel_step ::
    "'d hw \<Rightarrow> frame \<Rightarrow> (u64 \<Rightarrow> u64 \<Rightarrow> (('d, 'z) strap_state_scheme, unit) kernel_op) \<Rightarrow>
     ('d, 'z) strap_state_scheme \<Rightarrow> ('d, 'z) strap_state_scheme \<Rightarrow> bool"
  for hw fr call where
  Syscall: "system_call_dispatcher hw fr call a7 a0 a1 a2 a3 a4 a5 s = Ok r t \<Longrightarrow> kernel_step hw fr call s t"
| Timer: "timer_interrupt_handler hw call s = Ok u t \<Longrightarrow> kernel_step hw fr call s t"
| Program: "kernel_step hw fr call s (s\<lparr>bus := b\<rparr>)"

inductive_cases kernel_stepE: "kernel_step hw fr call s t"

lemma kernel_step_ok: "kernel_step hw fr call s t \<Longrightarrow> kernel_ok s \<Longrightarrow> kernel_ok t"
proof (erule kernel_stepE)
  show "kernel_ok t" if "kernel_ok s" "system_call_dispatcher hw fr call a7 a0 a1 a2 a3 a4 a5 s = Ok r t"
    for a7 a0 a1 a2 a3 a4 a5 r
    using that within_Ok [OF ok_dispatcher] by blast
  show "kernel_ok t" if "kernel_ok s" "timer_interrupt_handler hw call s = Ok u t" for u
    using that within_Ok [OF kernel_ok_idle [OF idle_timer]] by blast
  show "kernel_ok t" if "kernel_ok s" "t = s\<lparr>bus := b\<rparr>" for b
    using that by (simp add: kernel_ok_def fds_ok_def no_deferred_def)
qed

lemma kernel_steps_ok: "(kernel_step hw fr call)\<^sup>*\<^sup>* s t \<Longrightarrow> kernel_ok s \<Longrightarrow> kernel_ok t"
  by (induction rule: rtranclp_induct) (auto intro: kernel_step_ok)

text \<open>Filling the table of handlers.\<close>

lemma set_syscall_handlers_at:
  "\<forall>(i, h) \<in> set es. i < length (syscall_handlers s) \<Longrightarrow>
   set_syscall_handlers es s = Ok () (s\<lparr>syscall_handlers := fold (\<lambda>(i, h) hs. hs[i := Some h]) es (syscall_handlers s)\<rparr>)"
  by (induction es arbitrary: s) (auto simp: monad_simps set_syscall_handler_def)

lemma fold_update_nth:
  "i < length hs \<Longrightarrow> distinct (map fst es) \<Longrightarrow> fold (\<lambda>(i, h) hs. hs[i := Some h]) es hs ! i =
     (case map_of es i of None \<Rightarrow> hs ! i | Some h \<Rightarrow> Some h)"
proof (induction es arbitrary: hs)
  case (Cons e es)
  moreover have "fst e \<notin> fst ` set es" using Cons.prems by simp
  then have "map_of es (fst e) = None" by (simp add: map_of_eq_None_iff)
  ultimately show ?case by (cases e) (auto split: option.split)
qed simp

lemma length_fold_update: "length (fold (\<lambda>(i, h) hs. hs[i := Some h]) es hs) = length hs"
  by (induction es arbitrary: hs) auto

lemma configure_syscall_handlers_ok:
  assumes "278 < length (syscall_handlers s)"
  shows "\<exists>hs. configure_syscall_handlers s = Ok () (s\<lparr>syscall_handlers := hs\<rparr>) \<and> length hs = length (syscall_handlers s) \<and>
    (\<forall>i < length hs. hs ! i = Some (handler_of i))"
proof -
  let ?n = "length (syscall_handlers s)" and ?upd = "fold (\<lambda>(i, h) (hs :: syscall_handler option list). hs[i := Some h])"
  let ?u = "map (\<lambda>i. (i, Unimplemented)) [0..<?n]"
  let ?hs = "?upd syscall_table (?upd ?u (syscall_handlers s))"
  let ?t = "s\<lparr>syscall_handlers := ?upd ?u (syscall_handlers s)\<rparr>"
  have u: "set_syscall_handlers ?u s = Ok () ?t"
    by (rule set_syscall_handlers_at) auto
  have "\<forall>(i, h) \<in> set syscall_table. i < ?n" using assms by (simp add: syscall_table_def)
  then have "set_syscall_handlers syscall_table ?t = Ok () (s\<lparr>syscall_handlers := ?hs\<rparr>)"
    by (subst set_syscall_handlers_at) (simp_all add: length_fold_update)
  then have "configure_syscall_handlers s = Ok () (s\<lparr>syscall_handlers := ?hs\<rparr>)"
    by (simp only: configure_syscall_handlers_def mbind_def mthen_def mgets_def u outcome.case)
  moreover have "?hs ! i = Some (handler_of i)" if "i < ?n" for i
  proof -
    have d: "distinct (map fst syscall_table)" "distinct (map fst ?u)" by (simp_all add: syscall_table_def comp_def)
    have "map_of ?u i = Some Unimplemented" using that by (simp add: map_of_map_restrict)
    then have "?upd ?u (syscall_handlers s) ! i = Some Unimplemented"
      using fold_update_nth [OF that d(2)] by simp
    then show ?thesis
      using that d(1) by (subst fold_update_nth) (simp_all add: length_fold_update handler_of_def split: option.split)
  qed
  ultimately show ?thesis by (auto simp: length_fold_update)
qed

text \<open>The reference machine of \<open>Descriptors\<close> with a table of 451 handlers, before and after the tables are filled.\<close>

definition ref_reset :: "ref_disk strap_state" where
  "ref_reset = io_state.extend (io_init (os_init ref_fs 0 0) ref_sb True) (strap_state.fields (replicate 451 None))"

definition ref_kernel :: "ref_disk strap_state" where
  "ref_kernel = io_state.extend ref_io (strap_state.fields (map (\<lambda>i. Some (handler_of i)) [0..<451]))"

lemma ref_kernel_simps [simp]:
  "bus ref_kernel = bus ref_io" "virtio_drivers ref_kernel = virtio_drivers ref_io" "superblock ref_kernel = superblock ref_io"
  "superblock_mounted ref_kernel = superblock_mounted ref_io" "fds ref_kernel = fds ref_io"
  "syscall_handlers ref_kernel = map (\<lambda>i. Some (handler_of i)) [0..<451]" "kernel ref_kernel = kernel ref_io"
  by (simp_all add: ref_kernel_def io_state.defs strap_state.defs)

lemma ref_kernel_ok: "kernel_ok ref_kernel" "fd_view ref_kernel = [1 \<mapsto> Console]"
proof -
  have "no_deferred ref_kernel"
    by (simp add: no_deferred_def ref_io_def configure_io_def configure_stdio_def monad_simps io_init_def set_fd_def
      os_state.defs io_state.defs)
  then show "kernel_ok ref_kernel"
    using ref_io_fds(1) fds_ok_fds [of ref_kernel ref_io] by (simp add: kernel_ok_def del: upt_rec_numeral)
  show "fd_view ref_kernel = [1 \<mapsto> Console]" using fd_view_fds [of ref_kernel ref_io] ref_io_fds(3) by simp
qed

lemma fd_ok_handlers:
  "fd_ok d \<Longrightarrow> if fd_open d
     then write_handler d \<noteq> None \<and> (read_handler d = None \<longleftrightarrow> write_handler d = Some Stdout_write_handler) \<and>
       (seek_handler d = None \<longleftrightarrow> write_handler d = Some Stdout_write_handler)
     else write_handler d = None \<and> read_handler d = None \<and> seek_handler d = None"
  by (auto simp: fd_ok_def split: if_splits)


lemma ref_reset_simps [simp]:
  "fds ref_reset = replicate max_fd zero_fd" "wakeup_time (deferred (kernel ref_reset)) = 0"
  "syscall_handlers ref_reset = replicate 451 None"
  by (simp_all add: ref_reset_def io_init_def io_state.defs strap_state.defs os_state.defs)


section \<open>Dispatch\<close>



section \<open>Positions\<close>

lemma view_file:
  assumes "fds_ok s" and "fd_view s i = Some (File ino pos)"
  shows "i < length (fds s)" "fd_open (fds s ! i)" "fd_ino (fds s ! i) = ino" "fd_pos (fds s ! i) = pos"
    "write_handler (fds s ! i) = Some Disk_write_handler" "read_handler (fds s ! i) = Some Disk_read_handler"
    "seek_handler (fds s ! i) = Some Disk_seek_handler" "fd_ok (fds s ! i)"
proof -
  show i: "i < length (fds s)" using assms(2) by (simp add: fd_view_def split: if_splits)
  then show ok: "fd_ok (fds s ! i)" using assms(1) by (simp add: fds_ok_def list_all_length)
  show "fd_open (fds s ! i)" "fd_ino (fds s ! i) = ino" "fd_pos (fds s ! i) = pos"
    "write_handler (fds s ! i) = Some Disk_write_handler" "read_handler (fds s ! i) = Some Disk_read_handler"
    "seek_handler (fds s ! i) = Some Disk_seek_handler"
    using assms(2) i ok by (auto simp: fd_view_def open_view_def fd_ok_def split: if_splits)
qed

lemma seek_s_run:
  assumes "fds_ok s" and "fd_view s (unat fd) = Some (File ino pos)"
  shows "\<exists>t. seek_s fd off whence s = Ok (case unat (ucast whence :: c_int) of
        0 \<Rightarrow> scast (ucast off :: c_int) | Suc 0 \<Rightarrow> scast (ucast (pos + off) :: c_int) | _ \<Rightarrow> - 1) t \<and>
    fds_ok t \<and> t = s\<lparr>fds := fds t\<rparr> \<and>
    fd_view t = (fd_view s)(unat fd \<mapsto> File ino (case unat (ucast whence :: c_int) of 0 \<Rightarrow> off | Suc 0 \<Rightarrow> pos + off | _ \<Rightarrow> pos))"
proof -
  note v = view_file [OF assms]
  let ?w = "ucast whence :: c_int"
  have open_: "is_fd_open s fd" using is_fd_open_view [OF assms(1)] assms(2) by simp
  then have run: "seek_s fd off whence s = mbind (disk_seek_handler fd off ?w) (\<lambda>r. mreturn (scast r)) s"
    by (simp add: seek_s_def call_seek_handler_def v)
  have moved: "fds_ok (set_fd (unat fd) (\<lambda>d. d\<lparr>fd_pos := p\<rparr>) s)"
    "fd_view (set_fd (unat fd) (\<lambda>d. d\<lparr>fd_pos := p\<rparr>) s) = (fd_view s)(unat fd \<mapsto> File ino p)" for p
    using fds_ok_set_fd [OF assms(1), of "\<lambda>d. d\<lparr>fd_pos := p\<rparr>" "unat fd"] v
    by (simp_all add: fd_view_set_fd) (simp add: open_view_def)
  have upd: "set_fd i f s = s\<lparr>fds := fds (set_fd i f s)\<rparr>" for i f by (simp add: set_fd_def)
  consider "?w = 0" | "?w = 1" | "?w \<noteq> 0" "?w \<noteq> 1" by blast
  then show ?thesis
  proof cases
    case 1
    then show ?thesis using run open_ moved upd by (auto simp: disk_seek_handler_def monad_simps)
  next
    case 2
    then show ?thesis using run open_ moved upd v(4) by (auto simp: disk_seek_handler_def monad_simps Let_def)
  next
    case 3
    then have "unat ?w \<noteq> 0" "unat ?w \<noteq> Suc 0" using word_eq_unatI [of ?w 1] by (auto simp: unat_eq_0)
    then have "(case unat ?w of 0 \<Rightarrow> a | Suc 0 \<Rightarrow> b | _ \<Rightarrow> c) = c" for a b c :: u64
      by (auto split: nat.split)
    moreover have "(fd_view s)(unat fd \<mapsto> File ino pos) = fd_view s" using assms(2) by (simp add: fun_upd_idem)
    ultimately show ?thesis using run open_ 3 assms(1) by (simp add: disk_seek_handler_def monad_simps)
  qed
qed

text \<open>
  C35.  Seeking on an open file moves its position to the offset (\<open>SEEK_SET\<close>) or by the offset
  (\<open>SEEK_CUR\<close>), modulo \<open>2 ^ 64\<close>, and touches nothing else; every other way of seeking, the end of the
  file included, is refused.  The result is the new position cut down to a signed 32-bit number.
\<close>

theorem seek_s_correct:
  assumes "fds_ok s" and "fd_view s (unat fd) = Some (File ino pos)"
  shows "\<exists>t. seek_s fd off whence s = Ok (case unat (ucast whence :: c_int) of
        0 \<Rightarrow> scast (ucast off :: c_int) | Suc 0 \<Rightarrow> scast (ucast (pos + off) :: c_int) | _ \<Rightarrow> - 1) t \<and>
    fds_ok t \<and> t = s\<lparr>fds := fds t\<rparr> \<and>
    fd_view t = (fd_view s)(unat fd \<mapsto> File ino (case unat (ucast whence :: c_int) of 0 \<Rightarrow> off | Suc 0 \<Rightarrow> pos + off | _ \<Rightarrow> pos))"
  using assms by (rule seek_s_run)

text \<open>A file open at descriptor 0.\<close>

definition ref_open :: "ref_disk strap_state" where
  "ref_open = set_fd 0 (\<lambda>d. (disk_fd d)\<lparr>fd_ino := 3\<rparr>) ref_kernel"

lemma ref_open_simps [simp]: "fds_ok ref_open" "fd_view ref_open = [1 \<mapsto> Console, 0 \<mapsto> File 3 0]"
proof -
  have k: "fds_ok ref_kernel" using ref_kernel_ok(1) by (simp add: kernel_ok_def)
  show "fds_ok ref_open" unfolding ref_open_def by (rule fds_ok_set_fd [OF k]) simp
  have "0 < length (fds ref_kernel)" by (simp add: max_fd_def)
  from fd_view_set_fd [OF this] show "fd_view ref_open = [1 \<mapsto> Console, 0 \<mapsto> File 3 0]"
    unfolding ref_open_def by (simp add: ref_kernel_ok) (simp add: open_view_def disk_fd_def zero_fd_def max_fd_def)
qed

theorem seek_s_correct_witness:
  "(\<exists>t. seek_s 0 0x100000005 0 ref_open = Ok 5 t \<and> fd_view t = [1 \<mapsto> Console, 0 \<mapsto> File 3 0x100000005]) \<and>
   (\<exists>t. seek_s 0 7 2 ref_open = Ok (- 1) t \<and> fd_view t = fd_view ref_open)"
proof -
  note c = seek_s_correct [of ref_open 0 3 0, simplified]
  show ?thesis using c [of "0x100000005" 0] c [of 7 2] by (auto simp: fun_upd_twist)
qed

text \<open>
  C36.  Reading, writing and seeking on a number that is not open returns -1 and does nothing.  The
  console can be written to but has no functions for reading and seeking: both call a null
  pointer.
\<close>

theorem bad_descriptor_calls:
  assumes "fds_ok s"
  shows "(fd_view s (unat fd) = None \<longrightarrow> read_s hw fr fd buf sz s = Ok (- 1) s \<and> write_s hw fr fd buf sz s = Ok (- 1) s \<and>
      seek_s fd off whence s = Ok (- 1) s) \<and>
    (fd_view s (unat fd) = Some Console \<longrightarrow> read_s hw fr fd buf sz s = Fault NullPointer s \<and>
      seek_s fd off whence s = Fault NullPointer s)"
proof -
  have "read_handler (fds s ! unat fd) = None \<and> seek_handler (fds s ! unat fd) = None" if "fd_view s (unat fd) = Some Console"
    using that assms by (auto simp: fd_view_def open_view_def fds_ok_def list_all_length fd_ok_def split: if_splits)
  then show ?thesis
    using is_fd_open_view [OF assms, of fd]
    by (auto simp: read_s_def write_s_def seek_s_def call_read_handler_def call_seek_handler_def monad_simps)
qed

theorem bad_descriptor_calls_witness:
  "read_s (ref_hw ref_vring) ref_frame 1 0x9000 8 ref_open = Fault NullPointer ref_open \<and>
   write_s (ref_hw ref_vring) ref_frame 2 0x9000 8 ref_open = Ok (- 1) ref_open"
  using bad_descriptor_calls [of ref_open 1] bad_descriptor_calls [of ref_open 2] by simp

end
