(* ===== verification/Storage.thy ===== *)
theory Storage
  imports Kernel
begin

text \<open>
  Files through the system call interface, from the memory of a program to the disk and back.  The
  block functions write to no memory but their own stack frame (relation \<open>ram_rel\<close>, carried through
  the file system by the locale \<open>disk_relation\<close>), so a buffer that does not overlap the frame holds
  what a read has put there.
\<close>

section \<open>Memory that the block functions use\<close>

definition scratch :: "frame \<Rightarrow> u64 set" where
  "scratch fr = {a. unat (a - blk_hdr fr) < 16} \<union> {blk_status fr} \<union> {a. unat (a - blk_buf fr) < 512}"

definition ram_rel ::
    "'d hw \<Rightarrow> 'd disk_view \<Rightarrow> frame \<Rightarrow> nat \<Rightarrow> ('d, 'z) virtio_state_scheme \<Rightarrow> ('d, 'z) virtio_state_scheme \<Rightarrow> bool" where
  "ram_rel hw dv fr d s t \<longleftrightarrow> (fs_ready hw dv fr d s \<longrightarrow>
     fs_ready hw dv fr d t \<and> good dv t = good dv s \<and> (\<forall>a. a \<notin> scratch fr \<longrightarrow> ram t a = ram s a))"

lemma ram_rel_vacuous: "\<not> fs_ready hw dv fr d s \<Longrightarrow> ram_rel hw dv fr d s t"
  by (auto simp: ram_rel_def)

lemma ram_relD: "ram_rel hw dv fr d s t \<Longrightarrow> fs_ready hw dv fr d s \<Longrightarrow> a \<notin> scratch fr \<Longrightarrow> ram t a = ram s a"
  by (simp add: ram_rel_def)

lemma ram_rel_trans: "ram_rel hw dv fr d s t \<Longrightarrow> ram_rel hw dv fr d t u \<Longrightarrow> ram_rel hw dv fr d s u"
  by (simp add: ram_rel_def)

interpretation ram: frame_relation "ram_rel hw dv fr d" for hw dv fr d
proof
  show "ram_rel hw dv fr d s u" if "ram_rel hw dv fr d s t" "ram_rel hw dv fr d t u" for s t u :: "('a, 'b) virtio_state_scheme"
    using that by (rule ram_rel_trans)
qed (simp add: ram_rel_def)

lemma store_in_range:
  assumes "unat off + length bs \<le> n" and "n < 2 ^ 64" and "\<not> unat (a - p) < n"
  shows "store_bytes (p + off) bs m a = m a"
proof -
  have "\<not> unat (a - (p + off)) < length bs"
  proof
    assume l: "unat (a - (p + off)) < length bs"
    have "unat ((a - (p + off)) + off) = unat (a - (p + off)) + unat off"
      using l assms(1,2) by (intro unat_add_small) simp
    then show False using l assms by (simp add: algebra_simps)
  qed
  then show ?thesis by (simp add: store_bytes_def)
qed

lemma store_scratch:
  assumes "a \<notin> scratch fr"
  shows "store_bytes (blk_status fr) [x] m a = m a"
    and "unat off + length bs \<le> 16 \<Longrightarrow> store_bytes (blk_hdr fr + off) bs m a = m a"
    and "unat off + length cs \<le> 512 \<Longrightarrow> store_bytes (blk_buf fr + off) cs m a = m a"
proof -
  have "\<not> unat (a - blk_status fr) < 1" using assms by (auto simp: scratch_def unat_eq_0)
  then show "store_bytes (blk_status fr) [x] m a = m a" by (simp add: store_bytes_def)
  show "unat off + length bs \<le> 16 \<Longrightarrow> store_bytes (blk_hdr fr + off) bs m a = m a"
    using assms by (intro store_in_range [where n = 16]) (auto simp: scratch_def)
  show "unat off + length cs \<le> 512 \<Longrightarrow> store_bytes (blk_buf fr + off) cs m a = m a"
    using assms by (intro store_in_range [where n = 512]) (auto simp: scratch_def)
qed

lemma ram_store [frame_intros]:
  "unat off + length bs \<le> 512 \<Longrightarrow> within (ram_rel hw dv fr d) (store (blk_buf fr + off) bs)"
  by (simp add: within_def store_eq ram_rel_def store_scratch)

lemma ram_store_buf [frame_intros]:
  "length bs \<le> 512 \<Longrightarrow> within (ram_rel hw dv fr d) (store (blk_buf fr) bs)"
  using ram_store [of 0 bs] by simp

lemma posted_scratch: "a \<notin> scratch fr \<Longrightarrow> mem (blk_posted fr v op dflags sector p b) a = mem b a"
  using store_scratch(2) [of a fr 0 "le_bytes 4 op"] by (simp add: blk_posted_def store_scratch)

text \<open>A single request; its status says whether a sector that was to be read is good.\<close>

lemma ram_submit:
  assumes "fs_ready hw dv fr d s" and "request_kind op dflags" and "op = 1 \<Longrightarrow> good dv s sector"
  obtains r t where "blk_submit hw fr d op dflags sector (blk_buf fr) s = Ok r t" and "ram_rel hw dv fr d s t"
    and "op = 0 \<Longrightarrow> r = 0 \<longleftrightarrow> good dv s sector"
proof -
  have ready: "blk_ready hw dv d s" and fr: "frame_ok fr (blk_buf fr)" using assms(1) by simp_all
  obtain v t where run: "blk_submit hw fr d op dflags sector (blk_buf fr) s = Ok (ram t (blk_status fr)) t"
    and t: "blk_ready hw dv d t"
    and eff: "blk_effect dv v \<lparr>rq_type = op, rq_sector = sector, rq_data = blk_buf fr, rq_status = blk_status fr\<rparr>
      (blk_posted fr v op dflags sector (blk_buf fr) (bus s)) (bus t)"
    using blk_request_run [OF ready fr assms(2,3)] by blast
  have buf: "a \<notin> scratch fr \<Longrightarrow> length bs = 512 \<Longrightarrow> store_bytes (blk_buf fr) bs m a = m a" for a bs m
    using store_scratch(3) [of a fr 0 bs] by simp
  have good: "good dv t = good dv s" using eff by (simp add: blk_effect_def)
  have "ram t a = ram s a" if "a \<notin> scratch fr" for a
    using eff that disk_length [OF ready]
    by (auto simp: blk_effect_def posted_scratch store_scratch buf split: if_splits)
  then have "ram_rel hw dv fr d s t" using t fr good by (simp add: ram_rel_def)
  moreover have "ram t (blk_status fr) = 0 \<longleftrightarrow> good dv s sector" if "op = 0"
    using eff that by (auto simp: blk_effect_def store_status split: if_splits)
  ultimately show thesis using that run by blast
qed

lemma ram_read_sector [frame_intros]:
  "within (ram_rel hw dv fr d) (virtio_blk_read_sector_sync hw fr d sector (blk_buf fr))"
  unfolding within_def sector_sync_submit
proof
  fix s :: "('a, 'b) virtio_state_scheme"
  show "case blk_submit hw fr d VIRTIO_BLK_READ_OP VRING_DESCR_WRITABLE sector (blk_buf fr) s of
      Ok _ t \<Rightarrow> ram_rel hw dv fr d s t | Fault _ t \<Rightarrow> ram_rel hw dv fr d s t"
  proof (cases "fs_ready hw dv fr d s")
    case True
    show ?thesis
      by (rule ram_submit [OF True, of VIRTIO_BLK_READ_OP VRING_DESCR_WRITABLE sector])
        (simp_all add: request_kind_def VIRTIO_BLK_READ_OP_def VRING_DESCR_WRITABLE_def)
  qed (simp add: ram_rel_vacuous split: outcome.split)
qed

text \<open>A sector is written only after it has been read without error.\<close>

lemma ram_update_sector:
  assumes "unat off + length bs \<le> 512" and "\<And>w. within (ram_rel hw dv fr d) (k w)"
  shows "within (ram_rel hw dv fr d) (mbind (virtio_blk_read_sector_sync hw fr d sector (blk_buf fr)) (\<lambda>r.
    if r \<noteq> 0 then mreturn x
    else mthen (store (blk_buf fr + off) bs) (mbind (virtio_blk_write_sector_sync hw fr d sector (blk_buf fr)) k)))"
    (is "within _ ?m")
  unfolding within_def
proof
  fix s :: "('a, 'b) virtio_state_scheme"
  show "case ?m s of Ok _ t \<Rightarrow> ram_rel hw dv fr d s t | Fault _ t \<Rightarrow> ram_rel hw dv fr d s t"
  proof (cases "fs_ready hw dv fr d s")
    case True
    obtain r t where rd: "virtio_blk_read_sector_sync hw fr d sector (blk_buf fr) s = Ok r t" and st: "ram_rel hw dv fr d s t"
      and r: "r = 0 \<longleftrightarrow> good dv s sector"
      unfolding sector_sync_submit
      by (rule ram_submit [OF True, of VIRTIO_BLK_READ_OP VRING_DESCR_WRITABLE sector])
        (simp_all add: request_kind_def VIRTIO_BLK_READ_OP_def VRING_DESCR_WRITABLE_def)
    show ?thesis
    proof (cases "r = 0")
      case False
      then show ?thesis using rd st by (simp add: monad_simps)
    next
      case ok: True
      define u where "u = t\<lparr>bus := (bus t)\<lparr>mem := store_bytes (blk_buf fr + off) bs (ram t)\<rparr>\<rparr>"
      have "store (blk_buf fr + off) bs t = Ok () u" by (simp add: store_eq u_def)
      moreover from this have tu: "ram_rel hw dv fr d t u" by (rule within_Ok [OF ram_store [OF assms(1)]])
      ultimately have u: "fs_ready hw dv fr d u" "good dv u sector" and su: "ram_rel hw dv fr d s u"
        using st True r ok ram_rel_trans [OF st tu] by (auto simp: ram_rel_def)
      obtain w v where wr: "virtio_blk_write_sector_sync hw fr d sector (blk_buf fr) u = Ok w v" and "ram_rel hw dv fr d u v"
        unfolding sector_sync_submit
        by (rule ram_submit [OF u(1), of VIRTIO_BLK_WRITE_OP 0 sector])
          (use u(2) in \<open>simp_all add: request_kind_def VIRTIO_BLK_WRITE_OP_def\<close>)
      then have sv: "ram_rel hw dv fr d s v" using su ram_rel_trans by blast
      have "?m s = k w v" using rd wr ok by (simp add: monad_simps store_eq flip: u_def)
      then show ?thesis
        using sv assms(2) [of w] ram_rel_trans [OF sv] by (auto simp: within_def dest: spec [of _ v] split: outcome.splits)
    qed
  qed (simp add: ram_rel_vacuous split: outcome.split)
qed

lemma blk_chunk_room:
  "unat (virtio_blk_sector_offset_from_pos (offset + amt)) + unat (blk_chunk offset sz amt) \<le> 512"
proof -
  let ?o = "virtio_blk_sector_offset_from_pos (offset + amt)"
  have o: "unat ?o < 512"
    by (simp add: virtio_blk_sector_offset_from_pos_def VIRTIO_BLK_SIZE_def unat_mod_distrib)
  then have r: "unat (512 - ?o) = 512 - unat ?o"
    by (subst unat_sub) (simp_all add: word_le_nat_alt)
  have "unat (blk_chunk offset sz amt) \<le> unat (512 - ?o)"
    by (auto simp: blk_chunk_def MIN_macro_def VIRTIO_BLK_SIZE_def word_less_nat_alt)
  with r o show ?thesis by simp
qed

lemma ram_read_loop: "within (ram_rel hw dv fr d) (virtio_blk_read_loop hw fr d offset sz amt out)"
proof (induction hw fr d offset sz amt out rule: virtio_blk_read_loop.induct)
  case (1 hw fr d offset sz amt out)
  show ?case
    by (subst virtio_blk_read_loop.simps)
      (auto simp: Let_def VIRTIO_BLK_SIZE_def intro!: frame_intros "1" [OF _ refl refl refl])
qed

lemma ram_write_loop: "within (ram_rel hw dv fr d) (virtio_blk_write_loop hw fr d input offset sz amt)"
proof (induction hw fr d input offset sz amt rule: virtio_blk_write_loop.induct)
  case (1 hw fr d input offset sz amt)
  have "unat (virtio_blk_sector_offset_from_pos (offset + amt)) +
      length (slice (unat amt) (unat (blk_chunk offset sz amt)) input) \<le> 512"
    using blk_chunk_room [of offset amt sz] by (simp add: slice_def)
  then show ?case
    unfolding virtio_blk_write_loop.simps [of hw fr d input offset sz amt] Let_def VIRTIO_BLK_SIZE_def
    by (intro within_if ram.within_mthen ram_store_buf ram_update_sector ram.within_mreturn "1" [OF _ refl refl refl]) simp_all
qed

lemma ram_print: "within (ram_rel hw dv fr d) (eprint_str cs)"
  by (simp add: within_def monad_simps ram_rel_def)

interpretation mem: disk_relation "ram_rel hw dv fr d" hw fr d for hw dv fr d
  by unfold_locales (simp_all add: virtio_blk_read_sync_def virtio_blk_write_sync_def ram_read_loop ram_write_loop ram_print)

section \<open>The handlers for files\<close>

lemma is_open_file: "fds_ok s \<Longrightarrow> fd_view s (unat fd) = Some (File ino pos) \<Longrightarrow> is_fd_open s fd"
  by (simp add: is_fd_open_view)

lemma disk_write_run:
  assumes "fs_ready hw dv fr 1 s" and "fds_ok s" and "fd_view s (unat fd) = Some (File ino pos)"
    and "write_to_ino hw fr 1 (superblock s) ino (load_bytes buf (unat len) (ram s)) pos len s = Ok n t"
    and "system_time hw 1 t = Ok (True, sec, nsec) t"
    and "set_mtime_for_ino hw fr 1 (superblock s) ino (ucast sec) t = Ok True u"
  shows "disk_write_handler hw fr fd buf len s = Ok (ucast n) u"
    and "write_s hw fr fd buf len s = Ok (scast (ucast n :: c_int)) u"
proof -
  have "Suc 0 < length (virtio_drivers s)" "initialized (virtio_drivers s ! 1)"
    using assms(1) by (simp_all add: blk_ready_def)
  then show h: "disk_write_handler hw fr fd buf len s = Ok (ucast n) u"
    using assms(4-6) is_open_file [OF assms(2,3)] view_file [OF assms(2,3)]
    by (simp add: disk_write_handler_def with_disk_at superblock_for_ino_def monad_simps Let_def)
  then show "write_s hw fr fd buf len s = Ok (scast (ucast n :: c_int)) u"
    using is_open_file [OF assms(2,3)] view_file [OF assms(2,3)]
    by (simp add: write_s_def call_write_handler_def monad_simps)
qed

lemma disk_read_run:
  assumes "fs_ready hw dv fr 1 s" and "fds_ok s" and "fd_view s (unat fd) = Some (File ino pos)" and "len \<noteq> 0"
    and "read_from_ino hw fr 1 (superblock s) ino pos len s = Ok (n, bs) t" and "store buf bs t = Ok () t'"
    and "system_time hw 1 t' = Ok (True, sec, nsec) t'"
    and "set_atime_for_ino hw fr 1 (superblock s) ino (ucast sec) t' = Ok True u"
  shows "disk_read_handler hw fr fd buf len s = Ok (ucast n) u"
    and "read_s hw fr fd buf len s = Ok (scast (ucast n :: c_int)) u"
proof -
  have "Suc 0 < length (virtio_drivers s)" "initialized (virtio_drivers s ! 1)"
    using assms(1) by (simp_all add: blk_ready_def)
  then show h: "disk_read_handler hw fr fd buf len s = Ok (ucast n) u"
    using assms(4-8) is_open_file [OF assms(2,3)] view_file [OF assms(2,3)]
    by (simp add: disk_read_handler_def with_disk_at superblock_for_ino_def mbind_def mthen_def mreturn_def)
  then show "read_s hw fr fd buf len s = Ok (scast (ucast n :: c_int)) u"
    using is_open_file [OF assms(2,3)] view_file [OF assms(2,3)]
    by (simp add: read_s_def call_read_handler_def monad_simps)
qed

section \<open>Time stamps do not move a file\<close>

definition meta_apart :: "(nat \<Rightarrow> u8) \<Rightarrow> ext2_superblock \<Rightarrow> u32 \<Rightarrow> bool" where
  "meta_apart c sb ino \<longleftrightarrow> bg_pos (ino_group sb ino) + 32 \<le> ino_pos c sb ino \<or>
     ino_pos c sb ino + 256 \<le> bg_pos (ino_group sb ino)"

lemma stamped_inode:
  assumes "meta_apart c sb ino" and "off + 4 \<le> 40" and "c' = overwrite (ino_pos c sb ino + off) (le_bytes 4 w) c"
  shows "ino_pos c' sb ino = ino_pos c sb ino" and "file_pos (inode_at c' sb ino) = file_pos (inode_at c sb ino)"
proof -
  have "bytes_at c' (bg_pos (ino_group sb ino)) 32 = bytes_at c (bg_pos (ino_group sb ino)) 32"
    unfolding assms(3) using assms(1,2) by (intro bytes_at_overwrite_other) (auto simp: meta_apart_def)
  then show p: "ino_pos c' sb ino = ino_pos c sb ino" by (simp add: ino_pos_def bg_at_def)
  have "bytes_at c' (ino_pos c sb ino + (40 + 4 * k)) 4 = bytes_at c (ino_pos c sb ino + (40 + 4 * k)) 4" for k
    unfolding assms(3) using assms(2) by (intro bytes_at_overwrite_other) auto
  then have "i_block (inode_at c' sb ino) = i_block (inode_at c sb ino)"
    by (auto simp: inode_at_def decode_inode_def p slice_bytes_at)
  then show "file_pos (inode_at c' sb ino) = file_pos (inode_at c sb ino)" by (simp add: file_pos_def fun_eq_iff)
qed

section \<open>Writing and reading back\<close>

text \<open>
  A range of a file that can be written and read in full: it lies in the fifteen blocks of the
  inode and in good sectors, no two of its bytes are the same byte of the disk, and none of them
  belongs to the inode or its group descriptor, which do not overlap either.
\<close>

definition file_range_ok ::
    "'d disk_view \<Rightarrow> ('d, 'z) virtio_state_scheme \<Rightarrow> ext2_superblock \<Rightarrow> u32 \<Rightarrow> nat \<Rightarrow> nat \<Rightarrow> bool" where
  "file_range_ok dv s sb ino p n \<longleftrightarrow>
     (let c = disk_byte dv s; fp = file_pos (inode_at c sb ino) in
      inode_ok dv s sb ino \<and> p + n \<le> 15 * 1024 \<and> inj_on fp {p..<p + n} \<and> (\<forall>q\<in>{p..<p + n}. disk_ok dv s (fp q)) \<and>
      fp ` {p..<p + n} \<inter> ({bg_pos (ino_group sb ino)..<bg_pos (ino_group sb ino) + 32} \<union>
        {ino_pos c sb ino..<ino_pos c sb ino + 256}) = {} \<and> meta_apart c sb ino)"

lemma system_time_run: "\<exists>sec nsec. system_time hw 1 s = Ok (True, sec, nsec) s"
  by (simp add: system_time_def Let_def)

text \<open>What a complete write leaves on the disk: the bytes in the file, the file where it was.\<close>

lemma write_file_run:
  assumes "fs_ready hw dv fr 1 s" and "fds_ok s" and "fd_view s (unat fd) = Some (File ino pos)"
    and ok: "file_range_ok dv s (superblock s) ino (unat pos) (unat len)"
  defines "inode \<equiv> inode_at (disk_byte dv s) (superblock s) ino"
  obtains u where "disk_write_handler hw fr fd buf len s = Ok (ucast len) u"
    and "write_s hw fr fd buf len s = Ok (scast (ucast len :: c_int)) u" and "fs_ready hw dv fr 1 u"
    and "inode_ok dv u (superblock s) ino" and "disk_ok dv u = disk_ok dv s"
    and "file_pos (inode_at (disk_byte dv u) (superblock s) ino) = file_pos inode"
    and "bytes_at (\<lambda>p. disk_byte dv u (file_pos inode p)) (unat pos) (unat len) = load_bytes buf (unat len) (ram s)"
    and "ino_pos (disk_byte dv u) (superblock s) ino = ino_pos (disk_byte dv s) (superblock s) ino"
    and "\<forall>p. p \<notin> file_pos inode ` {unat pos..<unat pos + unat len} \<and>
      p \<notin> {ino_pos (disk_byte dv s) (superblock s) ino..<ino_pos (disk_byte dv s) (superblock s) ino + 256} \<longrightarrow>
      disk_byte dv u p = disk_byte dv s p"
    and "\<forall>a. a \<notin> scratch fr \<longrightarrow> ram u a = ram s a"
proof -
  let ?sb = "superblock s" and ?c = "disk_byte dv s" and ?bs = "load_bytes buf (unat len) (ram s)"
  have ino: "inode_ok dv s ?sb ino" and len: "unat pos + unat len \<le> 15 * 1024" "unat len \<le> length ?bs"
    and inj: "inj_on (file_pos inode) {unat pos..<unat pos + unat len}"
    and good: "\<forall>q\<in>{unat pos..<unat pos + unat len}. disk_ok dv s (file_pos inode q)"
    and apart: "file_pos inode ` {unat pos..<unat pos + unat len} \<inter> ({bg_pos (ino_group ?sb ino)..<bg_pos (ino_group ?sb ino) + 32} \<union>
        {ino_pos ?c ?sb ino..<ino_pos ?c ?sb ino + 256}) = {}" and meta: "meta_apart ?c ?sb ino"
    using ok by (simp_all add: file_range_ok_def Let_def inode_def)
  obtain n r t where wr: "write_to_ino hw fr 1 ?sb ino ?bs pos len s = Ok n t"
    and t: "fs_ready hw dv fr 1 t" "disk_ok dv t = disk_ok dv s" and n: "r = unat len \<longrightarrow> n = len"
    and fw: "file_written (file_pos inode) (unat pos) (take r ?bs) ?c (disk_byte dv t)"
    and r: "stops_after (\<lambda>p. disk_ok dv s (file_pos inode p)) (unat pos) (unat len) r"
    using write_to_ino_run [OF assms(1) ino len inj [unfolded inode_def]] unfolding inode_def by blast
  have r: "r = unat len" using stops_after_all [OF r] good by simp
  then have fw: "file_written (file_pos inode) (unat pos) ?bs ?c (disk_byte dv t)" using fw by simp
  have bg: "bytes_at (disk_byte dv t) (bg_pos (ino_group ?sb ino)) 32 = bytes_at ?c (bg_pos (ino_group ?sb ino)) 32"
    by (rule file_written_outside [OF fw]) (use apart in auto)
  have "bytes_at (disk_byte dv t) (ino_pos ?c ?sb ino) 256 = bytes_at ?c (ino_pos ?c ?sb ino) 256"
    by (rule file_written_outside [OF fw]) (use apart in auto)
  note same = inode_at_unchanged [OF bg this]
  have t_ino: "inode_ok dv t ?sb ino" using ino by (simp add: inode_ok_def same region_ok_def t(2))
  obtain sec nsec where clock: "system_time hw 1 t = Ok (True, sec, nsec) t" using system_time_run by blast
  obtain u where st: "set_mtime_for_ino hw fr 1 ?sb ino (ucast sec) t = Ok True u" and u: "fs_ready hw dv fr 1 u"
    and wrote: "wrote_disk dv (ino_pos (disk_byte dv t) ?sb ino + 16) (le_bytes 4 (ucast sec :: u32)) t u"
    using set_times_ok(3) [OF t(1) t_ino] by blast
  have cu: "disk_byte dv u = overwrite (ino_pos (disk_byte dv t) ?sb ino + 16) (le_bytes 4 (ucast sec :: u32)) (disk_byte dv t)"
    "disk_ok dv u = disk_ok dv s" using wrote t(2) by (simp_all add: wrote_disk_def)
  have "meta_apart (disk_byte dv t) ?sb ino" using meta by (simp add: meta_apart_def same)
  note stamped = stamped_inode [OF this _ cu(1), simplified]
  have "inode_ok dv u ?sb ino" using t_ino by (simp add: inode_ok_def stamped region_ok_def cu(2) t(2))
  moreover have "file_pos (inode_at (disk_byte dv u) ?sb ino) = file_pos inode" by (simp add: stamped same inode_def)
  moreover have "disk_byte dv u (file_pos inode (unat pos + i)) = ?bs ! i" if "i < unat len" for i
  proof -
    have "file_pos inode (unat pos + i) \<in> file_pos inode ` {unat pos..<unat pos + unat len}" using that by simp
    then have "file_pos inode (unat pos + i) \<notin> {ino_pos ?c ?sb ino..<ino_pos ?c ?sb ino + 256}" using apart by blast
    then have "disk_byte dv u (file_pos inode (unat pos + i)) = disk_byte dv t (file_pos inode (unat pos + i))"
      by (auto simp: cu(1) same overwrite_def)
    then show ?thesis using fw that by (simp add: file_written_def)
  qed
  then have "bytes_at (\<lambda>p. disk_byte dv u (file_pos inode p)) (unat pos) (unat len) = ?bs"
    by (intro nth_equalityI) (simp_all add: nth_bytes_at)
  moreover have "ino_pos (disk_byte dv u) ?sb ino = ino_pos ?c ?sb ino" by (simp add: stamped same)
  moreover have "disk_byte dv u p = ?c p" if "p \<notin> file_pos inode ` {unat pos..<unat pos + unat len}"
    and "p \<notin> {ino_pos ?c ?sb ino..<ino_pos ?c ?sb ino + 256}" for p
    using that fw by (auto simp: cu(1) same overwrite_def file_written_def)
  moreover have "ram u a = ram s a" if "a \<notin> scratch fr" for a
    using ram_relD [OF within_Ok [OF mem.write_to_ino_within wr] assms(1) that]
      ram_relD [OF within_Ok [OF mem.set_mtime_within st] t(1) that] by simp
  moreover note disk_write_run [OF assms(1-3) wr clock st]
  ultimately show thesis using that u cu(2) n r by blast
qed

lemma small_result: "unat len < 2 ^ 31 \<Longrightarrow> scast (ucast len :: c_int) = (len :: u64)"
proof -
  assume l: "unat len < 2 ^ 31"
  have u: "unat (ucast len :: c_int) = unat len"
    using l by (simp add: unsigned_ucast_eq take_bit_nat_eq_self)
  have v: "uint (ucast len :: c_int) = int (unat len)" unfolding u [symmetric] by simp
  have "signed_take_bit 31 (int k) = int k" if "k < 2 ^ 31" for k
    using that by (intro signed_take_bit_int_eq_self) simp_all
  from this [OF l] have "signed_take_bit 31 (int (unat len)) = int (unat len)" .
  then have "sint (ucast len :: c_int) = int (unat len)" by (simp only: sint_uint v) simp
  then have "of_int (sint (ucast len :: c_int)) = (of_nat (unat len) :: u64)" by simp
  then show ?thesis by simp
qed

text \<open>Reading a range that is good in full.\<close>

lemma read_file_run:
  assumes "fs_ready hw dv fr 1 s" and "fds_ok s" and "fd_view s (unat fd) = Some (File ino pos)" and "len \<noteq> 0"
    and "inode_ok dv s (superblock s) ino" and "unat pos + unat len \<le> 15 * 1024"
    and good: "\<forall>q\<in>{unat pos..<unat pos + unat len}. disk_ok dv s (file_pos (inode_at (disk_byte dv s) (superblock s) ino) q)"
    and buf: "\<forall>i<unat len. buf + of_nat i \<notin> scratch fr"
  obtains u where "disk_read_handler hw fr fd buf len s = Ok (ucast len) u"
    and "read_s hw fr fd buf len s = Ok (scast (ucast len :: c_int)) u"
    and "load_bytes buf (unat len) (ram u) =
      bytes_at (\<lambda>p. disk_byte dv s (file_pos (inode_at (disk_byte dv s) (superblock s) ino) p)) (unat pos) (unat len)"
    and "fs_ready hw dv fr 1 u" and "disk_ok dv u = disk_ok dv s"
    and "\<exists>w. disk_byte dv u = overwrite (ino_pos (disk_byte dv s) (superblock s) ino + 8) (le_bytes 4 (w :: u32)) (disk_byte dv s)"
    and "\<forall>a. a \<notin> scratch fr \<longrightarrow> ram u a = store_bytes buf
      (bytes_at (\<lambda>p. disk_byte dv s (file_pos (inode_at (disk_byte dv s) (superblock s) ino) p)) (unat pos) (unat len)) (ram s) a"
proof -
  let ?sb = "superblock s" and ?i = "inode_at (disk_byte dv s) (superblock s) ino"
  let ?bs = "bytes_at (\<lambda>p. disk_byte dv s (file_pos ?i p)) (unat pos) (unat len)"
  obtain n r t where rd: "read_from_ino hw fr 1 ?sb ino pos len s = Ok (n, bytes_at (file_byte dv s ?i) (unat pos) r) t"
    and t: "fs_ready hw dv fr 1 t" "same_disk dv s t" and n: "r = unat len \<longrightarrow> n = len"
    and r: "stops_after (file_ok dv s ?i) (unat pos) (unat len) r"
    using read_from_ino_run [OF assms(1,5,6)] by blast
  have "r = unat len" using stops_after_all [OF r] good by simp
  then have rd: "read_from_ino hw fr 1 ?sb ino pos len s = Ok (len, ?bs) t" using rd n by simp
  define v where "v = t\<lparr>bus := (bus t)\<lparr>mem := store_bytes buf ?bs (ram t)\<rparr>\<rparr>"
  have st: "store buf ?bs t = Ok () v" by (simp add: store_eq v_def)
  have v: "fs_ready hw dv fr 1 v" using t(1) by (simp add: v_def)
  have "disk_byte dv v = disk_byte dv t" "disk_ok dv v = disk_ok dv t"
    by (rule disk_byte_cong disk_ok_cong, simp add: v_def)+
  then have vd: "disk_byte dv v = disk_byte dv s" "disk_ok dv v = disk_ok dv s"
    using t(2) by (simp_all add: same_disk_def)
  then have vi: "inode_ok dv v ?sb ino" using assms(5) by (simp add: inode_ok_def region_ok_def)
  obtain sec nsec where clock: "system_time hw 1 v = Ok (True, sec, nsec) v" using system_time_run by blast
  obtain u where at: "set_atime_for_ino hw fr 1 ?sb ino (ucast sec) v = Ok True u" and u: "fs_ready hw dv fr 1 u"
    and wrote: "wrote_disk dv (ino_pos (disk_byte dv v) ?sb ino + 8) (le_bytes 4 (ucast sec :: u32)) v u"
    using set_times_ok(1) [OF v vi] by blast
  have disk: "disk_ok dv u = disk_ok dv s"
    "disk_byte dv u = overwrite (ino_pos (disk_byte dv s) ?sb ino + 8) (le_bytes 4 (ucast sec :: u32)) (disk_byte dv s)"
    using wrote vd by (simp_all add: wrote_disk_def)
  have "ram_rel hw dv fr 1 v u" by (rule within_Ok [OF mem.set_atime_within at])
  then have uv: "ram u a = ram v a" if "a \<notin> scratch fr" for a using v that by (rule ram_relD)
  have ts: "ram t a = ram s a" if "a \<notin> scratch fr" for a
    using ram_relD [OF within_Ok [OF mem.read_from_ino_within rd] assms(1) that] .
  have all: "\<forall>a. a \<notin> scratch fr \<longrightarrow> ram u a = store_bytes buf ?bs (ram s) a"
    using ts by (simp add: uv) (simp add: v_def store_bytes_def)
  from uv have "load_bytes buf (unat len) (ram u) = load_bytes buf (unat len) (ram v)"
    using buf by (simp add: load_bytes_def)
  also have "\<dots> = ?bs" using load_store_same [of ?bs buf "ram t"] unat_u64_less [of len] by (simp add: v_def)
  finally have "load_bytes buf (unat len) (ram u) = ?bs" .
  moreover from disk(2) have "\<exists>w. disk_byte dv u = overwrite (ino_pos (disk_byte dv s) ?sb ino + 8) (le_bytes 4 (w :: u32)) (disk_byte dv s)" ..
  ultimately show thesis by (rule that [OF disk_read_run [OF assms(1-4) rd st clock at] _ u disk(1) _ all])
qed

text \<open>
  C1.  A program that writes a buffer to an open file and then reads the same number of bytes
  through the same descriptor gets its data back: both system calls return the length, the
  second buffer then holds what was in the first, and the descriptor table is as before (the
  position does not move).  This goes through every layer: descriptor table, ext2, block driver, virtqueue and
  device.  The range must be good (\<open>file_range_ok\<close>) and the second buffer apart from the stack of
  the block functions.
\<close>

theorem file_syscall_roundtrip:
  assumes "fs_ready hw dv fr 1 s" and "fds_ok s" and "fd_view s (unat fd) = Some (File ino pos)" and "len \<noteq> 0"
    and "file_range_ok dv s (superblock s) ino (unat pos) (unat len)" and "\<forall>i<unat len. buf' + of_nat i \<notin> scratch fr"
  shows "\<exists>t u. write_s hw fr fd buf len s = Ok len t \<and> read_s hw fr fd buf' len t = Ok len u \<and>
    load_bytes buf' (unat len) (ram u) = load_bytes buf (unat len) (ram s) \<and> fd_view u = fd_view s"
proof -
  let ?i = "inode_at (disk_byte dv s) (superblock s) ino"
  have len: "unat pos + unat len \<le> 15 * 1024" using assms(5) by (simp add: file_range_ok_def Let_def)
  then have small: "scast (ucast len :: c_int) = len" by (intro small_result) simp
  obtain t where hw': "disk_write_handler hw fr fd buf len s = Ok (ucast len) t"
    and wr: "write_s hw fr fd buf len s = Ok len t" and t: "fs_ready hw dv fr 1 t" "disk_ok dv t = disk_ok dv s"
    and ti: "inode_ok dv t (superblock s) ino" "file_pos (inode_at (disk_byte dv t) (superblock s) ino) = file_pos ?i"
    and bs: "bytes_at (\<lambda>p. disk_byte dv t (file_pos ?i p)) (unat pos) (unat len) = load_bytes buf (unat len) (ram s)"
    by (rule write_file_run [OF assms(1-3,5), of buf]) (simp add: small)
  note up = upper_io [OF within_Ok [OF keeps_disk_write hw']]
  have tv: "fds_ok t" "fd_view t = fd_view s" using assms(2) fds_ok_fds [OF up(1)] fd_view_fds [OF up(1)] by simp_all
  obtain u where hr: "disk_read_handler hw fr fd buf' len t = Ok (ucast len) u"
    and rd: "read_s hw fr fd buf' len t = Ok len u"
    and ld: "load_bytes buf' (unat len) (ram u) = bytes_at (\<lambda>p. disk_byte dv t (file_pos ?i p)) (unat pos) (unat len)"
  proof (rule read_file_run [OF t(1) tv(1) _ assms(4) _ len])
    show "fd_view t (unat fd) = Some (File ino pos)" using assms(3) tv by simp
    show "inode_ok dv t (superblock t) ino" using ti(1) by (simp add: up)
    show "\<forall>q\<in>{unat pos..<unat pos + unat len}. disk_ok dv t (file_pos (inode_at (disk_byte dv t) (superblock t) ino) q)"
      using assms(5) by (simp add: up ti(2) t(2) file_range_ok_def Let_def)
  qed (use assms(6) in \<open>simp_all add: small up ti(2)\<close>)
  have "fd_view u = fd_view s"
    using fd_view_fds [OF upper_io(1) [OF within_Ok [OF keeps_disk_read hr]]] tv by simp
  with wr rd ld bs show ?thesis by auto
qed

lemma in_range_above: "unat (a - p) < n \<Longrightarrow> unat p + n \<le> 2 ^ 64 \<Longrightarrow> unat p \<le> unat (a :: u64)"
  using unat_add_small [of "a - p" p] by simp

lemma below_scratch: "unat a < 0x802FF000 \<Longrightarrow> a \<notin> scratch ref_frame"
proof
  assume a: "unat a < 0x802FF000" and "a \<in> scratch ref_frame"
  then consider "unat (a - 0x802FF010) < 16" | "a = 0x802FF020" | "unat (a - 0x802FF100) < 512"
    by (auto simp: scratch_def ref_frame_def)
  then show False
    by cases (use a in_range_above [of a "0x802FF010" 16] in_range_above [of a "0x802FF100" 512] in auto)
qed

lemma ref_open_disk: "bus ref_open = bus ref_fs" "superblock ref_open = ref_sb"
  "blk_ready (ref_hw ref_vring) ref_view 1 ref_open \<and> frame_ok ref_frame (blk_buf ref_frame)"
proof -
  show b: "bus ref_open = bus ref_fs" "superblock ref_open = ref_sb" by (simp_all add: ref_open_def)
  show "blk_ready (ref_hw ref_vring) ref_view 1 ref_open \<and> frame_ok ref_frame (blk_buf ref_frame)"
    using ref_fs_ready b(1) blk_ready_cong [of ref_open ref_fs] by (simp add: ref_open_def)
qed

lemma ref_range_ok: "p + n \<le> 2048 \<Longrightarrow> file_range_ok ref_view ref_open ref_sb 3 p n"
proof -
  assume n: "p + n \<le> 2048"
  have fp: "file_pos (ref_inode [10, 11]) q = 10240 + q" if "q < p + n" for q using that n by (simp add: ref_file_pos)
  have g: "bg_pos (ino_group ref_sb 3) = 2048" by (simp add: bg_pos_def ino_group_def) (simp add: ref_sb_def)
  have "file_pos (ref_inode [10, 11]) ` {p..<p + n} \<subseteq> {10240..<12288}" using n by (auto simp: fp)
  moreover have "\<forall>q\<in>{p..<p + n}. disk_ok ref_view ref_fs (file_pos (ref_inode [10, 11]) q)"
    using n by (auto simp: fp ref_fs_ok)
  ultimately show ?thesis
    using n ref_inode_ok(2) ref_file_inj [OF n] inode_ok_cong [OF ref_open_disk(1)] disk_cong [OF ref_open_disk(1)]
    by (auto simp: file_range_ok_def Let_def ref_inode_at ref_ino_pos g meta_apart_def)
qed

theorem file_syscall_roundtrip_witness:
  "\<exists>t u. write_s (ref_hw ref_vring) ref_frame 0 0x9000 100 ref_open = Ok 100 t \<and>
    read_s (ref_hw ref_vring) ref_frame 0 0xA000 100 t = Ok 100 u \<and>
    load_bytes 0xA000 100 (ram u) = load_bytes 0x9000 100 (ram ref_open)"
proof -
  have "unat (0xA000 + of_nat i :: u64) < 0x802FF000" if "i < 100" for i
    using that by (subst unat_add_small) (simp_all add: unat_of_nat_small)
  then have "\<forall>i<unat (100 :: u64). 0xA000 + of_nat i \<notin> scratch ref_frame" using below_scratch by simp
  then show ?thesis
    using file_syscall_roundtrip [OF ref_open_disk(3) ref_open_simps(1), of 0 3 0 100 "0xA000" "0x9000"] ref_range_ok [of 0 100]
    by (auto simp: ref_open_disk(2))
qed

section \<open>Mounting\<close>

lemma encode_superblock_counts:
  "length (encode_superblock (sb\<lparr>s_blocks_count := a, s_inodes_count := b\<rparr>)) = length (encode_superblock sb)"
  by (simp add: encode_superblock_def)

text \<open>
  C18.  Mounting reads the superblock from position 1024 of the disk.  It succeeds and marks the disk
  as mounted whenever the superblock can be read and has a number of blocks per group, even if
  \<open>read_superblock\<close> has rejected the file system; a number of 0 is divided by.  Before that every call
  takes a block of the kernel heap that is never used, and when there is none left the machine is
  switched off.
\<close>

theorem mount_hd_s_correct:
  assumes "fs_ready hw dv fr 1 s" and "region_ok dv s 1024 1024" and "length (encode_superblock (superblock s)) \<le> 1024"
    and "sb = decode_superblock (bytes_at (disk_byte dv s) 1024 1024)"
  shows "if free_elements 500 s = [] then \<exists>t. mount_hd_s hw fr s = Fault PowerOff t
    else if s_blocks_per_group sb = 0
    then \<exists>t. mount_hd_s hw fr s = Fault DivisionByZero t \<and> superblock_mounted t = superblock_mounted s
    else \<exists>t. mount_hd_s hw fr s = Ok 0 t \<and> superblock t = sb \<and> superblock_mounted t \<and> fds t = fds s \<and>
      fs_ready hw dv fr 1 t \<and> disk_byte dv t = disk_byte dv s"
proof (cases "free_elements 500 s")
  case Nil
  then show ?thesis by (simp add: mount_hd_s_def malloc_first_fit monad_simps)
next
  case (Cons xe es)
  let ?m = "mark_used (snd xe) s"
  let ?u = "?m\<lparr>superblock := (superblock s)\<lparr>s_blocks_count := 0, s_inodes_count := 0\<rparr>\<rparr>"
  have mal: "malloc 500 s = Ok (snd xe + 1) ?m" using Cons by (cases xe) (simp add: malloc_first_fit)
  have "blk_ready hw dv 1 ?u = blk_ready hw dv 1 ?m" by (rule blk_ready_cong) simp_all
  also have "\<dots> = blk_ready hw dv 1 s" by (simp add: mark_used_def)
  finally have u: "fs_ready hw dv fr 1 ?u" using assms(1) by blast
  have d: "disk_byte dv ?u = disk_byte dv s" by (rule disk_byte_cong) (simp add: mark_used_def)
  have e: "disk_ok dv ?u = disk_ok dv s" by (rule disk_ok_cong) (simp add: mark_used_def)
  have sbm: "superblock ?m = superblock s" by (simp add: mark_used_def)
  obtain ok t where rd: "read_superblock hw fr 1 (superblock ?u) ?u = Ok (ok, sb) t"
    and t: "fs_ready hw dv fr 1 t" "disk_byte dv t = disk_byte dv s"
    using read_superblock_run [OF u, of "superblock ?u" sb] assms(2-4) d e
    by (auto simp: region_ok_def encode_superblock_counts)
  have t_io: "superblock_mounted t = superblock_mounted s" "fds t = fds s"
    using upper_io [OF within_Ok [OF fs.read_superblock_within rd]] by (simp_all add: mark_used_def)
  have driver: "Suc 0 < length (virtio_drivers ?u)" "initialized (virtio_drivers ?u ! Suc 0)"
    using u by (simp_all add: blk_ready_def)
  let ?v = "t\<lparr>superblock := sb, superblock_mounted := True\<rparr>"
  have v: "fs_ready hw dv fr 1 ?v" "disk_byte dv ?v = disk_byte dv s"
    using t blk_ready_cong [of ?v t] disk_cong [of ?v t] by simp_all
  have run: "mount_hd_s hw fr s = (if s_blocks_per_group sb = 0 then Fault DivisionByZero (t\<lparr>superblock := sb\<rparr>) else Ok 0 ?v)"
    using driver rd sbm by (simp add: mount_hd_s_def io_mount_hd_def monad_simps mal with_disk_at)
  show ?thesis using Cons run v t_io by simp
qed

text \<open>An image that has a superblock with 8192 blocks per group, and a machine that has not mounted it yet.\<close>

definition mount_image :: "u64 \<Rightarrow> bytes" where
  "mount_image = (\<lambda>_. [])(2 := replicate 32 0 @ [0, 0x20])"

definition ref_unmounted :: "ref_disk io_state" where
  "ref_unmounted = io_init (os_init (ref_state mount_image 64) 0 0) ref_sb False"

lemma ref_unmounted_simps [simp]:
  "bus ref_unmounted = bus (ref_state mount_image 64)" "virtio_drivers ref_unmounted = virtio_drivers (ref_state mount_image 64)"
  "superblock ref_unmounted = ref_sb"
  by (simp_all add: ref_unmounted_def io_init_def os_init_def io_state.defs os_state.defs virtio_state.defs)

lemma ref_unmounted_heap: "free_elements 500 ref_unmounted \<noteq> []"
  by (simp add: free_elements_def arenas_def arena_free_def ref_unmounted_def io_init_def os_init_def ref_state_def
    heap_init_def ref_bus_def io_state.defs os_state.defs virtio_state.defs heap_state.defs)

theorem mount_hd_s_correct_witness:
  "\<exists>t. mount_hd_s (ref_hw ref_vring) ref_frame ref_unmounted = Ok 0 t \<and> superblock_mounted t \<and>
     s_blocks_per_group (superblock t) = 8192"
proof -
  let ?c = "disk_byte ref_view ref_unmounted"
  have c: "?c = disk_byte ref_view (ref_state mount_image 64)" by (rule disk_cong) simp
  have "region_ok ref_view ref_unmounted = region_ok ref_view (ref_state mount_image 64)"
    by (rule region_ok_cong, rule disk_cong) simp
  then have region: "region_ok ref_view ref_unmounted 1024 1024" by (simp add: ref_region_ok)
  have ready: "blk_ready (ref_hw ref_vring) ref_view 1 ref_unmounted \<and> frame_ok ref_frame (blk_buf ref_frame)"
    using ref_state_ready ref_frame_ok blk_ready_cong [of ref_unmounted "ref_state mount_image 64"] by simp
  have len: "length (encode_superblock (superblock ref_unmounted)) \<le> 1024"
    by (simp add: encode_superblock_def ref_sb_def decode_superblock_def)
  have "bytes_at ?c 1056 4 = [0, 0x20, 0, 0]"
    unfolding c using ref_bytes [of 1056 2 4 mount_image] by (simp add: mount_image_def slice_def) (simp add: numeral_2_eq_2)
  then have sb: "s_blocks_per_group (decode_superblock (bytes_at ?c 1024 1024)) = 8192"
    by (simp add: decode_superblock_def slice_bytes_at)
  show ?thesis using mount_hd_s_correct [OF ready region len refl] sb ref_unmounted_heap by auto
qed

end
