(* ===== verification/Selftest.thy ===== *)
theory Selftest
  imports Filesystem
begin

text \<open>
  The self test of the file system (\<open>debug_dirent\<close> and \<open>test_ext2_implementation\<close> of src/ext2.c), which
  system call 211 runs in a build with tests.  \<open>trace\<close> says whether the build has trace output
  (\<open>DEBUG_LEVEL > DEBUG_TRACE\<close>); \<open>buf\<close> is the address of the 1024-byte array on the stack.
\<close>

section \<open>The code\<close>

text \<open>
  The loop of \<open>debug_dirent\<close> over the entries of a block: the names, in the order in which they are copied
  to \<open>filename\<close>, and whether the loop ended with an access behind the buffer.
\<close>

partial_function (option) dirent_names :: "bytes \<Rightarrow> nat \<Rightarrow> (bytes list \<times> bool) option" where
  "dirent_names buffer dirent_idx =
     (if dirent_idx < 1024 then
        if dirent_idx + 8 > 1024 then Some ([], True)
        else
          let buffer = copy_down dirent_idx 8 buffer; rec_len = unat (de_rec_len (decode_dirent buffer)) in
          if dirent_idx + rec_len > 1024 then Some ([], True)
          else
            let buffer = copy_down dirent_idx rec_len buffer; de = decode_dirent buffer in
            Option.bind (dirent_names buffer (dirent_idx + unat (de_rec_len de)))
              (\<lambda>(names, overrun). Some (slice 8 (unat (de_name_len de)) buffer # names, overrun))
      else Some ([], False))"

text \<open>
  The name is printed up to its first zero.  The array has room for 255 characters, so that
  a name of 255 characters is not terminated.
\<close>

fun print_names :: "bytes list \<Rightarrow> (('d, 'z) virtio_state_scheme, unit) kernel_op" where
  "print_names [] = mreturn ()"
| "print_names (name # names) =
     (if 255 \<le> length (takeWhile (\<lambda>c. c \<noteq> 0) name) then mfault OutOfBounds
      else mthen (mmodify (\<lambda>s. s\<lparr>console := console s @ map ucast (takeWhile (\<lambda>c. c \<noteq> 0) name)\<rparr>))
        (mthen (eprint (of_char (CHR 0x0A))) (print_names names)))"

primrec debug_dirent_blocks ::
    "'d hw \<Rightarrow> frame \<Rightarrow> bool \<Rightarrow> nat \<Rightarrow> u32 list \<Rightarrow> (('d, 'z) virtio_state_scheme, unit) kernel_op" where
  "debug_dirent_blocks hw fr trace driver [] = mreturn ()"
| "debug_dirent_blocks hw fr trace driver (b # bs) =
     (if b = 0 then mreturn ()
      else mbind (virtio_blk_read_sync hw fr driver (block_pos b) 1024) (\<lambda>block.
        case dirent_names (fill (uninit fr 1024) block) 0 of
          None \<Rightarrow> mfault Diverges
        | Some (names, overrun) \<Rightarrow>
            mthen (if trace then print_names names else mreturn ())
             (if overrun then mfault OutOfBounds else debug_dirent_blocks hw fr trace driver bs)))"

definition debug_dirent ::
    "'d hw \<Rightarrow> frame \<Rightarrow> bool \<Rightarrow> nat \<Rightarrow> ext2_superblock \<Rightarrow> ext2_inode \<Rightarrow> (('d, 'z) virtio_state_scheme, unit) kernel_op" where
  "debug_dirent hw fr trace driver superblock inode =
     debug_dirent_blocks hw fr trace driver (take EXT2_MAX_DIRECT_BLOCKS_PER_INODE (i_block inode))"

text \<open>The messages of the checks; those without a counterpart print nothing when they fail.\<close>

definition report :: "bool \<Rightarrow> string \<Rightarrow> string \<Rightarrow> (('d, 'z) virtio_state_scheme, unit) kernel_op" where
  "report c yes no = (if c then eprint_str (yes @ [CHR 0x0A]) else if no = [] then mreturn () else eprint_str (no @ [CHR 0x0A]))"

text \<open>The part that is there twice: the first sector of a file must start with a given text.\<close>

definition check_file ::
    "'d hw \<Rightarrow> frame \<Rightarrow> u64 \<Rightarrow> nat \<Rightarrow> ext2_superblock \<Rightarrow> u64 \<Rightarrow> string \<Rightarrow> string \<Rightarrow> string \<Rightarrow> string \<Rightarrow> ext2_inode \<Rightarrow>
     (('d, 'z) virtio_state_scheme, ext2_inode) kernel_op" where
  "check_file hw fr buf driver superblock block_size path label expected failure ino =
     mbind (inode_from_path hw fr driver superblock (map of_char path) ino) (\<lambda>(r, ino).
     mbind (virtio_blk_read_sector_sync hw fr driver
         (virtio_blk_sector_from_pos (ucast (i_block ino ! 0) * block_size)) buf) (\<lambda>result.
     mbind (mgets (\<lambda>s. load_bytes buf 512 (ram s))) (\<lambda>buffer.
     mthen (eprint_buffer label buffer)
      (if strncmp_equal (length expected) (map of_char expected) buffer
       then mthen (eprint_str (''Success!'' @ [CHR 0x0A])) (mreturn ino)
       else mthen (eprint_str failure) epoweroff))))"

text \<open>The checks of the group descriptor in the buffer.\<close>

definition report_blockgroup :: "ext2_blockgroup \<Rightarrow> (('d, 'z) virtio_state_scheme, unit) kernel_op" where
  "report_blockgroup bg =
     mthen (report (bg_block_bitmap bg = 6) ''Read the proper block bitmap id!'' ''Failure to read the proper block bitmap id.'')
     (mthen (report (bg_inode_bitmap bg = 7) ''Read the proper inode bitmap id!'' ''Failure to read the proper inode bitmap id.'')
     (mthen (report (bg_inode_table bg = 8) ''Read the proper inode table id!'' ''Failure to read the proper inode table id.'')
     (mthen (eprint_str ''Free blocks? '') (mthen (eprint_num (ucast (bg_free_blocks_count bg))) (mthen (eprint 10)
     (mthen (eprint_str ''Free inodes? '') (mthen (eprint_num (ucast (bg_free_inodes_count bg))) (eprint 10))))))))"

text \<open>The part that looks at the root directory and at files.\<close>

definition test_files ::
    "'d hw \<Rightarrow> frame \<Rightarrow> bool \<Rightarrow> u64 \<Rightarrow> nat \<Rightarrow> ext2_superblock \<Rightarrow> u64 \<Rightarrow> (('d, 'z) virtio_state_scheme, bool) kernel_op" where
  "test_files hw fr trace buf driver superblock block_size =
     mbind (inode_from_ino hw fr driver superblock (decode_inode (uninit fr 256)) 2) (\<lambda>(r, ino).
     mthen (debug_dirent hw fr trace driver superblock ino)
     (mbind (check_file hw fr buf driver superblock block_size ''/blank'' ''Contents of block 0 of blank file'' ''testing''
         ''Failure to read proper contents of /blank (as 'testing')'' ino) (\<lambda>ino.
     mbind (check_file hw fr buf driver superblock block_size ''/eve'' ''Contents of block 0 of eve file'' ''adam''
         ''Failure to read proper contents of /eve (as 'adam')'' ino) (\<lambda>ino.
     mbind (inode_from_path hw fr driver superblock (map of_char ''/this/is/a/test'') (decode_inode (uninit fr 256))) (\<lambda>(r, path_inode).
     mthen (if \<not> r then mthen (eprint_str (''Could not get the inode for the /this/is/a/test path.'' @ [CHR 0x0A])) epoweroff
            else eprint_str (''Successfully got the inode for the /this/is/a/test path.'' @ [CHR 0x0A]))
       (mreturn True))))))"

text \<open>
  The result of the read of the group descriptors is kept in eight bits, and the error path returns
  a value that is true as well.
\<close>

definition test_ext2_implementation ::
    "'d hw \<Rightarrow> frame \<Rightarrow> bool \<Rightarrow> u64 \<Rightarrow> (('d, 'z) virtio_state_scheme, bool) kernel_op" where
  "test_ext2_implementation hw fr trace buf =
     (case find_virtio_driver 1 of
        None \<Rightarrow> mfault NullPointer
      | Some driver \<Rightarrow>
     mbind (read_superblock hw fr driver (decode_superblock (uninit fr 1024))) (\<lambda>(ok, superblock).
     mthen (report (s_blocks_count superblock = 10000) ''Read the proper number of blocks!''
         ''Error: Did not read the proper number of blocks!'')
     (mthen (report (s_inodes_count superblock = 2496) ''Read the proper number of inodes!''
         ''Error: Did not read the proper number of inodes!'')
     (mthen (report (s_first_inode superblock = 11) ''Read the proper first inode!'' [])
     (mthen (store buf (replicate 1024 0))
     (let actual_block_size = actual_block_size (s_log_block_size superblock) in
      if s_blocks_per_group superblock = 0 then mfault DivisionByZero
      else
     mbind (virtio_blk_read_sync hw fr driver EXT2_FIRST_OFFSET_AFTER_SUPERBLOCK actual_block_size) (\<lambda>bs.
      if length bs > 1024 then mfault OutOfBounds
      else
     mthen (store buf bs)
     (let result = of_nat (length bs) :: u8 in
      if result \<noteq> 0 then mreturn True
      else
     mbind (mgets (\<lambda>s. decode_blockgroup (load_bytes buf 32 (ram s)))) (\<lambda>bg.
     mthen (report_blockgroup bg)
       (test_files hw fr trace buf driver superblock actual_block_size))))))))))"

text \<open>The system call in a build with tests.\<close>

definition internal_unit_test_tests :: "'d hw \<Rightarrow> frame \<Rightarrow> bool \<Rightarrow> u64 \<Rightarrow> (('d, 'z) virtio_state_scheme, u64) kernel_op" where
  "internal_unit_test_tests hw fr trace buf =
     mthen (eprint_str (''Running internal unit tests ...'' @ [CHR 0x0A]))
     (mbind (test_ext2_implementation hw fr trace buf) (\<lambda>r. mreturn 0))"

section \<open>The names of a directory\<close>

lemma dirent_names_correct:
  assumes "dir_entries block idx = Some es" and "idx = 0 \<or> 8 \<le> idx" and "drop idx buffer = drop idx block"
    and "length buffer = 1024" and "length block = 1024"
  shows "dirent_names buffer idx = Some (map snd es, False)"
  using assms
proof (induction block idx arbitrary: es buffer rule: dir_entries.induct)
  case (1 block idx)
  show ?case
  proof (cases "idx < 1024")
    case False
    with "1.prems"(1) show ?thesis
      by (simp add: dir_entries.simps [of block idx] dirent_names.simps [of buffer idx])
  next
    case True
    define de where "de = decode_dirent (drop idx block)"
    define n where "n = unat (de_rec_len de)"
    define k where "k = unat (de_name_len de)"
    note defs = de_def [symmetric] n_def [symmetric] k_def [symmetric]
    from "1.prems"(1) True obtain es' where ok: "8 + k \<le> n" "idx + n \<le> 1024"
      and rest: "dir_entries block (idx + n) = Some es'" and es: "es = (de_inode de, slice (idx + 8) k block) # es'"
      by (auto simp: dir_entries.simps [of block idx] Let_def defs split: if_splits)
    let ?buf = "copy_down idx n (copy_down idx 8 buffer)"
    have "8 \<le> n" using ok by simp
    note c = copy_down_entry [OF "1.prems"(2-5) this ok(2), unfolded defs]
    have "slice 8 k ?buf = take k (take (n - 8) (drop 8 ?buf))" using ok by (simp add: slice_def)
    also have "\<dots> = slice (idx + 8) k block" unfolding c(3) using ok by (simp add: slice_def)
    finally have name: "slice 8 k ?buf = slice (idx + 8) k block" .
    have "dirent_names ?buf (idx + n) = Some (map snd es', False)"
      using "1.IH" [OF True de_def n_def k_def _ rest, of ?buf] ok c(4,5) "1.prems"(5) by simp
    with True ok name show ?thesis
      by (simp add: dirent_names.simps [of buffer idx] Let_def c(1,2) defs es)
  qed
qed

text \<open>What the operations of this theory keep: the disk, and that it can be used.\<close>

definition kept :: "'d hw \<Rightarrow> 'd disk_view \<Rightarrow> frame \<Rightarrow> nat \<Rightarrow> ('d, 'z) virtio_state_scheme \<Rightarrow> ('d, 'z) virtio_state_scheme \<Rightarrow> bool" where
  "kept hw dv fr d s t \<longleftrightarrow> fs_ready hw dv fr d t \<and> disk_byte dv t = disk_byte dv s \<and> disk_ok dv t = disk_ok dv s"

lemma kept_trans: "kept hw dv fr d s t \<Longrightarrow> kept hw dv fr d t u \<Longrightarrow> kept hw dv fr d s u"
  by (simp add: kept_def)

lemma kept_same: "fs_ready hw dv fr d t \<Longrightarrow> same_disk dv s t \<Longrightarrow> kept hw dv fr d s t"
  by (simp add: kept_def same_disk_def)

lemma kept_console [simp]: "kept hw dv fr d s (t\<lparr>console := x\<rparr>) = kept hw dv fr d s t"
  by (simp add: kept_def disk_byte_def disk_ok_def fun_eq_iff)

lemma kept_mem [simp]: "kept hw dv fr d s (t\<lparr>bus := (bus t)\<lparr>mem := m\<rparr>\<rparr>) = kept hw dv fr d s t"
  by (simp add: kept_def disk_byte_def disk_ok_def fun_eq_iff)

lemma region_kept: "kept hw dv fr d s t \<Longrightarrow> region_ok dv t = region_ok dv s"
  by (rule region_ok_cong) (simp add: kept_def)

definition name_lines :: "(u32 \<times> bytes) list \<Rightarrow> u64 list" where
  "name_lines es = concat (map (\<lambda>(n, name). map ucast (takeWhile (\<lambda>c. c \<noteq> 0) name) @ [10]) es)"

lemma print_names_run:
  assumes "list_all (\<lambda>(n, name). length name < 255) es"
  shows "print_names (map snd es) s = Ok () (s\<lparr>console := console s @ name_lines es\<rparr>)"
  using assms
proof (induction es arbitrary: s)
  case (Cons e es)
  have "length (takeWhile (\<lambda>c. c \<noteq> 0) (snd e)) < 255"
    using Cons.prems length_takeWhile_le [of "\<lambda>c. c \<noteq> 0" "snd e"] by (simp add: case_prod_beta)
  with Cons show ?case by (simp add: monad_simps name_lines_def case_prod_beta not_le)
qed (simp add: monad_simps name_lines_def)

lemma debug_dirent_blocks_run:
  assumes "fs_ready hw dv fr d s" and "length (uninit fr 1024) = 1024"
    and "blocks_ok dv s (takeWhile (\<lambda>b. b \<noteq> 0) bs)"
    and "dir_list (disk_byte dv s) (takeWhile (\<lambda>b. b \<noteq> 0) bs) = Some es"
    and "trace \<Longrightarrow> list_all (\<lambda>(n, name). length name < 255) es"
  shows "\<exists>t. debug_dirent_blocks hw fr trace d bs s = Ok () t \<and> kept hw dv fr d s t \<and>
    console t = console s @ (if trace then name_lines es else [])"
  using assms(1,3-5)
proof (induction bs arbitrary: s es)
  case Nil
  then show ?case by (simp add: monad_simps kept_def name_lines_def)
next
  case (Cons b bs)
  show ?case
  proof (cases "b = 0")
    case True
    with Cons.prems show ?thesis by (simp add: monad_simps kept_def name_lines_def)
  next
    case False
    let ?block = "bytes_at (disk_byte dv s) (unat (block_pos b)) 1024"
    from Cons.prems(3) False obtain es1 es2 where e1: "dir_entries ?block 0 = Some es1"
      and e2: "dir_list (disk_byte dv s) (takeWhile (\<lambda>b. b \<noteq> 0) bs) = Some es2" and es: "es = es1 @ es2"
      by (auto split: option.splits)
    have "region_ok dv s (unat (block_pos b)) (unat (1024 :: u64))" "unat (block_pos b) + unat (1024 :: u64) \<le> 2 ^ 64"
      using Cons.prems(2) False block_pos_less [of b] by (simp_all add: blocks_ok_def)
    then obtain t where rd: "virtio_blk_read_sync hw fr d (block_pos b) 1024 s = Ok (bytes_at (disk_byte dv s) (unat (block_pos b)) (unat (1024 :: u64))) t"
      and t: "fs_ready hw dv fr d t" "same_disk dv s t"
      by (rule read_region [OF Cons.prems(1)])
    have con: "console t = console s" using t(2) by (auto simp: same_disk_def io_only_def)
    have names: "dirent_names ?block 0 = Some (map snd es1, False)" by (rule dirent_names_correct [OF e1]) simp_all
    define u where "u = t\<lparr>console := console t @ (if trace then name_lines es1 else [])\<rparr>"
    have k: "kept hw dv fr d s u" using kept_same [OF t] by (simp add: u_def)
    have step: "debug_dirent_blocks hw fr trace d (b # bs) s = debug_dirent_blocks hw fr trace d bs u"
      using False rd names assms(2) Cons.prems(4) print_names_run [of es1 t]
      by (simp add: monad_simps u_def es)
    have "\<exists>v. debug_dirent_blocks hw fr trace d bs u = Ok () v \<and> kept hw dv fr d u v \<and>
        console v = console u @ (if trace then name_lines es2 else [])"
    proof (rule Cons.IH)
      show "fs_ready hw dv fr d u" using k by (simp add: kept_def)
      show "blocks_ok dv u (takeWhile (\<lambda>b. b \<noteq> 0) bs)" using Cons.prems(2) False region_kept [OF k] by (simp add: blocks_ok_def)
      show "dir_list (disk_byte dv u) (takeWhile (\<lambda>b. b \<noteq> 0) bs) = Some es2" using e2 k by (simp add: kept_def)
    qed (use Cons.prems(4) es in simp)
    then show ?thesis using kept_trans [OF k] con unfolding step by (auto simp: u_def es name_lines_def)
  qed
qed



section \<open>The verdict of the self test\<close>

lemma inode_from_path_run:
  assumes ready: "fs_ready hw dv fr d s" and "length (uninit fr 1024) = 1024" and "inode_ok dv s sb 2" and "length (encode_inode old) \<le> 256"
    and "resolve dv s sb (components path) (inode_at (disk_byte dv s) sb 2) None = Some (r, inode, x)"
  shows "\<exists>t. inode_from_path hw fr d sb path old s = Ok (r, inode) t \<and> kept hw dv fr d s t"
proof -
  obtain t where t: "inode_from_ino hw fr d sb old 2 s = Ok (True, inode_at (disk_byte dv s) sb 2) t"
    "fs_ready hw dv fr d t" "same_disk dv s t"
    by (rule inode_from_ino_ok [OF ready assms(3,4)])
  have "resolve dv t sb (components path) (inode_at (disk_byte dv s) sb 2) None = Some (r, inode, x)"
    using assms(5) by (simp add: resolve_same [OF t(3)])
  from path_walk_correct [OF t(2) assms(2) length_encode_inode_at this] obtain u where
    u: "path_walk hw fr d sb path (inode_at (disk_byte dv s) sb 2) None t = Ok (r, inode, x) u" "fs_ready hw dv fr d u" "same_disk dv t u" by blast
  show ?thesis
    using t(1) u(1) kept_trans [OF kept_same [OF t(2,3)] kept_same [OF u(2,3)]] by (simp add: inode_from_path_def monad_simps)
qed

lemma resolve_inode: "resolve dv s sb xs inode ino = Some (r, i, x) \<Longrightarrow> i = inode \<or> (\<exists>n. i = inode_at (disk_byte dv s) sb n)"
  by (induction xs arbitrary: inode ino) (fastforce split: if_splits option.splits)+

text \<open>What a check of a file looks at, and when it passes.\<close>

definition first_sector :: "(nat \<Rightarrow> u8) \<Rightarrow> ext2_inode \<Rightarrow> bytes" where
  "first_sector c inode = bytes_at c (1024 * unat (i_block inode ! 0)) 512"

definition starts_with :: "string \<Rightarrow> bytes \<Rightarrow> bool" where
  "starts_with cs bs \<longleftrightarrow> take (length cs) bs = map of_char cs"

lemma first_sector_read:
  assumes "fs_ready hw dv fr d s" and "frame_ok fr buf" and "region_ok dv s (1024 * unat b) 512"
  shows "\<exists>t. virtio_blk_read_sector_sync hw fr d (virtio_blk_sector_from_pos (ucast (b :: u32) * 1024)) buf s = Ok 0 t \<and>
    load_bytes buf 512 (ram t) = bytes_at (disk_byte dv s) (1024 * unat b) 512 \<and> kept hw dv fr d s t"
proof -
  let ?p = "1024 * unat b"
  have b: "unat b < 2 ^ 32" by (rule unat_u32_less)
  have "unat (ucast b * 1024 :: u64) = unat (ucast b :: u64) * unat (1024 :: u64)"
    using b by (intro unat_mult_lem [THEN iffD1]) (simp add: unat_ucast_up)
  then have p: "unat (ucast b * 1024 :: u64) = ?p" by (simp add: unat_ucast_up)
  have "unat (of_nat (?p div 512) :: u64) = ?p div 512" by (rule unat_of_nat_small) (use b in simp)
  then have sec: "virtio_blk_sector_from_pos (ucast b * 1024) = of_nat (?p div 512)"
    by (intro word_eq_unatI) (simp only: p virtio_blk_sector_from_pos_def VIRTIO_BLK_SIZE_def unat_div_distrib, simp)
  have "disk_ok dv s (?p + 0)" using assms(3) unfolding region_ok_def by (rule allE [of _ 0]) simp
  then have good: "good dv s (of_nat (?p div 512))" by (simp add: disk_ok_def)
  obtain t where t: "virtio_blk_read_sector_sync hw fr d (of_nat (?p div 512)) buf s = Ok 0 t" "blk_ready hw dv d t" "disk dv t = disk dv s"
    "good dv t = good dv s" "load_bytes buf 512 (ram t) = disk dv s (of_nat (?p div 512))"
    using read_sector_good [OF conjunct1 [OF assms(1)] assms(2) good] by metis
  have len: "length (disk dv s (of_nat (?p div 512))) = 512" by (rule disk_length [OF conjunct1 [OF assms(1)]])
  have "?p = 512 * (2 * unat b)" by simp
  then have "?p mod 512 = 0" by (simp only: mod_mult_self1_is_0)
  then have "bytes_at (disk_byte dv s) ?p 512 = disk dv s (of_nat (?p div 512))"
    using sector_slice [OF len, of 512] b len by (simp add: slice_def)
  moreover have "kept hw dv fr d s t" using t(2) assms(1) disk_byte_cong [OF t(3)] disk_ok_cong [OF t(4)] by (simp add: kept_def)
  ultimately show ?thesis using t(1,5) sec by auto
qed

lemma check_file_run:
  assumes ready: "fs_ready hw dv fr d s" and buf: "frame_ok fr buf" and "length (uninit fr 1024) = 1024" and "inode_ok dv s sb 2"
    and "length (encode_inode old) \<le> 256"
    and "resolve dv s sb (components (map of_char path)) (inode_at (disk_byte dv s) sb 2) None = Some (r, inode, x)"
    and "region_ok dv s (1024 * unat (i_block inode ! 0)) 512" and "(0 :: u8) \<notin> set (map of_char expected)"
  shows "if starts_with expected (first_sector (disk_byte dv s) inode)
    then \<exists>t. check_file hw fr buf d sb 1024 path label expected failure old s = Ok inode t \<and> kept hw dv fr d s t
    else \<exists>t. check_file hw fr buf d sb 1024 path label expected failure old s = Fault PowerOff t"
proof -
  obtain t where t: "inode_from_path hw fr d sb (map of_char path) old s = Ok (r, inode) t" "kept hw dv fr d s t"
    using inode_from_path_run [OF ready assms(3-6)] by blast
  then have t': "fs_ready hw dv fr d t" "disk_byte dv t = disk_byte dv s" "region_ok dv t (1024 * unat (i_block inode ! 0)) 512"
    using assms(7) region_kept [OF t(2)] by (simp_all add: kept_def)
  obtain u where u: "virtio_blk_read_sector_sync hw fr d (virtio_blk_sector_from_pos (ucast (i_block inode ! 0) * 1024)) buf t = Ok 0 u"
    "load_bytes buf 512 (ram u) = first_sector (disk_byte dv s) inode" "kept hw dv fr d t u"
    using first_sector_read [OF t'(1) buf t'(3)] by (auto simp: t'(2) first_sector_def)
  have "strncmp_equal (length expected) (map of_char expected) (first_sector (disk_byte dv s) inode) =
      starts_with expected (first_sector (disk_byte dv s) inode)"
    using strncmp_equal_prefix [OF assms(8)] by (simp add: starts_with_def)
  then show ?thesis
    using t(1) u(1,2) kept_trans [OF t(2) u(3)]
    by (simp add: check_file_def monad_simps eprint_buffer_def)
qed

definition report_text :: "bool \<Rightarrow> string \<Rightarrow> string \<Rightarrow> u64 list" where
  "report_text c yes no = (if c then map of_char (yes @ [CHR 0x0A]) else if no = [] then [] else map of_char (no @ [CHR 0x0A]))"

lemma report_eq [monad_simps]: "report c yes no s = Ok () (s\<lparr>console := console s @ report_text c yes no\<rparr>)"
  by (simp add: report_def report_text_def monad_simps)

lemma report_blockgroup_kept:
  "kept hw dv fr d s t \<Longrightarrow> \<exists>u. report_blockgroup bg t = Ok () u \<and> kept hw dv fr d s u"
  by (simp add: report_blockgroup_def monad_simps)

text \<open>The first part, up to the root directory.\<close>

lemma self_test_start:
  assumes ready: "fs_ready hw dv fr 1 s" and "region_ok dv s 1024 2048" and "length (uninit fr 1024) = 1024"
    and sb: "sb = decode_superblock (bytes_at (disk_byte dv s) 1024 1024)"
    and "s_log_block_size sb mod 32 = 0" and "s_blocks_per_group sb \<noteq> 0"
  shows "\<exists>t. kept hw dv fr 1 s t \<and> test_ext2_implementation hw fr trace buf s = test_files hw fr trace buf 1 sb 1024 t"
proof -
  have "disk_ok dv s (2048 + i)" if "i < 1024" for i
    using assms(2) [unfolded region_ok_def, rule_format, of "1024 + i"] that by (simp add: add.assoc)
  then have reg: "region_ok dv s 1024 1024" "region_ok dv s 2048 1024" using assms(2) by (simp_all add: region_ok_def)
  have "length (encode_superblock (decode_superblock (uninit fr 1024))) \<le> 1024" using encode_decode_superblock [OF assms(3)] assms(3) by simp
  from read_superblock_run [OF ready reg(1) this sb] obtain ok t1
    where t1: "read_superblock hw fr 1 (decode_superblock (uninit fr 1024)) s = Ok (ok, sb) t1" "kept hw dv fr 1 s t1"
    by (auto simp: kept_def)
  define msgs where "msgs = report_text (s_blocks_count sb = 10000) ''Read the proper number of blocks!''
      ''Error: Did not read the proper number of blocks!'' @ report_text (s_inodes_count sb = 2496) ''Read the proper number of inodes!''
      ''Error: Did not read the proper number of inodes!'' @ report_text (s_first_inode sb = 11) ''Read the proper first inode!'' []"
  define t2 where "t2 = t1\<lparr>console := console t1 @ msgs, bus := (bus t1)\<lparr>mem := store_bytes buf (replicate 1024 0) (ram t1)\<rparr>\<rparr>"
  have k2: "kept hw dv fr 1 s t2"
    using t1(2) kept_mem [where t = "t1\<lparr>console := console t1 @ msgs\<rparr>"] by (simp add: t2_def)
  then have "fs_ready hw dv fr 1 t2" by (simp add: kept_def)
  moreover have "region_ok dv t2 (unat (2048 :: u64)) (unat (1024 :: u64))" using region_kept [OF k2] reg(2) by simp
  ultimately obtain t3 where t3: "virtio_blk_read_sync hw fr 1 2048 1024 t2 = Ok (bytes_at (disk_byte dv t2) (unat (2048 :: u64)) (unat (1024 :: u64))) t3"
    "fs_ready hw dv fr 1 t3" "same_disk dv t2 t3"
    by (rule read_region) simp
  define t4 where "t4 = t3\<lparr>bus := (bus t3)\<lparr>mem := store_bytes buf (bytes_at (disk_byte dv t2) 2048 1024) (ram t3)\<rparr>\<rparr>"
  have k4: "kept hw dv fr 1 s t4" using kept_trans [OF k2 kept_same [OF t3(2,3)]] by (simp add: t4_def)
  obtain t5 where t5: "report_blockgroup (decode_blockgroup (load_bytes buf 32 (ram t4))) t4 = Ok () t5" "kept hw dv fr 1 s t5"
    using report_blockgroup_kept [OF k4] by blast
  have bs: "actual_block_size (s_log_block_size sb) = 1024" using assms(5) by (simp add: actual_block_size_1024)
  have "test_ext2_implementation hw fr trace buf s = test_files hw fr trace buf 1 sb 1024 t5"
    using t1(1) t3(1) t5(1) assms(6)
    by (simp add: test_ext2_implementation_def find_virtio_driver_def EXT2_FIRST_OFFSET_AFTER_SUPERBLOCK_def monad_simps Let_def bs
      t4_def t2_def msgs_def)
  then show ?thesis using t5(2) by blast
qed

lemma resolve_kept: "kept hw dv fr d s t \<Longrightarrow> resolve dv t sb xs inode ino = resolve dv s sb xs inode ino"
proof (induction xs arbitrary: inode ino)
  case (Cons x xs)
  have "disk_byte dv t = disk_byte dv s" "region_ok dv t = region_ok dv s"
    using Cons.prems region_kept [OF Cons.prems] by (simp_all add: kept_def)
  with Cons show ?case by (simp add: blocks_ok_def inode_ok_def split: option.split)
qed simp

lemma inode_ok_kept:
  assumes "kept hw dv fr d s t"
  shows "inode_ok dv t sb n = inode_ok dv s sb n"
  using assms region_kept [OF assms] by (simp add: inode_ok_def kept_def)

text \<open>The disk as the self test wants it, and as far as it can be read.\<close>

definition test_disk ::
    "'d disk_view \<Rightarrow> ('d, 'z) virtio_state_scheme \<Rightarrow> ext2_superblock \<Rightarrow> ext2_inode \<Rightarrow> ext2_inode \<Rightarrow> bool \<Rightarrow> bool" where
  "test_disk dv s sb blank eve found \<longleftrightarrow>
     (let root = inode_at (disk_byte dv s) sb 2;
          walk = (\<lambda>path. resolve dv s sb (components (map of_char path)) root None) in
      inode_ok dv s sb 2 \<and> blocks_ok dv s (dir_blocks root) \<and>
      (\<exists>es. dir_list (disk_byte dv s) (dir_blocks root) = Some es \<and> list_all (\<lambda>(n, name). length name < 255) es) \<and>
      (\<exists>r x. walk ''/blank'' = Some (r, blank, x)) \<and> (\<exists>r x. walk ''/eve'' = Some (r, eve, x)) \<and>
      (\<exists>i x. walk ''/this/is/a/test'' = Some (found, i, x)) \<and>
      region_ok dv s (1024 * unat (i_block blank ! 0)) 512 \<and> region_ok dv s (1024 * unat (i_block eve ! 0)) 512)"

lemma test_files_run:
  fixes s :: "('d, 'z) virtio_state_scheme"
  assumes ready: "fs_ready hw dv fr 1 s" and buf: "frame_ok fr buf" and un: "length (uninit fr 1024) = 1024"
    and disk: "test_disk dv s sb blank eve found"
  shows "if starts_with ''testing'' (first_sector (disk_byte dv s) blank) \<and> starts_with ''adam'' (first_sector (disk_byte dv s) eve) \<and> found
    then \<exists>t. test_files hw fr trace buf 1 sb 1024 s = Ok True t \<and> kept hw dv fr 1 s t
    else \<exists>t. test_files hw fr trace buf 1 sb 1024 s = Fault PowerOff t"
proof -
  let ?root = "inode_at (disk_byte dv s) sb 2" and ?walk = "\<lambda>path. resolve dv s sb (components (map of_char path)) (inode_at (disk_byte dv s) sb 2) None"
  obtain es r1 x1 r2 x2 i3 x3 where root: "inode_ok dv s sb 2" "blocks_ok dv s (dir_blocks ?root)"
    "dir_list (disk_byte dv s) (dir_blocks ?root) = Some es" "list_all (\<lambda>(n, name). length name < 255) es"
    and blank: "?walk ''/blank'' = Some (r1, blank, x1)" "region_ok dv s (1024 * unat (i_block blank ! 0)) 512"
    and eve: "?walk ''/eve'' = Some (r2, eve, x2)" "region_ok dv s (1024 * unat (i_block eve ! 0)) 512"
    and tst: "?walk ''/this/is/a/test'' = Some (found, i3, x3)"
    using disk unfolding test_disk_def Let_def by blast
  have "length (encode_inode (decode_inode (uninit fr 256))) \<le> 256" by (rule length_encode_inode_decode)
  then obtain a where a: "inode_from_ino hw fr 1 sb (decode_inode (uninit fr 256)) 2 s = Ok (True, ?root) a" "fs_ready hw dv fr 1 a" "same_disk dv s a"
    by (rule inode_from_ino_ok [OF ready root(1)])
  note ka = kept_same [OF a(2,3)]
  have da: "disk_byte dv a = disk_byte dv s" using ka by (simp add: kept_def)
  have "\<exists>b. debug_dirent hw fr trace 1 sb ?root a = Ok () b \<and> kept hw dv fr 1 a b"
    using debug_dirent_blocks_run [where bs = "take 13 (i_block ?root)" and trace = trace and es = es, OF a(2) un] root(2-4) da region_kept [OF ka]
    by (auto simp: dir_blocks_def blocks_ok_def debug_dirent_def EXT2_MAX_DIRECT_BLOCKS_PER_INODE_def)
  then obtain b where b: "debug_dirent hw fr trace 1 sb ?root a = Ok () b" "kept hw dv fr 1 s b" using kept_trans [OF ka] by blast
  let ?ok = "\<lambda>t. kept hw dv fr 1 s t"
  have at: "fs_ready hw dv fr 1 t" "disk_byte dv t = disk_byte dv s" "inode_ok dv t sb 2" "\<And>xs i x. resolve dv t sb xs i x = resolve dv s sb xs i x"
    "region_ok dv t = region_ok dv s" if "?ok t" for t
    using that root(1) inode_ok_kept [OF that] resolve_kept [OF that] region_kept [OF that] by (simp_all add: kept_def)
  have chars: "(0 :: u8) \<notin> set (map of_char ''testing'')" "(0 :: u8) \<notin> set (map of_char ''adam'')" by simp_all
  define c1 :: "(('d, 'z) virtio_state_scheme, ext2_inode) kernel_op" where "c1 = check_file hw fr buf 1 sb 1024 ''/blank'' ''Contents of block 0 of blank file'' ''testing''
         ''Failure to read proper contents of /blank (as 'testing')'' ?root"
  define c2 :: "ext2_inode \<Rightarrow> (('d, 'z) virtio_state_scheme, ext2_inode) kernel_op" where "c2 = check_file hw fr buf 1 sb 1024 ''/eve'' ''Contents of block 0 of eve file'' ''adam''
         ''Failure to read proper contents of /eve (as 'adam')''"
  have r1: "if starts_with ''testing'' (first_sector (disk_byte dv s) blank) then \<exists>t. c1 b = Ok blank t \<and> kept hw dv fr 1 b t else \<exists>t. c1 b = Fault PowerOff t"
  proof -
    have "resolve dv b sb (components (map of_char ''/blank'')) (inode_at (disk_byte dv b) sb 2) None = Some (r1, blank, x1)"
      "region_ok dv b (1024 * unat (i_block blank ! 0)) 512"
      using blank by (simp_all only: at(2,4,5) [OF b(2)])
    from check_file_run [OF at(1) [OF b(2)] buf un at(3) [OF b(2)] length_encode_inode_at this chars(1)]
    show ?thesis unfolding c1_def at(2) [OF b(2)] .
  qed
  have r2: "if starts_with ''adam'' (first_sector (disk_byte dv s) eve) then \<exists>u. c2 blank t = Ok eve u \<and> kept hw dv fr 1 t u else \<exists>u. c2 blank t = Fault PowerOff u"
    if t: "?ok t" for t
  proof -
    have "length (encode_inode blank) \<le> 256" using resolve_inode [OF blank(1)] length_encode_inode_at by metis
    moreover have "resolve dv t sb (components (map of_char ''/eve'')) (inode_at (disk_byte dv t) sb 2) None = Some (r2, eve, x2)"
      "region_ok dv t (1024 * unat (i_block eve ! 0)) 512"
      using eve by (simp_all only: at(2,4,5) [OF t])
    ultimately show ?thesis
      unfolding c2_def using check_file_run [OF at(1) [OF t] buf un at(3) [OF t] _ _ _ chars(2)] unfolding at(2) [OF t] by blast
  qed
  have r3: "\<exists>u. inode_from_path hw fr 1 sb (map of_char ''/this/is/a/test'') (decode_inode (uninit fr 256)) t = Ok (found, i3) u \<and> kept hw dv fr 1 t u"
    if t: "?ok t" for t
  proof -
    have "resolve dv t sb (components (map of_char ''/this/is/a/test'')) (inode_at (disk_byte dv t) sb 2) None = Some (found, i3, x3)"
      using tst by (simp only: at(2,4) [OF t])
    then show ?thesis by (rule inode_from_path_run [OF at(1) [OF t] un at(3) [OF t] length_encode_inode_decode])
  qed
  show ?thesis
  proof (cases "starts_with ''testing'' (first_sector (disk_byte dv s) blank)")
    case False
    then show ?thesis using r1 a(1) b(1) by (auto simp: test_files_def c1_def monad_simps)
  next
    case T1: True
    then obtain t1 where t1: "c1 b = Ok blank t1" "?ok t1" using r1 kept_trans [OF b(2)] by auto
    show ?thesis
    proof (cases "starts_with ''adam'' (first_sector (disk_byte dv s) eve)")
      case False
      then show ?thesis using r2 [OF t1(2)] t1(1) a(1) b(1) by (auto simp: test_files_def c1_def c2_def monad_simps)
    next
      case True
      then obtain t2 where t2: "c2 blank t1 = Ok eve t2" "?ok t2" using r2 [OF t1(2)] kept_trans [OF t1(2)] by auto
      from r3 [OF this(2)] obtain t3 where "inode_from_path hw fr 1 sb (map of_char ''/this/is/a/test'') (decode_inode (uninit fr 256)) t2 = Ok (found, i3) t3"
        "?ok t3" using kept_trans [OF t2(2)] by auto
      then show ?thesis
        using T1 True t1(1) t2(1) a(1) b(1) by (simp add: test_files_def c1_def c2_def monad_simps)
    qed
  qed
qed

text \<open>
  C23.  The self test on a disk whose superblock, group descriptors, root directory and named files can be read: it returns true, with
  the disk unchanged, if the first sector of \<open>/blank\<close> starts with ``testing'', that of \<open>/eve\<close> with ``adam'' and
  \<open>/this/is/a/test\<close> is found, and otherwise switches the machine off.  That \<open>/blank\<close> or \<open>/eve\<close> does not exist
  is not noticed as such: the test then looks at the first block of the directory where the search ended.
\<close>

theorem self_test_verdict:
  assumes "fs_ready hw dv fr 1 s" and "frame_ok fr buf" and "length (uninit fr 1024) = 1024" and "region_ok dv s 1024 2048"
    and "sb = decode_superblock (bytes_at (disk_byte dv s) 1024 1024)" and "s_log_block_size sb mod 32 = 0"
    and "s_blocks_per_group sb \<noteq> 0" and "test_disk dv s sb blank eve found"
  shows "if starts_with ''testing'' (first_sector (disk_byte dv s) blank) \<and> starts_with ''adam'' (first_sector (disk_byte dv s) eve) \<and> found
    then \<exists>t. test_ext2_implementation hw fr trace buf s = Ok True t \<and> disk_byte dv t = disk_byte dv s
    else \<exists>t. test_ext2_implementation hw fr trace buf s = Fault PowerOff t"
proof -
  obtain t where t: "kept hw dv fr 1 s t" "test_ext2_implementation hw fr trace buf s = test_files hw fr trace buf 1 sb 1024 t"
    using self_test_start [OF assms(1,4,3,5-7)] by blast
  have same: "disk_byte dv t = disk_byte dv s" "region_ok dv t = region_ok dv s" "fs_ready hw dv fr 1 t"
    using t(1) region_kept [OF t(1)] by (simp_all add: kept_def)
  have "test_disk dv t sb blank eve found"
    using assms(8) by (simp only: test_disk_def same inode_ok_kept [OF t(1)] resolve_kept [OF t(1)] blocks_ok_def)
  from test_files_run [OF same(3) assms(2,3) this, of trace] show ?thesis
    unfolding t(2) same(1) by (auto simp: kept_def same(1) split: if_splits)
qed

section \<open>A disk that passes\<close>

definition test_superblock :: bytes where
  "test_superblock = replicate 32 0 @ [64, 0, 0, 0, 0, 0, 0, 0, 16, 0, 0, 0] @ replicate 44 0 @ [0, 1]"

definition test_dir :: bytes where
  "test_dir = [3, 0, 0, 0, 16, 0, 5, 1, 98, 108, 97, 110, 107, 0, 0, 0] @ [4, 0, 0, 0, 12, 0, 3, 1, 101, 118, 101, 0] @ [2, 0, 0, 0, 228, 3, 0, 2]"

definition test_image :: "u64 \<Rightarrow> bytes" where
  "test_image = (\<lambda>_. [])(2 := test_superblock, 4 := encode_blockgroup ref_bg, 10 := replicate 256 0 @ encode_inode (ref_inode [8]),
     11 := encode_inode (ref_inode [10]) @ encode_inode (ref_inode [12]), 16 := test_dir, 20 := map of_char ''testing'', 24 := map of_char ''adam'')"

definition test_sb :: ext2_superblock where
  "test_sb = decode_superblock (bytes_at (disk_byte ref_view (ref_state test_image 64)) 1024 1024)"

abbreviation test_content :: "nat \<Rightarrow> u8" where
  "test_content \<equiv> disk_byte ref_view (ref_state test_image 64)"

lemma two_sectors:
  assumes "p mod 512 = 0" and "p + 1024 \<le> 512 * 64"
  shows "bytes_at (disk_byte ref_view (ref_state img 64)) p 1024 =
    take 512 (img (of_nat (p div 512)) @ replicate 512 0) @ take 512 (img (of_nat (p div 512 + 1)) @ replicate 512 0)"
proof -
  have "(p + 512) div 512 = p div 512 + 1" "(p + 512) mod 512 = 0" using assms(1) by simp_all
  then have "bytes_at (disk_byte ref_view (ref_state img 64)) p 512 = take 512 (img (of_nat (p div 512)) @ replicate 512 0)"
    "bytes_at (disk_byte ref_view (ref_state img 64)) (p + 512) 512 = take 512 (img (of_nat (p div 512 + 1)) @ replicate 512 0)"
    using ref_bytes [of p "p div 512" 512 img] ref_bytes [of "p + 512" "p div 512 + 1" 512 img] assms by (simp_all add: slice_def)
  then show ?thesis using bytes_at_append [of "disk_byte ref_view (ref_state img 64)" p 512 512] by simp
qed

lemma le_word_zeros: "le_word (replicate n 0) = 0"
  by (induction n) simp_all

lemma test_sb_fields: "s_log_block_size test_sb = 0" "s_blocks_per_group test_sb = 64" "s_inodes_per_group test_sb = 16"
  by (simp_all add: test_sb_def two_sectors decode_superblock_def test_image_def test_superblock_def slice_def le_word_zeros)

lemma test_bg_at: "bg_at test_content 0 = ref_bg"
proof -
  have "bytes_at test_content (bg_pos 0) 32 = encode_blockgroup ref_bg"
    using ref_bytes [of "bg_pos 0" 4 32 test_image]
    by (simp add: bg_pos_def test_image_def slice_hit length_encode_blockgroup ref_bg_def)
  then show ?thesis by (simp add: bg_at_def decode_encode_blockgroup ref_bg_def)
qed

lemma test_ino_pos: "ino_pos test_content test_sb 2 = 5376" "ino_pos test_content test_sb 3 = 5632" "ino_pos test_content test_sb 4 = 5888"
  by (simp_all add: ino_pos_def ino_group_def test_sb_fields test_bg_at)
    (simp_all add: ref_bg_def block_pos_def EXT2_SUPPORTED_BLOCK_SIZE_def)

lemma test_inode_at: "inode_at test_content test_sb 2 = ref_inode [8]" "inode_at test_content test_sb 3 = ref_inode [10]"
  "inode_at test_content test_sb 4 = ref_inode [12]"
proof -
  have "length (encode_inode (ref_inode [b])) = 256" for b by (simp add: length_encode_inode inode_wf_ref)
  then have "bytes_at test_content 5376 256 = encode_inode (ref_inode [8])"
    "bytes_at test_content 5632 256 = encode_inode (ref_inode [10])" "bytes_at test_content 5888 256 = encode_inode (ref_inode [12])"
    using ref_bytes [of 5376 10 256 test_image] ref_bytes [of 5632 11 256 test_image] ref_bytes [of 5888 11 256 test_image]
    by (simp_all add: test_image_def slice_hit slice_skip)
  then show "inode_at test_content test_sb 2 = ref_inode [8]" "inode_at test_content test_sb 3 = ref_inode [10]"
    "inode_at test_content test_sb 4 = ref_inode [12]"
    by (simp_all add: inode_at_def test_ino_pos decode_encode_inode inode_wf_ref)
qed

lemma test_inode_ok: "inode_ok ref_view (ref_state test_image 64) test_sb n" if "n \<in> {2, 3, 4}"
  using that by (auto simp: inode_ok_def test_ino_pos ref_region_ok bg_pos_def ino_group_def test_sb_fields)

lemma test_dir_entries:
  "dir_entries (bytes_at test_content 8192 1024) 0 = Some [(3, [98, 108, 97, 110, 107]), (4, [101, 118, 101]), (2, [])]"
proof -
  define block where "block = test_dir @ replicate 988 (0 :: u8)"
  have "bytes_at test_content 8192 1024 = block"
    by (simp add: two_sectors test_image_def block_def test_dir_def flip: replicate_add)
  moreover have "decode_dirent block = \<lparr>de_inode = 3, de_rec_len = 16, de_name_len = 5, de_file_type = 1\<rparr>"
    "decode_dirent (drop 16 block) = \<lparr>de_inode = 4, de_rec_len = 12, de_name_len = 3, de_file_type = 1\<rparr>"
    "decode_dirent (drop 28 block) = \<lparr>de_inode = 2, de_rec_len = 996, de_name_len = 0, de_file_type = 2\<rparr>"
    by (simp_all add: block_def decode_dirent_def test_dir_def slice_def)
  moreover have "slice 8 5 block = [98, 108, 97, 110, 107]" "slice 24 3 block = [101, 118, 101]" "slice 36 0 block = []"
    by (simp_all add: block_def test_dir_def slice_def)
  ultimately show ?thesis
    by (simp add: dir_entries.simps [of block 0] dir_entries.simps [of block 16] dir_entries.simps [of block 28] dir_entries.simps [of block 1024])
qed

lemma test_disk_ok: "test_disk ref_view (ref_state test_image 64) test_sb (ref_inode [10]) (ref_inode [12]) True"
proof -
  have blocks: "dir_blocks (ref_inode [8]) = [8]" by (simp add: dir_blocks_def ref_inode_def)
  have pos: "unat (block_pos 8) = 8192" by (simp add: block_pos_def EXT2_SUPPORTED_BLOCK_SIZE_def)
  let ?es = "[(3 :: u32, [98, 108, 97, 110, 107 :: u8]), (4, [101, 118, 101]), (2, [])]"
  have comps: "components (map of_char ''/blank'') = [[98, 108, 97, 110, 107]]" "components (map of_char ''/eve'') = [[101, 118, 101]]"
    "components (map of_char ''/this/is/a/test'') = [[116, 104, 105, 115], [105, 115], [97], [116, 101, 115, 116]]"
    by (simp_all add: components_def slash_def)
  have look: "dir_lookup [98, 108, 97, 110, 107] ?es = Some 3" "dir_lookup [101, 118, 101] ?es = Some 4" "dir_lookup [116, 104, 105, 115] ?es = Some 2"
    "dir_lookup [105, 115] ?es = Some 2" "dir_lookup [97] ?es = Some 2" "dir_lookup [116, 101, 115, 116] ?es = Some 2"
    by (simp_all add: dir_lookup_def entry_matches_def char_at_def)
  have block0: "i_block (ref_inode [b]) ! 0 = b" for b by (simp add: ref_inode_def)
  show ?thesis
    unfolding test_disk_def Let_def comps test_inode_at
    by (simp add: test_inode_at blocks blocks_ok_def pos ref_region_ok test_dir_entries look test_inode_ok block0 del: append_assoc)
    blast
qed

theorem self_test_verdict_witness:
  "\<exists>t. test_ext2_implementation (ref_hw ref_vring) ref_frame False 0x802FE000 (ref_state test_image 64) = Ok True t"
proof -
  have ready: "fs_ready (ref_hw ref_vring) ref_view ref_frame 1 (ref_state test_image 64)" using ref_state_ready ref_frame_ok by blast
  have buf: "frame_ok ref_frame 0x802FE000"
    using disjoint_offsets [of 0 16 16 1 "0x802FF010"] disjoint_offsets [of 0 512 "0x1010" 16 "0x802FE000"]
      disjoint_offsets [of 0 512 "0x1020" 1 "0x802FE000"]
    by (simp add: frame_ok_def ref_frame_def)
  have "starts_with ''testing'' (first_sector test_content (ref_inode [10]))" "starts_with ''adam'' (first_sector test_content (ref_inode [12]))"
    using ref_bytes [of 10240 20 512 test_image] ref_bytes [of 12288 24 512 test_image]
    by (simp_all add: starts_with_def first_sector_def ref_inode_def test_image_def slice_def)
  then show ?thesis
    using self_test_verdict [OF ready buf ref_uninit _ test_sb_def _ _ test_disk_ok, of False] ref_region_ok [of 1024 2048 test_image]
    by (auto simp: test_sb_fields)
qed

end
