(* ===== verification/Programs.thy ===== *)
theory Programs
  imports Storage Selftest
begin

text \<open>
  The programs of driver/ that are run on the kernel, fs_test_main.c and simple_test_main.c.  The
  functions of the C library are a parameter; what is assumed of them is that they make the system call of
  their name (\<open>libc_calls\<close>).  The locale \<open>random_access_file\<close> states what such a program relies on: a file is a
  sequence of bytes with a position.
\<close>

section \<open>The programs\<close>

text \<open>
  File descriptors are passed as sign-extended 64-bit numbers, as in the registers.  The first
  argument of \<open>l_printf\<close> is the format.
\<close>

record 's libc =
  l_getrandom :: "u64 \<Rightarrow> u64 \<Rightarrow> u64 \<Rightarrow> ('s, u64) kernel_op"
  l_open :: "u64 \<Rightarrow> u64 \<Rightarrow> ('s, u64) kernel_op"
  l_write :: "u64 \<Rightarrow> u64 \<Rightarrow> u64 \<Rightarrow> ('s, u64) kernel_op"
  l_lseek :: "u64 \<Rightarrow> u64 \<Rightarrow> u64 \<Rightarrow> ('s, u64) kernel_op"
  l_read :: "u64 \<Rightarrow> u64 \<Rightarrow> u64 \<Rightarrow> ('s, u64) kernel_op"
  l_gettimeofday :: "u64 \<Rightarrow> u64 \<Rightarrow> ('s, u64) kernel_op"
  l_printf :: "string \<Rightarrow> u64 list \<Rightarrow> ('s, unit) kernel_op"

text \<open>Where the arrays and the string literals of \<open>main\<close> are.\<close>

record fs_test_frame =
  ft_buffer :: u64
  ft_what_read :: u64
  ft_testing_txt :: u64
  ft_hello :: u64

text \<open>What the program does once the random bytes are there.\<close>

definition fs_test_rest :: "(('d, 'z) virtio_state_scheme) libc \<Rightarrow> fs_test_frame \<Rightarrow> (('d, 'z) virtio_state_scheme, u64) kernel_op" where
  "fs_test_rest L A =
     mthen (store (ft_what_read A) (replicate 20 0))
     (mbind (l_open L (ft_testing_txt A) 64) (\<lambda>fd.
     mthen (l_write L fd (ft_hello A) (of_nat (length ''Hello, World!'')))
     (mthen (l_lseek L fd 15 0)
     (mthen (l_write L fd (ft_buffer A) 8)
     (mthen (l_lseek L fd 0 0)
     (mthen (l_read L fd (ft_what_read A) (of_nat (length ''Hello, World!'')))
     (mthen (l_printf L (''what_read: -%s-'' @ [CHR 0x0A]) [ft_what_read A])
       (mreturn 0))))))))"

definition fs_test_main ::
    "(('d, 'z) virtio_state_scheme) libc \<Rightarrow> fs_test_frame \<Rightarrow> (('d, 'z) virtio_state_scheme, u64) kernel_op" where
  "fs_test_main L A =
     mthen (store (ft_buffer A) (replicate 8 0))
     (mbind (l_getrandom L (ft_buffer A) 8 2) (\<lambda>r.
       if sint r < 0 then mthen (l_printf L (''Error occurred getting randomness!'' @ [CHR 0x0A]) []) (mreturn 0)
       else fs_test_rest L A))"

fun print_rounds :: "'s libc \<Rightarrow> nat list \<Rightarrow> ('s, unit) kernel_op" where
  "print_rounds L [] = mreturn ()"
| "print_rounds L (i # is) =
     mthen (l_printf L (''There will be no way this works (%d)!'' @ [CHR 0x0A]) [of_nat i]) (print_rounds L is)"

definition simple_test_main :: "'s libc \<Rightarrow> u64 \<Rightarrow> ('s, u64) kernel_op" where
  "simple_test_main L timev = mthen (l_gettimeofday L timev 0) (mthen (print_rounds L [0..<10]) (mreturn 0))"

section \<open>The C library\<close>

text \<open>
  A system call with three arguments; the other argument registers hold whatever is in them (\<open>g\<close>).
  The library reports the results between -4095 and -1 as -1.
\<close>

definition syscall3 ::
    "'d hw \<Rightarrow> frame \<Rightarrow> (u64 \<Rightarrow> u64 \<Rightarrow> (('d, 'z) strap_state_scheme, unit) kernel_op) \<Rightarrow>
     (('d, 'z) strap_state_scheme \<Rightarrow> u64 \<times> u64 \<times> u64) \<Rightarrow> u64 \<Rightarrow> u64 \<Rightarrow> u64 \<Rightarrow> u64 \<Rightarrow> (('d, 'z) strap_state_scheme, u64) kernel_op" where
  "syscall3 hw fr call g n a b c = (\<lambda>s. case g s of (d, e, f) \<Rightarrow> system_call_dispatcher hw fr call n a b c d e f s)"

definition libc_result :: "u64 \<Rightarrow> u64" where
  "libc_result r = (if r > - 4096 then - 1 else r)"

definition libc_calls ::
    "'d hw \<Rightarrow> frame \<Rightarrow> (u64 \<Rightarrow> u64 \<Rightarrow> (('d, 'z) strap_state_scheme, unit) kernel_op) \<Rightarrow>
     (('d, 'z) strap_state_scheme \<Rightarrow> u64 \<times> u64 \<times> u64) \<Rightarrow> (('d, 'z) strap_state_scheme) libc \<Rightarrow> bool" where
  "libc_calls hw fr call g L \<longleftrightarrow>
     (\<forall>p flags. l_open L p flags = mbind (syscall3 hw fr call g 56 (- 100) p flags) (\<lambda>r. mreturn (libc_result r))) \<and>
     (\<forall>fd p n. l_write L fd p n = mbind (syscall3 hw fr call g 64 fd p n) (\<lambda>r. mreturn (libc_result r))) \<and>
     (\<forall>fd off whence. l_lseek L fd off whence = mbind (syscall3 hw fr call g 62 fd off whence) (\<lambda>r. mreturn (libc_result r))) \<and>
     (\<forall>fd p n. l_read L fd p n = mbind (syscall3 hw fr call g 63 fd p n) (\<lambda>r. mreturn (libc_result r)))"

section \<open>Files with a position\<close>

text \<open>
  What a program relies on, for a file of which the first \<open>bound\<close> bytes can be used: writing changes the bytes from the
  position on and nothing else, seeking sets the position, reading copies the bytes from the position on to
  memory; none of them moves the position, and none touches memory outside \<open>reserved\<close>.
\<close>

locale random_access_file =
  fixes opened :: "'s \<Rightarrow> u64 \<Rightarrow> bool"
    and content :: "'s \<Rightarrow> nat \<Rightarrow> u8"
    and memory :: "'s \<Rightarrow> u64 \<Rightarrow> u8"
    and reserved :: "u64 set"
    and bound :: nat
    and write_f :: "u64 \<Rightarrow> u64 \<Rightarrow> ('s, u64) kernel_op"
    and seek_f :: "u64 \<Rightarrow> ('s, u64) kernel_op"
    and read_f :: "u64 \<Rightarrow> u64 \<Rightarrow> ('s, u64) kernel_op"
  assumes write_law: "opened s pos \<Longrightarrow> unat pos + unat len \<le> bound \<Longrightarrow> \<exists>t. write_f buf len s = Ok len t \<and> opened t pos \<and>
      (\<forall>p<bound. content t p = (if unat pos \<le> p \<and> p < unat pos + unat len then memory s (buf + of_nat (p - unat pos)) else content s p)) \<and>
      (\<forall>a. a \<notin> reserved \<longrightarrow> memory t a = memory s a)"
    and seek_law: "opened s pos \<Longrightarrow> unat off \<le> bound \<Longrightarrow> \<exists>t. seek_f off s = Ok off t \<and> opened t off \<and>
      (\<forall>p<bound. content t p = content s p) \<and> (\<forall>a. a \<notin> reserved \<longrightarrow> memory t a = memory s a)"
    and read_law: "opened s pos \<Longrightarrow> unat pos + unat len \<le> bound \<Longrightarrow> len \<noteq> 0 \<Longrightarrow> \<forall>i<unat len. buf + of_nat i \<notin> reserved \<Longrightarrow>
      \<exists>t. read_f buf len s = Ok len t \<and> opened t pos \<and> (\<forall>p<bound. content t p = content s p) \<and>
      (\<forall>a. a \<notin> reserved \<longrightarrow> memory t a = store_bytes buf (bytes_at (content s) (unat pos) (unat len)) (memory s) a)"
begin

text \<open>Two writes to separate ranges, then the first one is read back.\<close>

lemma two_writes_read:
  assumes s: "opened s 0" and n: "n \<noteq> 0" "unat n \<le> unat q" "unat q + unat k \<le> bound"
    and src: "\<forall>i<unat k. src2 + of_nat i \<notin> reserved" and dst: "\<forall>i<unat n. dst + of_nat i \<notin> reserved"
  shows "\<exists>a b c d e. write_f src n s = Ok n a \<and> seek_f q a = Ok q b \<and> write_f src2 k b = Ok k c \<and> seek_f 0 c = Ok 0 d \<and>
    read_f dst n d = Ok n e \<and> opened e 0 \<and> bytes_at (content e) 0 (unat n) = load_bytes src (unat n) (memory s) \<and>
    bytes_at (content e) (unat q) (unat k) = load_bytes src2 (unat k) (memory s) \<and>
    (\<forall>x. x \<notin> reserved \<longrightarrow> memory e x = store_bytes dst (load_bytes src (unat n) (memory s)) (memory s) x)"
proof -
  from write_law [OF s, of n src] n obtain a where a: "write_f src n s = Ok n a" "opened a 0"
    "\<forall>p<bound. content a p = (if p < unat n then memory s (src + of_nat p) else content s p)"
    "\<forall>x. x \<notin> reserved \<longrightarrow> memory a x = memory s x" by auto
  from seek_law [OF a(2), of q] n(3) obtain b where b: "seek_f q a = Ok q b" "opened b q"
    "\<forall>p<bound. content b p = content a p" "\<forall>x. x \<notin> reserved \<longrightarrow> memory b x = memory a x" by auto
  from write_law [OF b(2) n(3), of src2] obtain c where c: "write_f src2 k b = Ok k c" "opened c q"
    "\<forall>p<bound. content c p = (if unat q \<le> p \<and> p < unat q + unat k then memory b (src2 + of_nat (p - unat q)) else content b p)"
    "\<forall>x. x \<notin> reserved \<longrightarrow> memory c x = memory b x" by auto
  from seek_law [OF c(2), of 0] obtain d where d: "seek_f 0 c = Ok 0 d" "opened d 0"
    "\<forall>p<bound. content d p = content c p" "\<forall>x. x \<notin> reserved \<longrightarrow> memory d x = memory c x" by auto
  from read_law [OF d(2), of n dst] n dst obtain e where e: "read_f dst n d = Ok n e" "opened e 0"
    "\<forall>p<bound. content e p = content d p"
    "\<forall>x. x \<notin> reserved \<longrightarrow> memory e x = store_bytes dst (bytes_at (content d) 0 (unat n)) (memory d) x" by auto
  have first: "bytes_at (content x) 0 (unat n) = load_bytes src (unat n) (memory s)" if "\<forall>p<bound. content x p = content c p" for x
    using that n a(3) b(3) c(3) by (intro nth_equalityI) (simp_all add: nth_bytes_at nth_load_bytes)
  have "bytes_at (content e) (unat q) (unat k) = load_bytes src2 (unat k) (memory s)"
    using n(3) c(3) d(3) e(3) src a(4) b(4) by (intro nth_equalityI) (simp_all add: nth_bytes_at nth_load_bytes)
  moreover have "bytes_at (content e) 0 (unat n) = load_bytes src (unat n) (memory s)" using first d(3) e(3) by simp
  moreover have "memory e x = store_bytes dst (load_bytes src (unat n) (memory s)) (memory s) x" if "x \<notin> reserved" for x
    using e(4) d(4) c(4) b(4) a(4) that first [OF d(3)] by (simp add: store_bytes_def)
  ultimately show ?thesis using a(1) b(1) c(1) d(1) e(1,2) by blast
qed

end

section \<open>Files of the kernel\<close>

definition file_content :: "'d disk_view \<Rightarrow> u32 \<Rightarrow> ('d, 'z) io_state_scheme \<Rightarrow> nat \<Rightarrow> u8" where
  "file_content dv ino s p = disk_byte dv s (file_pos (inode_at (disk_byte dv s) (superblock s) ino) p)"

definition file_open ::
    "'d hw \<Rightarrow> 'd disk_view \<Rightarrow> frame \<Rightarrow> u64 \<Rightarrow> u32 \<Rightarrow> nat \<Rightarrow> ('d, 'z) strap_state_scheme \<Rightarrow> u64 \<Rightarrow> bool" where
  "file_open hw dv fr fd ino bound s pos \<longleftrightarrow> fs_ready hw dv fr 1 s \<and> kernel_ok s \<and> 64 < length (syscall_handlers s) \<and>
     fd_view s (unat fd) = Some (File ino pos) \<and> file_range_ok dv s (superblock s) ino 0 bound"

lemma file_range_ok_part:
  assumes "file_range_ok dv s sb ino 0 n" and "p + k \<le> n"
  shows "file_range_ok dv s sb ino p k"
proof -
  let ?fp = "file_pos (inode_at (disk_byte dv s) sb ino)"
  have sub: "{p..<p + k} \<subseteq> {0..<n}" using assms(2) by auto
  have all: "inode_ok dv s sb ino" "n \<le> 15 * 1024" "inj_on ?fp {0..<n}" "\<forall>q\<in>{0..<n}. disk_ok dv s (?fp q)"
    "meta_apart (disk_byte dv s) sb ino" and apart: "?fp ` {0..<n} \<inter> ({bg_pos (ino_group sb ino)..<bg_pos (ino_group sb ino) + 32} \<union>
      {ino_pos (disk_byte dv s) sb ino..<ino_pos (disk_byte dv s) sb ino + 256}) = {}"
    using assms(1) by (simp_all add: file_range_ok_def Let_def)
  have "?fp ` {p..<p + k} \<inter> ({bg_pos (ino_group sb ino)..<bg_pos (ino_group sb ino) + 32} \<union>
      {ino_pos (disk_byte dv s) sb ino..<ino_pos (disk_byte dv s) sb ino + 256}) = {}"
    using apart image_mono [OF sub, of ?fp] by blast
  moreover have "\<forall>q\<in>{p..<p + k}. disk_ok dv s (?fp q)" using all(4) sub by blast
  ultimately show ?thesis
    using all(1,2,5) inj_on_subset [OF all(3) sub] assms(2) by (simp add: file_range_ok_def Let_def)
qed

lemma file_range_ok_kept:
  assumes "file_range_ok dv s sb ino p n" and "inode_ok dv u sb ino" and "disk_ok dv u = disk_ok dv s"
    and "file_pos (inode_at (disk_byte dv u) sb ino) = file_pos (inode_at (disk_byte dv s) sb ino)"
    and "ino_pos (disk_byte dv u) sb ino = ino_pos (disk_byte dv s) sb ino"
  shows "file_range_ok dv u sb ino p n"
  using assms by (simp add: file_range_ok_def Let_def meta_apart_def)

text \<open>The numbers of the calls lead to their handlers, whatever is in the unused registers.\<close>

lemma syscall3_files:
  assumes "kernel_ok s" and "64 < length (syscall_handlers s)"
  shows "syscall3 hw fr call g 56 a b c s = openat_s hw fr a b c (fst (g s)) s"
    and "syscall3 hw fr call g 62 a b c s = seek_s a b c s"
    and "syscall3 hw fr call g 63 a b c s = read_s hw fr a b c s"
    and "syscall3 hw fr call g 64 a b c s = write_s hw fr a b c s"
proof -
  have "syscall_handlers s ! 56 = Some Openat_s" "syscall_handlers s ! 62 = Some Seek_s"
    "syscall_handlers s ! 63 = Some Read_s" "syscall_handlers s ! 64 = Some Write_s"
    using assms by (simp_all add: kernel_ok_def handler_of_def syscall_table_def)
  then show "syscall3 hw fr call g 56 a b c s = openat_s hw fr a b c (fst (g s)) s"
    and "syscall3 hw fr call g 62 a b c s = seek_s a b c s" and "syscall3 hw fr call g 63 a b c s = read_s hw fr a b c s"
    and "syscall3 hw fr call g 64 a b c s = write_s hw fr a b c s"
    using assms(2) by (simp_all add: syscall3_def system_call_dispatcher_def call_syscall_handler_def split: prod.split)
qed

lemma upper_strap:
  fixes s t :: "('d, 'z) strap_state_scheme"
  assumes "upper t = upper s"
  shows "fds t = fds s" "superblock t = superblock s" "syscall_handlers t = syscall_handlers s" "kernel_ok t = kernel_ok s"
proof -
  show "fds t = fds s" "superblock t = superblock s" "syscall_handlers t = syscall_handlers s"
    using assms by (cases s; cases t; simp)+
  moreover have "kernel t = kernel s" using assms by (cases s; cases t; simp)
  ultimately show "kernel_ok t = kernel_ok s" by (simp add: kernel_ok_def fds_ok_def no_deferred_def)
qed

lemma file_write:
  assumes "file_open hw dv fr fd ino bound s pos" and len: "unat pos + unat len \<le> bound"
  shows "\<exists>t. syscall3 hw fr call g 64 fd buf len s = Ok len t \<and> file_open hw dv fr fd ino bound t pos \<and>
    (\<forall>p<bound. file_content dv ino t p =
      (if unat pos \<le> p \<and> p < unat pos + unat len then ram s (buf + of_nat (p - unat pos)) else file_content dv ino s p)) \<and>
    (\<forall>a. a \<notin> scratch fr \<longrightarrow> ram t a = ram s a)"
proof -
  let ?i = "inode_at (disk_byte dv s) (superblock s) ino" and ?R = "{unat pos..<unat pos + unat len}"
  have s: "fs_ready hw dv fr 1 s" "kernel_ok s" "64 < length (syscall_handlers s)" "fd_view s (unat fd) = Some (File ino pos)"
    and ok: "file_range_ok dv s (superblock s) ino 0 bound" using assms(1) by (simp_all only: file_open_def)
  have fds: "fds_ok s" using s(2) by (simp add: kernel_ok_def)
  have bound: "bound \<le> 15 * 1024" "inj_on (file_pos ?i) {0..<bound}"
    "file_pos ?i ` {0..<bound} \<inter> {ino_pos (disk_byte dv s) (superblock s) ino..<ino_pos (disk_byte dv s) (superblock s) ino + 256} = {}"
    using ok by (auto simp: file_range_ok_def Let_def)
  have "unat len < 2 ^ 31" using len bound(1) by simp
  then have small: "scast (ucast len :: c_int) = len" by (rule small_result)
  obtain t where run: "disk_write_handler hw fr fd buf len s = Ok (ucast len) t" "write_s hw fr fd buf len s = Ok len t"
    and t: "fs_ready hw dv fr 1 t" "inode_ok dv t (superblock s) ino" "disk_ok dv t = disk_ok dv s"
      "file_pos (inode_at (disk_byte dv t) (superblock s) ino) = file_pos ?i"
      "ino_pos (disk_byte dv t) (superblock s) ino = ino_pos (disk_byte dv s) (superblock s) ino"
    and new: "bytes_at (\<lambda>p. disk_byte dv t (file_pos ?i p)) (unat pos) (unat len) = load_bytes buf (unat len) (ram s)"
    and old: "\<forall>p. p \<notin> file_pos ?i ` ?R \<and>
      p \<notin> {ino_pos (disk_byte dv s) (superblock s) ino..<ino_pos (disk_byte dv s) (superblock s) ino + 256} \<longrightarrow>
      disk_byte dv t p = disk_byte dv s p" and mem: "\<forall>a. a \<notin> scratch fr \<longrightarrow> ram t a = ram s a"
    by (rule write_file_run [OF s(1) fds s(4) file_range_ok_part [OF ok len], of buf]) (simp add: small)
  note up = upper_strap [OF within_Ok [OF keeps_disk_write run(1)]]
  have "file_open hw dv fr fd ino bound t pos"
    using s t file_range_ok_kept [OF ok t(2-5)] fd_view_fds [OF up(1)] by (simp add: file_open_def up)
  moreover have "file_content dv ino t p = (if p \<in> ?R then ram s (buf + of_nat (p - unat pos)) else file_content dv ino s p)"
    if "p < bound" for p
  proof (cases "p \<in> ?R")
    case True
    then have "bytes_at (\<lambda>p. disk_byte dv t (file_pos ?i p)) (unat pos) (unat len) ! (p - unat pos) = disk_byte dv t (file_pos ?i p)"
      by (subst nth_bytes_at) auto
    moreover have "load_bytes buf (unat len) (ram s) ! (p - unat pos) = ram s (buf + of_nat (p - unat pos))"
      using True by (subst nth_load_bytes) auto
    ultimately have "disk_byte dv t (file_pos ?i p) = ram s (buf + of_nat (p - unat pos))" by (simp only: new)
    then show ?thesis by (simp only: True if_True file_content_def up t(4))
  next
    case False
    then have "file_pos ?i p \<notin> file_pos ?i ` ?R" using bound(2) that len by (auto dest: inj_onD)
    moreover have "file_pos ?i p \<in> file_pos ?i ` {0..<bound}" using that by simp
    ultimately have "disk_byte dv t (file_pos ?i p) = disk_byte dv s (file_pos ?i p)" using old bound(3) by blast
    then show ?thesis by (simp only: False if_False file_content_def up t(4))
  qed
  ultimately show ?thesis
    using run(2) mem by (intro exI [of _ t]) (simp only: syscall3_files(4) [OF s(2,3)] atLeastLessThan_iff, blast)
qed

lemma file_seek:
  assumes "file_open hw dv fr fd ino bound s pos" and "unat off \<le> bound"
  shows "\<exists>t. syscall3 hw fr call g 62 fd off 0 s = Ok off t \<and> file_open hw dv fr fd ino bound t off \<and>
    (\<forall>p<bound. file_content dv ino t p = file_content dv ino s p) \<and> (\<forall>a. a \<notin> scratch fr \<longrightarrow> ram t a = ram s a)"
proof -
  have s: "fs_ready hw dv fr 1 s" "kernel_ok s" "64 < length (syscall_handlers s)" "fd_view s (unat fd) = Some (File ino pos)"
    and ok: "file_range_ok dv s (superblock s) ino 0 bound" using assms(1) by (simp_all only: file_open_def)
  have "bound \<le> 15 * 1024" using ok by (simp add: file_range_ok_def Let_def)
  then have small: "scast (ucast off :: c_int) = off" using assms(2) by (intro small_result) simp
  have "fds_ok s" using s(2) by (simp add: kernel_ok_def)
  from seek_s_run [OF this s(4), of off 0] obtain t where t: "seek_s fd off 0 s = Ok off t" "fds_ok t" "t = s\<lparr>fds := fds t\<rparr>"
    "fd_view t = (fd_view s)(unat fd \<mapsto> File ino off)" by (auto simp: small)
  have same: "bus t = bus s" "virtio_drivers t = virtio_drivers s" "superblock t = superblock s" "syscall_handlers t = syscall_handlers s"
    "kernel t = kernel s" by (subst t(3), simp)+
  have "fs_ready hw dv fr 1 t" "disk_byte dv t = disk_byte dv s"
    using s(1) blk_ready_cong [OF same(1,2)] disk_cong [OF same(1)] by simp_all
  moreover have "file_range_ok dv t (superblock s) ino 0 bound"
    using ok by (simp add: file_range_ok_def disk_cong [OF same(1)] inode_ok_cong [OF same(1)])
  moreover have "kernel_ok t" using s(2) t(2) by (simp add: kernel_ok_def no_deferred_def same)
  ultimately show ?thesis
    using t(1,4) s(3) syscall3_files(2) [OF s(2,3)] by (auto simp: file_open_def file_content_def same)
qed

lemma file_read:
  assumes "file_open hw dv fr fd ino bound s pos" and len: "unat pos + unat len \<le> bound" "len \<noteq> 0"
    and buf: "\<forall>i<unat len. buf + of_nat i \<notin> scratch fr"
  shows "\<exists>t. syscall3 hw fr call g 63 fd buf len s = Ok len t \<and> file_open hw dv fr fd ino bound t pos \<and>
    (\<forall>p<bound. file_content dv ino t p = file_content dv ino s p) \<and>
    (\<forall>a. a \<notin> scratch fr \<longrightarrow> ram t a = store_bytes buf (bytes_at (file_content dv ino s) (unat pos) (unat len)) (ram s) a)"
proof -
  let ?i = "inode_at (disk_byte dv s) (superblock s) ino" and ?p = "ino_pos (disk_byte dv s) (superblock s) ino"
  have s: "fs_ready hw dv fr 1 s" "kernel_ok s" "64 < length (syscall_handlers s)" "fd_view s (unat fd) = Some (File ino pos)"
    and ok: "file_range_ok dv s (superblock s) ino 0 bound" using assms(1) by (simp_all only: file_open_def)
  have fds: "fds_ok s" using s(2) by (simp add: kernel_ok_def)
  have r: "inode_ok dv s (superblock s) ino" "bound \<le> 15 * 1024" "\<forall>q\<in>{0..<bound}. disk_ok dv s (file_pos ?i q)"
    "file_pos ?i ` {0..<bound} \<inter> {?p..<?p + 256} = {}" "meta_apart (disk_byte dv s) (superblock s) ino"
    using ok by (auto simp: file_range_ok_def Let_def)
  have small: "scast (ucast len :: c_int) = len" using len(1) r(2) by (intro small_result) simp
  have fc: "file_content dv ino s = (\<lambda>p. disk_byte dv s (file_pos ?i p))" by (simp add: file_content_def fun_eq_iff)
  have le: "unat pos + unat len \<le> 15 * 1024" using len(1) r(2) by simp
  have good: "\<forall>q\<in>{unat pos..<unat pos + unat len}. disk_ok dv s (file_pos ?i q)" using r(3) len(1) by auto
  obtain t w where run: "disk_read_handler hw fr fd buf len s = Ok (ucast len) t" "read_s hw fr fd buf len s = Ok len t"
    and t: "fs_ready hw dv fr 1 t" "disk_ok dv t = disk_ok dv s"
    and disk: "disk_byte dv t = overwrite (?p + 8) (le_bytes 4 (w :: u32)) (disk_byte dv s)"
    and mem: "\<forall>a. a \<notin> scratch fr \<longrightarrow> ram t a = store_bytes buf (bytes_at (file_content dv ino s) (unat pos) (unat len)) (ram s) a"
    by (rule read_file_run [OF s(1) fds s(4) len(2) r(1) le good buf]) (auto simp: small fc)
  note stamped = stamped_inode [OF r(5) _ disk, simplified]
  note up = upper_strap [OF within_Ok [OF keeps_disk_read run(1)]]
  have "inode_ok dv t (superblock s) ino" using r(1) by (simp add: inode_ok_def stamped region_ok_def t(2))
  then have "file_range_ok dv t (superblock s) ino 0 bound" by (rule file_range_ok_kept [OF ok _ t(2) stamped(2,1)])
  then have "file_open hw dv fr fd ino bound t pos"
    using s t(1) fd_view_fds [OF up(1)] by (simp add: file_open_def up)
  moreover have "file_content dv ino t p = file_content dv ino s p" if "p < bound" for p
  proof -
    have "file_pos ?i p \<in> file_pos ?i ` {0..<bound}" using that by simp
    then have "file_pos ?i p \<notin> {?p..<?p + 256}" using r(4) by blast
    then have "disk_byte dv t (file_pos ?i p) = disk_byte dv s (file_pos ?i p)" by (auto simp: disk overwrite_def)
    then show ?thesis by (simp only: file_content_def up stamped)
  qed
  ultimately show ?thesis using run(2) mem syscall3_files(3) [OF s(2,3)] by auto
qed

interpretation kfile: random_access_file "file_open hw dv fr fd ino bound" "file_content dv ino" ram "scratch fr" bound
    "syscall3 hw fr call g 64 fd" "\<lambda>off. syscall3 hw fr call g 62 fd off 0" "syscall3 hw fr call g 63 fd"
  for hw dv fr fd ino bound call g
  by unfold_locales (fact file_write, fact file_seek, fact file_read)

section \<open>The file system test\<close>

lemma c_string_at:
  assumes "load_bytes p (Suc (length bs)) m = bs @ [0]" and "0 \<notin> set bs"
  shows "c_string m p = Some bs"
  using assms
proof (induction bs arbitrary: p)
  case Nil
  then show ?case by (simp add: load_bytes_def c_string.simps [of m p])
next
  case (Cons b bs)
  have "m p = b" "load_bytes (p + 1) (Suc (length bs)) m = bs @ [0]"
    using Cons.prems(1) load_bytes_split [of p 1 "Suc (length bs)" m] by (simp_all add: load_bytes_def)
  then show ?case using Cons.IH [of "p + 1"] Cons.prems(2) by (simp add: c_string.simps [of m p])
qed

lemma load_bytes_same: "(\<And>i. i < n \<Longrightarrow> m (p + of_nat i) = m' (p + of_nat i)) \<Longrightarrow> load_bytes p n m = load_bytes p n m'"
  by (simp add: load_bytes_def)

lemma ram_set_fd: "within (ram_rel hw dv fr d) (mmodify (set_fd i f))"
proof (rule within_mmodify)
  fix s :: "('a, 'b) io_state_scheme"
  show "ram_rel hw dv fr d s (set_fd i f s)"
    using blk_ready_cong [of "set_fd i f s" s] by (simp add: ram_rel_def)
qed

lemma ram_get_driver: "within (ram_rel hw dv fr d) (get_driver n)"
  by (simp add: within_def get_driver_def ram_rel_def)

lemma ram_open_fd: "within (ram_rel hw dv fr 1) (open_fd hw fr path)"
proof -
  have "find_virtio_driver 1 = Some 1" by (simp add: find_virtio_driver_def)
  then show ?thesis
    unfolding open_fd_def with_disk_def assert_mounted_def
    by (simp only: option.case) (intro frame_intros ram.within_intros ram_set_fd ram_get_driver mem.ino_from_path_within ram_print within_let)
qed

text \<open>
  The memory of the program: the two string literals are where they should be, and its
  arrays and literals overlap neither each other nor the stack of the block functions.
\<close>

definition fs_test_memory :: "frame \<Rightarrow> fs_test_frame \<Rightarrow> (u64 \<Rightarrow> u8) \<Rightarrow> bool" where
  "fs_test_memory fr A m \<longleftrightarrow>
     load_bytes (ft_testing_txt A) 12 m = map of_char ''testing.txt'' @ [0] \<and> load_bytes (ft_hello A) 13 m = map of_char ''Hello, World!'' \<and>
     disjoint_ranges (ft_testing_txt A) 12 (ft_what_read A) 20 \<and> disjoint_ranges (ft_hello A) 13 (ft_what_read A) 20 \<and>
     disjoint_ranges (ft_buffer A) 8 (ft_what_read A) 20 \<and> (\<forall>i<8. ft_buffer A + of_nat i \<notin> scratch fr) \<and>
     (\<forall>i<13. ft_hello A + of_nat i \<notin> scratch fr) \<and> (\<forall>i<20. ft_what_read A + of_nat i \<notin> scratch fr)"

abbreviation cleared :: "fs_test_frame \<Rightarrow> ('d, 'z) base_state_scheme \<Rightarrow> ('d, 'z) base_state_scheme" where
  "cleared A s \<equiv> s\<lparr>bus := (bus s)\<lparr>mem := store_bytes (ft_buffer A) (replicate 8 0) (ram s)\<rparr>\<rparr>"

lemma fs_test_main_rest:
  "l_getrandom L (ft_buffer A) 8 2 (cleared A s) = Ok 8 t \<Longrightarrow> fs_test_main L A s = fs_test_rest L A t"
  by (simp add: fs_test_main_def fs_test_rest_def store_eq monad_simps)

text \<open>The state in which \<open>open\<close> is called.\<close>

abbreviation zeroed :: "fs_test_frame \<Rightarrow> ('d, 'z) base_state_scheme \<Rightarrow> ('d, 'z) base_state_scheme" where
  "zeroed A t \<equiv> t\<lparr>bus := (bus t)\<lparr>mem := store_bytes (ft_what_read A) (replicate 20 0) (ram t)\<rparr>\<rparr>"

lemma kept_zeroed: "fs_ready hw dv fr 1 t \<Longrightarrow> kept hw dv fr 1 t (zeroed A t)"
proof -
  have "disk_byte dv (zeroed A t) = disk_byte dv t" "disk_ok dv (zeroed A t) = disk_ok dv t"
    by (rule disk_byte_cong disk_ok_cong, simp)+
  then show "fs_ready hw dv fr 1 t \<Longrightarrow> kept hw dv fr 1 t (zeroed A t)" by (simp add: kept_def)
qed

lemma kernel_ok_zeroed: "kernel_ok (zeroed A t) = kernel_ok t" "fresh_fd (zeroed A t) = fresh_fd t"
  by (simp_all add: kernel_ok_def fds_ok_def no_deferred_def fresh_fd_def next_fd_def)

lemma libc_result_small: "unat r < 2 ^ 31 \<Longrightarrow> libc_result r = r"
  by (simp add: libc_result_def word_less_nat_alt)

lemma testing_txt_string:
  assumes "fs_test_memory fr A (ram t)"
  shows "c_string (ram (zeroed A t)) (ft_testing_txt A) = Some (map of_char ''testing.txt'')"
proof (rule c_string_at)
  have "load_bytes (ft_testing_txt A) 12 (store_bytes (ft_what_read A) (replicate 20 0) (ram t)) = load_bytes (ft_testing_txt A) 12 (ram t)"
    using assms by (intro load_store_other) (simp add: fs_test_memory_def)
  moreover have "Suc (length (map of_char ''testing.txt'' :: bytes)) = 12" by simp
  ultimately show "load_bytes (ft_testing_txt A) (Suc (length (map of_char ''testing.txt'' :: bytes))) (ram (zeroed A t)) =
      map of_char ''testing.txt'' @ [0]"
    using assms by (simp only: fs_test_memory_def) simp
qed simp

lemma open_testing_txt:
  assumes L: "libc_calls hw fr call g L" and t: "kernel_ok t" "64 < length (syscall_handlers t)" and m: "fs_test_memory fr A (ram t)"
  shows "l_open L (ft_testing_txt A) 64 (zeroed A t) =
    mbind (open_fd hw fr (map of_char ''testing.txt'')) (\<lambda>r. mreturn (libc_result (scast r))) (zeroed A t)"
proof -
  have "l_open L (ft_testing_txt A) 64 (zeroed A t) =
      mbind (syscall3 hw fr call g 56 (- 100) (ft_testing_txt A) 64) (\<lambda>r. mreturn (libc_result r)) (zeroed A t)"
    using L by (simp add: libc_calls_def)
  also have "\<dots> = mbind (openat_s hw fr (- 100) (ft_testing_txt A) 64 (fst (g (zeroed A t)))) (\<lambda>r. mreturn (libc_result r)) (zeroed A t)"
    using syscall3_files(1) [of "zeroed A t" hw fr call g] t by (simp add: mbind_def kernel_ok_zeroed)
  finally show ?thesis
    using testing_txt_string [OF m] by (simp add: openat_s_def mbind_def mreturn_def split: outcome.split)
qed

text \<open>Opening, as it is needed here: the descriptor is ready for the file, and the memory of the program is as before.\<close>

lemma testing_txt_opened:
  assumes L: "libc_calls hw fr call g L" and t: "fs_ready hw dv fr 1 t" "length (uninit fr 1024) = 1024" "kernel_ok t"
    "64 < length (syscall_handlers t)" "superblock_mounted t" "inode_ok dv t (superblock t) 2" "fresh_fd t = Some i"
    and pos: "fd_pos (fds t ! i) = 0"
    and path: "resolve dv t (superblock t) (components (map of_char ''testing.txt'')) (inode_at (disk_byte dv t) (superblock t) 2)
      (Some (fd_ino (fds t ! i))) = Some (found, inode, Some n)"
    and ok: "file_range_ok dv t (superblock t) n 0 bound" and m: "fs_test_memory fr A (ram t)"
  shows "\<exists>u. l_open L (ft_testing_txt A) 64 (zeroed A t) = Ok (of_nat i) u \<and> i < max_fd \<and> file_open hw dv fr (of_nat i) n bound u 0 \<and>
    (\<forall>a. a \<notin> scratch fr \<longrightarrow> ram u a = ram (zeroed A t) a)"
proof -
  let ?t = "zeroed A t"
  have k: "kept hw dv fr 1 t ?t" using t(1) by (rule kept_zeroed)
  have same: "fs_ready hw dv fr 1 ?t" "disk_byte dv ?t = disk_byte dv t" "disk_ok dv ?t = disk_ok dv t"
    using k by (simp_all add: kept_def)
  have "fds_ok ?t" "inode_ok dv ?t (superblock ?t) 2" "fresh_fd ?t = Some i" "superblock_mounted ?t"
    using t kernel_ok_zeroed [of A t] inode_ok_kept [OF k] by (simp_all add: kernel_ok_def)
  moreover have "resolve dv ?t (superblock ?t) (components (map of_char ''testing.txt'')) (inode_at (disk_byte dv ?t) (superblock ?t) 2)
      (Some (fd_ino (fds ?t ! i))) = Some (found, inode, Some n)" using path by (simp add: resolve_kept [OF k] same(2))
  ultimately obtain u where run: "open_fd hw fr (map of_char ''testing.txt'') ?t = Ok (of_nat i) u"
    and u: "fds_ok u" "fd_view u = (fd_view ?t)(i \<mapsto> File n (fd_pos (fds ?t ! i)))" "fs_ready hw dv fr 1 u"
      "disk_byte dv u = disk_byte dv ?t" "disk_ok dv u = disk_ok dv ?t" "superblock u = superblock ?t" "io_state.more u = io_state.more ?t"
    using open_fd_run [OF same(1) t(2)] by blast
  have i: "i < max_fd" using next_fd_fresh [of t i] t(3,7) by (simp add: kernel_ok_def)
  have small: "unat (scast (of_nat i :: c_int) :: u64) = i" using i fd_of_int [of "of_nat i"] by (simp add: small_int)
  then have fd: "scast (of_nat i :: c_int) = (of_nat i :: u64)" "unat (of_nat i :: u64) = i"
    by (metis of_nat_unat_eq) (use i in \<open>simp add: max_fd_def unat_of_nat_small\<close>)
  have "libc_result (of_nat i) = of_nat i" using i fd(2) by (intro libc_result_small) (simp add: max_fd_def)
  then have opn: "l_open L (ft_testing_txt A) 64 ?t = Ok (of_nat i) u"
    using run open_testing_txt [OF L t(3,4) m] by (simp add: mbind_def mreturn_def fd(1))
  have kt: "kept hw dv fr 1 t u" using u(3-5) same by (simp add: kept_def)
  have "file_range_ok dv u (superblock u) n 0 bound"
    using file_range_ok_kept [OF ok, of u] inode_ok_kept [OF kt] ok u(4-6) same by (simp add: file_range_ok_def Let_def)
  moreover have "kernel_ok u" using within_Ok [OF ok_open run] t(3) by (simp add: kernel_ok_zeroed)
  moreover have "syscall_handlers u = syscall_handlers t" using u(7) by (cases u; cases t; simp)
  ultimately have "file_open hw dv fr (of_nat i) n bound u 0"
    using u(2,3) t(4) pos by (simp add: file_open_def fd(2))
  with opn i show ?thesis using ram_relD [OF within_Ok [OF ram_open_fd run] same(1)] by blast
qed

text \<open>
  C4.  The file system test on a mounted disk: whatever the random bytes are, the program reads back and prints what it
  has written at the start of the file; the file then holds the text and, from position 15 on,
  the random bytes.  The name must lead to a file whose first 23 bytes can be written, the descriptor that
  is given out must have been left at position 0, since opening does not reset it, and the memory of the program must be
  apart from the stack of the block functions.
\<close>

theorem fs_test_reads_back:
  assumes "libc_calls hw fr call g L" and "l_getrandom L (ft_buffer A) 8 2 (cleared A s) = Ok 8 t"
    and "fs_ready hw dv fr 1 t" and "length (uninit fr 1024) = 1024" and "kernel_ok t" and "64 < length (syscall_handlers t)"
    and "superblock_mounted t" and "inode_ok dv t (superblock t) 2" and "fresh_fd t = Some i" and "fd_pos (fds t ! i) = 0"
    and "resolve dv t (superblock t) (components (map of_char ''testing.txt'')) (inode_at (disk_byte dv t) (superblock t) 2)
      (Some (fd_ino (fds t ! i))) = Some (found, inode, Some n)"
    and "file_range_ok dv t (superblock t) n 0 23" and "fs_test_memory fr A (ram t)"
  shows "\<exists>u. fs_test_main L A s = mthen (l_printf L (''what_read: -%s-'' @ [CHR 0x0A]) [ft_what_read A]) (mreturn 0) u \<and>
    load_bytes (ft_what_read A) 20 (ram u) = map of_char ''Hello, World!'' @ replicate 7 0 \<and>
    bytes_at (file_content dv n u) 0 13 = map of_char ''Hello, World!'' \<and>
    bytes_at (file_content dv n u) 15 8 = load_bytes (ft_buffer A) 8 (ram t) \<and> fd_view u i = Some (File n 0)"
proof -
  let ?fd = "of_nat i :: u64"
  note m = assms(13) [unfolded fs_test_memory_def]
  obtain v where v: "l_open L (ft_testing_txt A) 64 (zeroed A t) = Ok ?fd v" "i < max_fd" "file_open hw dv fr ?fd n 23 v 0"
    and ram: "\<forall>a. a \<notin> scratch fr \<longrightarrow> ram v a = store_bytes (ft_what_read A) (replicate 20 0) (ram t) a"
    using testing_txt_opened [OF assms(1,3-13)] by auto
  have hello: "load_bytes (ft_hello A) 13 (ram v) = map of_char ''Hello, World!''"
    and buffer: "load_bytes (ft_buffer A) 8 (ram v) = load_bytes (ft_buffer A) 8 (ram t)"
    using m ram load_store_other [of _ _ "ft_what_read A" "replicate 20 0" "ram t"]
      load_bytes_same [of _ "ram v" _ "store_bytes (ft_what_read A) (replicate 20 0) (ram t)"] by simp_all
  have zero: "load_bytes (ft_what_read A) 20 (ram v) = replicate 20 0"
    using m ram load_store_same [of "replicate 20 0" "ft_what_read A" "ram t"]
      load_bytes_same [of 20 "ram v" "ft_what_read A" "store_bytes (ft_what_read A) (replicate 20 0) (ram t)"] by simp
  obtain a b c d e where
    run: "syscall3 hw fr call g 64 ?fd (ft_hello A) 13 v = Ok 13 a" "syscall3 hw fr call g 62 ?fd 15 0 a = Ok 15 b"
      "syscall3 hw fr call g 64 ?fd (ft_buffer A) 8 b = Ok 8 c" "syscall3 hw fr call g 62 ?fd 0 0 c = Ok 0 d"
      "syscall3 hw fr call g 63 ?fd (ft_what_read A) 13 d = Ok 13 e"
    and e: "file_open hw dv fr ?fd n 23 e 0" "bytes_at (file_content dv n e) 0 13 = load_bytes (ft_hello A) 13 (ram v)"
      "bytes_at (file_content dv n e) 15 8 = load_bytes (ft_buffer A) 8 (ram v)"
      "\<forall>x. x \<notin> scratch fr \<longrightarrow> ram e x = store_bytes (ft_what_read A) (load_bytes (ft_hello A) 13 (ram v)) (ram v) x"
    using kfile.two_writes_read [OF v(3), where n = 13 and q = 15 and k = 8 and ?src2.0 = "ft_buffer A" and dst = "ft_what_read A"
      and src = "ft_hello A" and call = call and g = g] m by auto
  have "load_bytes (ft_what_read A) 20 (ram e) =
      load_bytes (ft_what_read A) 20 (store_bytes (ft_what_read A + of_nat 0) (map of_char ''Hello, World!'') (ram v))"
    using m e(4) by (intro load_bytes_same) (simp add: hello)
  also have "\<dots> = patch 0 (map of_char ''Hello, World!'') (replicate 20 0)" by (subst load_store_patch) (simp_all add: zero)
  finally have what: "load_bytes (ft_what_read A) 20 (ram e) = map of_char ''Hello, World!'' @ replicate 7 0" by (simp add: patch_def)
  have "fs_test_main L A s = fs_test_rest L A t" using assms(2) by (rule fs_test_main_rest)
  also have "\<dots> = mthen (l_printf L (''what_read: -%s-'' @ [CHR 0x0A]) [ft_what_read A]) (mreturn 0) e"
    using assms(1) v(1) run by (simp add: fs_test_rest_def libc_calls_def store_eq mthen_def mbind_def mreturn_def)
  finally show ?thesis
    using what e(1-3) hello buffer v(2) by (auto simp: file_open_def max_fd_def unat_of_nat_small)
qed

text \<open>
  C20.  The program never mounts the disk.  On a kernel that has just booted, with a disk, it therefore gets no further than
  opening the file, where an assertion fails.
\<close>

theorem fs_test_unmounted:
  assumes "libc_calls hw fr call g L" and "l_getrandom L (ft_buffer A) 8 2 (cleared A s) = Ok 8 t"
    and "kernel_ok t" and "64 < length (syscall_handlers t)" and "1 < length (virtio_drivers t)" and "initialized (virtio_drivers t ! 1)"
    and "\<exists>i<max_fd. fd_view t i = None" and "\<not> superblock_mounted t" and "fs_test_memory fr A (ram t)"
  shows "\<exists>u. fs_test_main L A s = Fault AssertionFailed u \<and>
    console u = console t @ map of_char (''Superblock is not mounted.'' @ [CHR 0x0A])"
proof -
  let ?t = "zeroed A t"
  have "fds_ok ?t" "fd_view ?t = fd_view t"
    using assms(3) fd_view_fds [of ?t t] by (simp_all add: kernel_ok_def fds_ok_def)
  then obtain u where u: "open_fd hw fr (map of_char ''testing.txt'') ?t = Fault AssertionFailed u"
    "console u = console t @ map of_char (''Superblock is not mounted.'' @ [CHR 0x0A])"
    using open_fd_refused [of ?t hw fr "map of_char ''testing.txt''"] assms(5-8) by auto
  have "l_open L (ft_testing_txt A) 64 ?t = Fault AssertionFailed u"
    using open_testing_txt [OF assms(1,3,4,9)] u(1) by (simp add: mbind_def)
  then have "fs_test_rest L A t = Fault AssertionFailed u" by (simp add: fs_test_rest_def store_eq mthen_def mbind_def)
  then show ?thesis using fs_test_main_rest [OF assms(2)] u(2) by simp
qed

section \<open>A disk with the file\<close>

definition prog_dir :: bytes where
  "prog_dir = [3, 0, 0, 0, 0, 4, 11, 1] @ map of_char ''testing.txt''"

definition prog_image :: "u64 \<Rightarrow> bytes" where
  "prog_image = ref_image(16 := prog_dir)"

abbreviation prog_fs :: "ref_disk virtio_state" where
  "prog_fs \<equiv> ref_state prog_image 64"

lemma prog_same: "p < 8192 \<or> 8704 \<le> p \<Longrightarrow> disk_byte ref_view prog_fs p = disk_byte ref_view ref_fs p"
proof -
  assume p: "p < 8192 \<or> 8704 \<le> p"
  have "of_nat (p div 512) \<noteq> (16 :: u64)" if "p < 2 ^ 64"
  proof
    assume "of_nat (p div 512) = (16 :: u64)"
    then have "unat (of_nat (p div 512) :: u64) = 16" by simp
    moreover have "unat (of_nat (p div 512) :: u64) = p div 512" using that by (intro unat_of_nat_small) simp
    ultimately have "p div 512 = 16" by simp
    then have "8192 \<le> p" "p < 8704" using div_mult_mod_eq [of p 512] mod_less_divisor [of 512 p] by simp_all
    then show False using p by simp
  qed
  then show ?thesis by (simp add: disk_byte_def ref_fs_disk prog_image_def)
qed

lemma prog_inodes:
  "ino_pos (disk_byte ref_view prog_fs) ref_sb 2 = 5376" "ino_pos (disk_byte ref_view prog_fs) ref_sb 3 = 5632"
  "inode_at (disk_byte ref_view prog_fs) ref_sb 2 = ref_inode [8]" "inode_at (disk_byte ref_view prog_fs) ref_sb 3 = ref_inode [10, 11]"
  "inode_ok ref_view prog_fs ref_sb 2" "inode_ok ref_view prog_fs ref_sb 3"
proof -
  have same: "bytes_at (disk_byte ref_view prog_fs) p n = bytes_at ref_content p n" if "p + n \<le> 8192" for p n
    using that by (intro nth_equalityI) (simp_all add: nth_bytes_at prog_same)
  have g: "bg_pos (ino_group ref_sb k) = 2048" if "k \<in> {2, 3}" for k
    using that by (auto simp: bg_pos_def ino_group_def ref_sb_def)
  show "ino_pos (disk_byte ref_view prog_fs) ref_sb 2 = 5376" "ino_pos (disk_byte ref_view prog_fs) ref_sb 3 = 5632"
    "inode_at (disk_byte ref_view prog_fs) ref_sb 2 = ref_inode [8]" "inode_at (disk_byte ref_view prog_fs) ref_sb 3 = ref_inode [10, 11]"
    using inode_at_unchanged [of "disk_byte ref_view prog_fs" ref_sb 2 ref_content] inode_at_unchanged [of "disk_byte ref_view prog_fs" ref_sb 3 ref_content]
    by (simp_all add: same g ref_ino_pos ref_inode_at)
  then show "inode_ok ref_view prog_fs ref_sb 2" "inode_ok ref_view prog_fs ref_sb 3"
    by (simp_all add: inode_ok_def ref_region_ok g) (simp_all add: ref_sb_def)
qed

lemma prog_dir_entries: "dir_entries (bytes_at (disk_byte ref_view prog_fs) 8192 1024) 0 = Some [(3, map of_char ''testing.txt'')]"
proof -
  define block where "block = prog_dir @ replicate 1005 (0 :: u8)"
  have "bytes_at (disk_byte ref_view prog_fs) 8192 1024 = block"
    by (simp add: two_sectors prog_image_def ref_image_def block_def prog_dir_def flip: replicate_add)
  moreover have "decode_dirent block = \<lparr>de_inode = 3, de_rec_len = 1024, de_name_len = 11, de_file_type = 1\<rparr>"
    "slice 8 11 block = map of_char ''testing.txt''"
    by (simp_all add: block_def decode_dirent_def prog_dir_def slice_def)
  ultimately show ?thesis by (simp add: dir_entries.simps [of block 0] dir_entries.simps [of block 1024])
qed

lemma prog_resolve:
  "resolve ref_view prog_fs ref_sb (components (map of_char ''testing.txt'')) (inode_at (disk_byte ref_view prog_fs) ref_sb 2) (Some 0) =
     Some (True, ref_inode [10, 11], Some 3)"
proof -
  have blocks: "dir_blocks (ref_inode [8]) = [8]" by (simp add: dir_blocks_def ref_inode_def)
  have pos: "unat (block_pos 8) = 8192" by (simp add: block_pos_def EXT2_SUPPORTED_BLOCK_SIZE_def)
  have comps: "components (map of_char ''testing.txt'') = [map of_char ''testing.txt'']"
    by (simp add: components_def slash_def)
  have look: "dir_lookup (map of_char ''testing.txt'') [(3, map of_char ''testing.txt'')] = Some 3"
    by (simp add: dir_lookup_def entry_matches_def char_at_def)
  show ?thesis
    by (simp only: comps prog_inodes resolve.simps blocks)
      (simp add: blocks_ok_def pos ref_region_ok prog_dir_entries look prog_inodes del: append_assoc list.map)
qed

text \<open>A program with its literals in memory, on a kernel with this disk.\<close>

definition prog_frame :: fs_test_frame where
  "prog_frame = \<lparr>ft_buffer = 0x7200, ft_what_read = 0x7300, ft_testing_txt = 0x7000, ft_hello = 0x7100\<rparr>"

definition prog_memory :: "(u64 \<Rightarrow> u8) \<Rightarrow> u64 \<Rightarrow> u8" where
  "prog_memory m = store_bytes 0x7000 (map of_char ''testing.txt'' @ [0]) (store_bytes 0x7100 (map of_char ''Hello, World!'') m)"

definition prog_kernel :: "bool \<Rightarrow> ref_disk strap_state" where
  "prog_kernel mounted = ref_kernel\<lparr>bus := (bus prog_fs)\<lparr>mem := prog_memory (ram prog_fs)\<rparr>, superblock_mounted := mounted\<rparr>"

definition prog_libc :: "(ref_disk strap_state) libc" where
  "prog_libc =
     (let sys = (\<lambda>n a b c. mbind (syscall3 (ref_hw ref_vring) ref_frame (\<lambda>f c. mreturn ()) (\<lambda>s. (0, 0, 0)) n a b c) (\<lambda>r. mreturn (libc_result r))) in
      \<lparr>l_getrandom = (\<lambda>p n flags. mthen (store p [1, 2, 3, 4, 5, 6, 7, 8]) (mreturn 8)), l_open = sys 56 (- 100),
       l_write = sys 64, l_lseek = sys 62, l_read = sys 63, l_gettimeofday = (\<lambda>p tz. mreturn 0), l_printf = (\<lambda>fmt xs. mreturn ())\<rparr>)"

definition prog_ready :: "bool \<Rightarrow> ref_disk strap_state" where
  "prog_ready mounted = (prog_kernel mounted)\<lparr>bus := (bus (prog_kernel mounted))\<lparr>mem :=
     store_bytes 0x7200 [1, 2, 3, 4, 5, 6, 7, 8] (store_bytes 0x7200 (replicate 8 0) (prog_memory (ram prog_fs)))\<rparr>\<rparr>"

lemma prog_libc_calls: "libc_calls (ref_hw ref_vring) ref_frame (\<lambda>f c. mreturn ()) (\<lambda>s. (0, 0, 0)) prog_libc"
  by (simp add: libc_calls_def prog_libc_def)

lemma prog_random: "l_getrandom prog_libc (ft_buffer prog_frame) 8 2 (cleared prog_frame (prog_kernel mounted)) = Ok 8 (prog_ready mounted)"
  by (simp add: prog_libc_def prog_frame_def prog_ready_def prog_kernel_def store_eq monad_simps)

lemma prog_ready_simps [simp]:
  "dev (bus (prog_ready mounted)) = dev (bus prog_fs)" "superblock (prog_ready mounted) = ref_sb"
  "superblock_mounted (prog_ready mounted) = mounted" "fds (prog_ready mounted) = fds ref_io"
  "syscall_handlers (prog_ready mounted) = syscall_handlers ref_kernel" "kernel (prog_ready mounted) = kernel ref_kernel"
  "virtio_drivers (prog_ready mounted) = virtio_drivers prog_fs"
  by (simp_all add: prog_ready_def prog_kernel_def) (simp_all add: ref_state_def heap_init_def heap_state.defs virtio_state.defs)

lemma prog_kernel_ok: "kernel_ok (prog_ready mounted)" "fresh_fd (prog_ready mounted) = Some 0" "fd_view (prog_ready mounted) = [1 \<mapsto> Console]"
proof -
  have ok: "fds_ok (prog_ready mounted)" using ref_io_fds(1) fds_ok_fds [of "prog_ready mounted" ref_io] by simp
  then show "kernel_ok (prog_ready mounted)"
    using ref_kernel_ok(1) by (simp add: kernel_ok_def no_deferred_def del: upt_rec_numeral)
  show view: "fd_view (prog_ready mounted) = [1 \<mapsto> Console]"
    using fd_view_fds [of "prog_ready mounted" ref_io] ref_io_fds(3) by simp
  show "fresh_fd (prog_ready mounted) = Some 0" using fd.fresh_Some [OF ok, of 0] by (simp add: view max_fd_def)
qed

lemma prog_disk:
  "fs_ready (ref_hw ref_vring) ref_view ref_frame 1 (prog_ready mounted)"
  "disk_byte ref_view (prog_ready mounted) = disk_byte ref_view prog_fs" "disk_ok ref_view (prog_ready mounted) = disk_ok ref_view prog_fs"
  "inode_ok ref_view (prog_ready mounted) = inode_ok ref_view prog_fs"
  "resolve ref_view (prog_ready mounted) sb xs inode ino = resolve ref_view prog_fs sb xs inode ino"
proof -
  define v where "v = prog_fs\<lparr>bus := (bus prog_fs)\<lparr>mem := ram (prog_ready mounted)\<rparr>\<rparr>"
  have b: "bus (prog_ready mounted) = bus v" "virtio_drivers (prog_ready mounted) = virtio_drivers v"
    by (simp_all add: v_def) (simp add: prog_ready_def prog_kernel_def)
  have "fs_ready (ref_hw ref_vring) ref_view ref_frame 1 prog_fs" using ref_state_ready ref_frame_ok by blast
  then have "kept (ref_hw ref_vring) ref_view ref_frame 1 prog_fs prog_fs" by (simp add: kept_def)
  then have k: "kept (ref_hw ref_vring) ref_view ref_frame 1 prog_fs v" by (simp only: v_def kept_mem)
  show "fs_ready (ref_hw ref_vring) ref_view ref_frame 1 (prog_ready mounted)"
    using k blk_ready_cong [OF b] by (simp add: kept_def)
  show "disk_byte ref_view (prog_ready mounted) = disk_byte ref_view prog_fs" "disk_ok ref_view (prog_ready mounted) = disk_ok ref_view prog_fs"
    using k disk_cong [OF b(1)] by (simp_all add: kept_def)
  show "inode_ok ref_view (prog_ready mounted) = inode_ok ref_view prog_fs"
    using inode_ok_kept [OF k] inode_ok_cong [OF b(1)] by (simp add: fun_eq_iff)
  show "resolve ref_view (prog_ready mounted) sb xs inode ino = resolve ref_view prog_fs sb xs inode ino"
    using resolve_kept [OF k] resolve_cong [OF b(1)] by simp
qed

lemma load_store_exact: "length bs = n \<Longrightarrow> n \<le> 2 ^ 64 \<Longrightarrow> load_bytes p n (store_bytes p bs m) = bs"
  using load_store_same by blast

lemma prog_apart: "unat p + n \<le> 0x8000 \<Longrightarrow> i < n \<Longrightarrow> p + of_nat i \<notin> scratch ref_frame"
  by (rule below_scratch) (simp add: unat_add_of_nat)

lemma prog_memory_ok: "fs_test_memory ref_frame prog_frame (ram (prog_ready mounted))"
proof -
  have ram: "ram (prog_ready mounted) = store_bytes 0x7200 [1, 2, 3, 4, 5, 6, 7, 8] (store_bytes 0x7200 (replicate 8 0)
      (store_bytes 0x7000 (map of_char ''testing.txt'' @ [0]) (store_bytes 0x7100 (map of_char ''Hello, World!'') (ram prog_fs))))"
    by (simp add: prog_ready_def prog_memory_def)
  have d: "disjoint_ranges p n q k" if "unat p + n \<le> unat q" "unat q + k \<le> 0x8000" for p q n k
    using that by (intro disjoint_rangesI) simp_all
  have "load_bytes 0x7000 12 (ram (prog_ready mounted)) = map of_char ''testing.txt'' @ [0]"
    unfolding ram by (subst load_store_other, simp add: d, subst load_store_other, simp add: d) (simp add: load_store_exact del: append.simps list.map)
  moreover have "load_bytes 0x7100 13 (ram (prog_ready mounted)) = map of_char ''Hello, World!''"
    unfolding ram by (subst load_store_other, simp add: d, subst load_store_other, simp add: d,
      subst load_store_other, simp add: d disjoint_ranges_sym [of "0x7100" 13 "0x7000"]) (simp add: load_store_exact del: append.simps list.map)
  ultimately show ?thesis
    by (simp add: fs_test_memory_def prog_frame_def d prog_apart [where n = 8] prog_apart [where n = 13] prog_apart [where n = 20])
qed

lemma prog_range_ok: "file_range_ok ref_view (prog_ready mounted) ref_sb 3 0 23"
proof -
  have fp: "file_pos (ref_inode [10, 11]) q = 10240 + q" if "q < 23" for q using that by (simp add: ref_file_pos)
  have g: "bg_pos (ino_group ref_sb 3) = 2048" by (simp add: bg_pos_def ino_group_def) (simp add: ref_sb_def)
  have "file_pos (ref_inode [10, 11]) ` {0..<23} \<subseteq> {10240..<12288}" by (auto simp: fp)
  moreover have "\<forall>q\<in>{0..<23}. disk_ok ref_view prog_fs (file_pos (ref_inode [10, 11]) q)" by (auto simp: fp ref_fs_ok)
  moreover have "inj_on (file_pos (ref_inode [10, 11])) {0..<23}" by (auto simp: inj_on_def fp)
  ultimately show ?thesis by (auto simp: file_range_ok_def Let_def prog_disk prog_inodes g meta_apart_def)
qed

theorem fs_test_reads_back_witness:
  "\<exists>u. fs_test_main prog_libc prog_frame (prog_kernel True) = Ok 0 u \<and>
    load_bytes 0x7300 20 (ram u) = map of_char ''Hello, World!'' @ replicate 7 0 \<and>
    bytes_at (file_content ref_view 3 u) 15 8 = [1, 2, 3, 4, 5, 6, 7, 8]"
proof -
  have zero: "fd_pos (fds (prog_ready True) ! 0) = 0" "fd_ino (fds (prog_ready True) ! 0) = 0"
    by (simp_all add: zero_fd_def max_fd_def)
  have "load_bytes 0x7200 8 (ram (prog_ready True)) = [1, 2, 3, 4, 5, 6, 7, 8]"
    by (simp add: prog_ready_def load_store_exact)
  moreover have "inode_ok ref_view (prog_ready True) (superblock (prog_ready True)) 2" by (simp add: prog_disk prog_inodes)
  moreover have "resolve ref_view (prog_ready True) (superblock (prog_ready True)) (components (map of_char ''testing.txt''))
      (inode_at (disk_byte ref_view (prog_ready True)) (superblock (prog_ready True)) 2) (Some (fd_ino (fds (prog_ready True) ! 0))) =
      Some (True, ref_inode [10, 11], Some 3)"
    unfolding prog_disk(2,5) prog_ready_simps(2) zero(2) by (rule prog_resolve)
  moreover have "l_printf prog_libc fmt xs = mreturn ()" for fmt xs by (simp add: prog_libc_def)
  ultimately show ?thesis
    using fs_test_reads_back [OF prog_libc_calls prog_random [of True] prog_disk(1) ref_uninit prog_kernel_ok(1) _ _ _ prog_kernel_ok(2) zero(1),
        where n = 3 and found = True and inode = "ref_inode [10, 11]"]
      prog_range_ok [of True] prog_memory_ok [of True]
    by (auto simp: prog_frame_def monad_simps)
qed

theorem fs_test_unmounted_witness:
  "\<exists>u. fs_test_main prog_libc prog_frame (prog_kernel False) = Fault AssertionFailed u"
proof -
  have "\<exists>i<max_fd. fd_view (prog_ready False) i = None" by (rule exI [of _ 0]) (simp add: prog_kernel_ok max_fd_def)
  moreover have "1 < length (virtio_drivers prog_fs)" "initialized (virtio_drivers prog_fs ! 1)"
    using prog_disk(1) [of False] by (auto simp: blk_ready_def)
  ultimately show ?thesis
    using fs_test_unmounted [OF prog_libc_calls prog_random [of False] prog_kernel_ok(1) _ _ _ _ _ prog_memory_ok] by auto
qed

end
