(* ===== verification/Structs.thy ===== *)
theory Structs
  imports Storage
begin

text \<open>
  The layout of structures in memory, by the rules of the RISC-V calling convention: a field is
  put at the next offset that its alignment allows, and the size of the whole is rounded up to the largest
  alignment.  The offsets that the rest of the development uses for \<open>struct stat\<close> (src/strap_handler.c),
  \<open>struct vring\<close> (include/virtio.h) and \<open>struct virtio_blk_req_hdr\<close> (include/blk.h) are those of
  the declarations.
\<close>

section \<open>Layout\<close>

text \<open>A field has a name, a size and an alignment.\<close>

type_synonym c_field = "string \<times> nat \<times> nat"

definition round_up :: "nat \<Rightarrow> nat \<Rightarrow> nat" where
  "round_up n align = (n + align - 1) div align * align"

fun c_offsets :: "nat \<Rightarrow> c_field list \<Rightarrow> (string \<times> nat) list" where
  "c_offsets off [] = []"
| "c_offsets off ((f, sz, align) # fs) = (f, round_up off align) # c_offsets (round_up off align + sz) fs"

fun c_end :: "nat \<Rightarrow> c_field list \<Rightarrow> nat" where
  "c_end off [] = off"
| "c_end off ((f, sz, align) # fs) = c_end (round_up off align + sz) fs"

definition c_sizeof :: "c_field list \<Rightarrow> nat" where
  "c_sizeof fs = round_up (c_end 0 fs) (fold (\<lambda>(f, sz, align). max align) fs 1)"

definition offsetof :: "c_field list \<Rightarrow> string \<Rightarrow> u64" where
  "offsetof fs f = (case map_of (c_offsets 0 fs) f of Some n \<Rightarrow> of_nat n | None \<Rightarrow> 0)"

section \<open>The structures\<close>

definition stat_fields :: "c_field list" where
  "stat_fields = [(''st_dev'', 8, 8), (''st_ino'', 8, 8), (''st_mode'', 4, 4), (''st_nlink'', 4, 4), (''st_uid'', 4, 4), (''st_gid'', 4, 4),
     (''st_rdev'', 8, 8), (''__pad1'', 8, 8), (''st_size'', 8, 8), (''st_blksize'', 4, 4), (''__pad2'', 4, 4), (''st_blocks'', 8, 8),
     (''st_atime'', 8, 8), (''st_atime_nsec'', 8, 8), (''st_mtime'', 8, 8), (''st_mtime_nsec'', 8, 8), (''st_ctime'', 8, 8),
     (''st_ctime_nsec'', 8, 8), (''__unused4'', 4, 4), (''__unused5'', 4, 4)]"

definition vring_bookeeping_fields :: "c_field list" where
  "vring_bookeeping_fields = [(''used_last'', 2, 2), (''avail_next'', 2, 2), (''avail_avail'', 2, 2), (''used_avail'', 2, 2),
     (''descr_head'', 2, 2), (''descr_next'', 2, 2)]"

definition vring_fields :: "c_field list" where
  "vring_fields = [(''num'', 4, 4), (''size'', 8, 8), (''bouncebufs'', 8, 8), (''bookeeping'', c_sizeof vring_bookeeping_fields, 2),
     (''desc'', 8, 8), (''avail'', 8, 8), (''used'', 8, 8)]"

definition virtio_blk_req_hdr_fields :: "c_field list" where
  "virtio_blk_req_hdr_fields = [(''type'', 4, 4), (''ioprio'', 4, 4), (''sector'', 8, 8)]"

text \<open>\<open>struct event\<close>, of which the runtime uses the first field.\<close>

definition event_fields :: "c_field list" where
  "event_fields = [(''id'', 8, 8), (''data'', 8, 8)]"

text \<open>\<open>struct stat\<close> as a value, and the one that is in memory at an address.\<close>

record stat =
  st_dev :: u64
  st_ino :: u64
  st_mode :: u32
  st_nlink :: u32
  st_uid :: u32
  st_gid :: u32
  st_rdev :: u64
  pad1 :: u64
  st_size :: u64
  st_blksize :: u32
  pad2 :: u32
  st_blocks :: u64
  st_atime :: u64
  st_atime_nsec :: u64
  st_mtime :: u64
  st_mtime_nsec :: u64
  st_ctime :: u64
  st_ctime_nsec :: u64
  unused4 :: u32
  unused5 :: u32

definition field_at :: "nat \<Rightarrow> c_field list \<Rightarrow> string \<Rightarrow> (u64 \<Rightarrow> u8) \<Rightarrow> u64 \<Rightarrow> 'a::len word" where
  "field_at n fs f m p = le_word (load_bytes (p + offsetof fs f) n m)"

definition stat_at :: "(u64 \<Rightarrow> u8) \<Rightarrow> u64 \<Rightarrow> stat" where
  "stat_at m p = \<lparr>st_dev = field_at 8 stat_fields ''st_dev'' m p, st_ino = field_at 8 stat_fields ''st_ino'' m p,
     st_mode = field_at 4 stat_fields ''st_mode'' m p, st_nlink = field_at 4 stat_fields ''st_nlink'' m p,
     st_uid = field_at 4 stat_fields ''st_uid'' m p, st_gid = field_at 4 stat_fields ''st_gid'' m p,
     st_rdev = field_at 8 stat_fields ''st_rdev'' m p, pad1 = field_at 8 stat_fields ''__pad1'' m p,
     st_size = field_at 8 stat_fields ''st_size'' m p, st_blksize = field_at 4 stat_fields ''st_blksize'' m p,
     pad2 = field_at 4 stat_fields ''__pad2'' m p, st_blocks = field_at 8 stat_fields ''st_blocks'' m p,
     st_atime = field_at 8 stat_fields ''st_atime'' m p, st_atime_nsec = field_at 8 stat_fields ''st_atime_nsec'' m p,
     st_mtime = field_at 8 stat_fields ''st_mtime'' m p, st_mtime_nsec = field_at 8 stat_fields ''st_mtime_nsec'' m p,
     st_ctime = field_at 8 stat_fields ''st_ctime'' m p, st_ctime_nsec = field_at 8 stat_fields ''st_ctime_nsec'' m p,
     unused4 = field_at 4 stat_fields ''__unused4'' m p, unused5 = field_at 4 stat_fields ''__unused5'' m p\<rparr>"

section \<open>The offsets in use\<close>

lemma bookeeping_size: "c_sizeof vring_bookeeping_fields = 12"
  by (simp add: c_sizeof_def vring_bookeeping_fields_def round_up_def numeral_2_eq_2 [symmetric])

lemma vring_layout:
  "map_of (c_offsets 0 vring_fields) ''desc'' = Some 40" "sizeof_vring = of_nat (c_sizeof vring_fields)"
  "vring_in m p = \<lparr>vr_num = field_at 4 vring_fields ''num'' m p, vr_size = field_at 8 vring_fields ''size'' m p,
     bouncebufs = field_at 8 vring_fields ''bouncebufs'' m p,
     bookeeping = (let q = p + offsetof vring_fields ''bookeeping''; fs = vring_bookeeping_fields in
       \<lparr>used_last = field_at 2 fs ''used_last'' m q, avail_next = field_at 2 fs ''avail_next'' m q,
        avail_avail = field_at 2 fs ''avail_avail'' m q, used_avail = field_at 2 fs ''used_avail'' m q,
        descr_head = field_at 2 fs ''descr_head'' m q, descr_next = field_at 2 fs ''descr_next'' m q\<rparr>),
     vr_desc = field_at 8 vring_fields ''desc'' m p, vr_avail = field_at 8 vring_fields ''avail'' m p,
     vr_used = field_at 8 vring_fields ''used'' m p\<rparr>"
  by (simp_all add: vring_in_def field_at_def offsetof_def vring_fields_def [unfolded bookeeping_size] vring_bookeeping_fields_def
    c_sizeof_def round_up_def sizeof_vring_def add.assoc)

lemma blk_hdr_layout:
  "c_sizeof virtio_blk_req_hdr_fields = 16" "offsetof virtio_blk_req_hdr_fields ''type'' = 0" "offsetof virtio_blk_req_hdr_fields ''sector'' = 8"
  by (simp_all add: c_sizeof_def offsetof_def virtio_blk_req_hdr_fields_def round_up_def)

lemma event_layout: "c_sizeof event_fields = 16" "offsetof event_fields ''id'' = 0"
  by (simp_all add: c_sizeof_def offsetof_def event_fields_def round_up_def)

lemma stat_layout: "c_sizeof stat_fields = 128"
  by (simp add: c_sizeof_def stat_fields_def round_up_def)

text \<open>Fields that do not overlap, by their offsets.\<close>

lemma load_other_offset:
  assumes "unat a + n \<le> unat b \<or> unat b + length bs \<le> unat a" and "unat a + n \<le> 2 ^ 64" and "unat b + length bs \<le> 2 ^ 64"
  shows "load_bytes (p + a) n (store_bytes (p + b) bs m) = load_bytes (p + a) n m"
proof -
  have "disjoint_ranges (p + of_nat (unat a)) n (p + of_nat (unat b)) (length bs)"
    using assms disjoint_offsets [of "unat a" n "unat b" "length bs" p]
      disjoint_offsets [of "unat b" "length bs" "unat a" n p] by (auto simp: disjoint_ranges_sym)
  then show ?thesis by (intro load_store_other) simp
qed

lemmas load_other_field = load_other_offset load_other_offset [where a = 0, simplified] load_other_offset [where b = 0, simplified]

lemma load_same_field: "length bs = n \<Longrightarrow> n \<le> 2 ^ 64 \<Longrightarrow> load_bytes p n (store_bytes p bs m) = bs"
  using load_store_same by blast

section \<open>Filling the structure\<close>

lemmas stat_offsets = stat_at_def field_at_def offsetof_def stat_fields_def round_up_def

definition stat_filled :: "u64 \<Rightarrow> (u64 \<Rightarrow> u8) \<Rightarrow> u64 \<Rightarrow> u8" where
  "stat_filled p m = store_bytes (p + 24) (le_bytes 4 (1 :: u32)) (store_bytes (p + 20) (le_bytes 4 (1 :: u32))
     (store_bytes (p + 8) (le_bytes 8 (7 :: u64)) (store_bytes p (le_bytes 8 (26 :: u64))
     (store_bytes (p + 64) (le_bytes 8 (0 :: u64)) (store_bytes (p + 56) (le_bytes 4 (1024 :: u32))
     (store_bytes (p + 16) (le_bytes 4 (0x2190 :: u32)) (store_bytes (p + 48) (le_bytes 8 (0 :: u64)) m)))))))"

lemma fstat_s_eq: "fstat_s fd p s = Ok 0 (s\<lparr>bus := (bus s)\<lparr>mem := stat_filled p (ram s)\<rparr>\<rparr>)"
  by (simp add: fstat_s_def stat_filled_def monad_simps)

lemma stat_filled_fields:
  "stat_at (stat_filled p m) p = (stat_at m p)\<lparr>st_dev := 26, st_ino := 7, st_mode := 0x2190, st_nlink := 1, st_uid := 1,
     st_size := 0, st_blksize := 1024, st_blocks := 0\<rparr>"
  by (simp add: stat_offsets stat_filled_def load_other_field load_same_field le_word_le_bytes)

lemma stat_filled_outside:
  assumes "128 \<le> unat (a - p)"
  shows "stat_filled p m a = m a"
proof -
  have "store_bytes (p + off) bs m' a = m' a" if "unat off + length bs \<le> 128" for off bs m'
    using that assms by (intro store_in_range [where n = 128]) simp_all
  from this this [of 0] show ?thesis by (simp add: stat_filled_def)
qed

text \<open>
  C21.  \<open>fstat\<close> fills the structure that the caller has declared: it always returns 0, sets exactly eight
  fields of the \<open>struct stat\<close> at the given address, as the layout of the declaration has them, and leaves its
  other fields and all memory outside its 128 bytes alone.
\<close>

theorem fstat_s_fills:
  "\<exists>t. fstat_s fd p s = Ok 0 t \<and> t = s\<lparr>bus := (bus s)\<lparr>mem := ram t\<rparr>\<rparr> \<and>
    stat_at (ram t) p = (stat_at (ram s) p)\<lparr>st_dev := 26, st_ino := 7, st_mode := 0x2190, st_nlink := 1, st_uid := 1,
      st_size := 0, st_blksize := 1024, st_blocks := 0\<rparr> \<and>
    {a. ram t a \<noteq> ram s a} \<subseteq> {a. unat (a - p) < c_sizeof stat_fields}"
proof -
  have "unat (a - p) < 128" if "stat_filled p (ram s) a \<noteq> ram s a" for a
  proof (rule ccontr)
    assume "\<not> unat (a - p) < 128"
    then have "stat_filled p (ram s) a = ram s a" by (intro stat_filled_outside) simp
    with that show False ..
  qed
  then have "{a. stat_filled p (ram s) a \<noteq> ram s a} \<subseteq> {a. unat (a - p) < 128}" by (rule Collect_mono [OF impI])
  then show ?thesis by (simp add: fstat_s_eq stat_filled_fields stat_layout)
qed

end
