(* ===== verification/Machine.thy ===== *)
theory Machine
  imports Kernel
begin

text \<open>
  The processor as far as the assembly of src/boot.S and src/strap.S uses it: the integer registers, the
  control and status registers of supervisor mode, traps and their return, and calls of C functions by the
  calling convention.  A program is a list of instructions; a forward branch skips some of those
  that follow.  Addresses that the linker gives to code and data are a parameter (\<open>symbols\<close>), and so
  is what compiled C code leaves in the registers that it need not preserve (\<open>clobber\<close>).
\<close>

section \<open>State\<close>

datatype csr = Stvec | Satp | Sepc | Scause | Stval | Sstatus | Sie

datatype privilege = User | Supervisor

record 'd cpu_state = "'d strap_state" +
  regs :: "nat \<Rightarrow> u64"
  csrs :: "csr \<Rightarrow> u64"
  pc :: u64
  mode :: privilege

record symbols =
  sym_trap_dispatch :: u64
  sym_trap_handlers :: u64
  sym_software_interrupt_handler :: u64
  sym_timer_interrupt_handler :: u64
  sym_system_call_dispatcher :: u64
  sym_sp :: u64
  sym_esp :: u64
  sym_brk_start :: u64
  sym_pgm :: u64
  sym_dl_random_bytes :: u64
  sym_start :: u64

record 'd platform =
  p_hw :: "'d hw"
  p_frame :: frame
  p_ld :: linker
  p_sym :: symbols
  p_randomness :: u64
  p_call :: "u64 \<Rightarrow> u64 \<Rightarrow> ('d cpu_state, unit) kernel_op"
  clobber :: "nat \<Rightarrow> u64"

text \<open>Register \<open>x0\<close> is always zero.\<close>

definition reg :: "nat \<Rightarrow> 'd cpu_state \<Rightarrow> u64" where
  "reg r s = (if r = 0 then 0 else regs s r)"

definition set_reg :: "nat \<Rightarrow> u64 \<Rightarrow> 'd cpu_state \<Rightarrow> 'd cpu_state" where
  "set_reg r v s = (if r = 0 then s else s\<lparr>regs := (regs s)(r := v)\<rparr>)"

definition set_csr :: "csr \<Rightarrow> u64 \<Rightarrow> 'd cpu_state \<Rightarrow> 'd cpu_state" where
  "set_csr c v s = s\<lparr>csrs := (csrs s)(c := v)\<rparr>"

definition load64 :: "u64 \<Rightarrow> (u64 \<Rightarrow> u8) \<Rightarrow> u64" where
  "load64 a m = le_word (load_bytes a 8 m)"

definition store64 :: "u64 \<Rightarrow> u64 \<Rightarrow> (u64 \<Rightarrow> u8) \<Rightarrow> u64 \<Rightarrow> u8" where
  "store64 a v m = store_bytes a (le_bytes 8 v) m"

definition set_ram :: "(u64 \<Rightarrow> u8) \<Rightarrow> 'd cpu_state \<Rightarrow> 'd cpu_state" where
  "set_ram m s = s\<lparr>bus := (bus s)\<lparr>mem := m\<rparr>\<rparr>"

section \<open>Instructions\<close>

text \<open>
  The offset of a load or store is in bytes.  \<open>Bne a b k\<close> and \<open>Beq a b k\<close> skip the next \<open>k\<close> instructions.
  \<open>La\<close> and \<open>Li\<close> load a constant; the constant of \<open>La\<close> is the address of a symbol.  A direct call names the C
  function.
\<close>

datatype c_function =
  C_set_brk_s | C_initialize_heap | C_configure_pci | C_configure_io | C_configure_syscall_handlers | C_configure_dl_random

datatype instr =
    Sd nat nat nat | Ld nat nat nat | Addi nat nat u64 | Add nat nat nat | Slli nat nat nat | Mv nat nat
  | Li nat u64 | La nat "symbols \<Rightarrow> u64" | Csrr nat csr | Csrw csr nat | Csrc csr nat | Csrs csr nat | Csrci csr u64
  | Bne nat nat nat | Beq nat nat nat | Jalr nat | Call c_function | Sret

text \<open>The registers that a C function need not preserve: \<open>ra\<close>, \<open>t0\<close> to \<open>t6\<close> and \<open>a0\<close> to \<open>a7\<close>.\<close>

definition caller_saved :: "nat list" where
  "caller_saved = [1, 5, 6, 7, 10, 11, 12, 13, 14, 15, 16, 17, 28, 29, 30, 31]"

definition c_return :: "'d platform \<Rightarrow> u64 option \<Rightarrow> ('d cpu_state, unit) kernel_op" where
  "c_return P r = mmodify (\<lambda>s. s\<lparr>regs := (\<lambda>i. if i \<in> set caller_saved
     then (case r of Some v \<Rightarrow> if i = 10 then v else clobber P i | None \<Rightarrow> clobber P i) else regs s i)\<rparr>)"

text \<open>
  A call through a register.  The dispatcher has eleven parameters: the first eight are in the
  registers \<open>a0\<close> to \<open>a7\<close>, the other three at the stack pointer.
\<close>

definition call_address :: "'d platform \<Rightarrow> u64 \<Rightarrow> ('d cpu_state, unit) kernel_op" where
  "call_address P a = (\<lambda>s.
     if a = 0 then Fault NullPointer s
     else if a = sym_system_call_dispatcher (p_sym P) then
       mbind (system_call_dispatcher (p_hw P) (p_frame P) (p_call P) (reg 14 s) (reg 15 s) (reg 16 s) (reg 17 s)
           (load64 (reg 2 s) (ram s)) (load64 (reg 2 s + 8) (ram s)) (load64 (reg 2 s + 16) (ram s)))
         (\<lambda>r. c_return P (Some r)) s
     else if a = sym_timer_interrupt_handler (p_sym P) then
       mthen (timer_interrupt_handler (p_hw P) (p_call P)) (c_return P None) s
     else if a = sym_software_interrupt_handler (p_sym P) then
       mbind software_interrupt_handler (\<lambda>r. c_return P (Some r)) s
     else Fault WildJump s)"

definition call_function :: "'d platform \<Rightarrow> c_function \<Rightarrow> ('d cpu_state, unit) kernel_op" where
  "call_function P f =
     (case f of
        C_set_brk_s \<Rightarrow> mbind (mgets (reg 10)) (\<lambda>a0. mbind (set_brk_s a0) (\<lambda>r. c_return P (Some r)))
      | C_initialize_heap \<Rightarrow> mthen (initialize_heap (p_ld P)) (c_return P None)
      | C_configure_pci \<Rightarrow> mthen (configure_pci (p_hw P) (p_ld P)) (c_return P None)
      | C_configure_io \<Rightarrow> mthen configure_io (c_return P None)
      | C_configure_syscall_handlers \<Rightarrow> mthen configure_syscall_handlers (c_return P None)
      | C_configure_dl_random \<Rightarrow> mthen (configure_dl_random (p_hw P) (p_frame P) (p_randomness P)) (c_return P None))"

section \<open>Traps\<close>

text \<open>
  Bits of \<open>sstatus\<close>: \<open>SIE\<close> (1) enables interrupts in supervisor mode, \<open>SPIE\<close> (5) and \<open>SPP\<close> (8) hold its value and
  the mode from before the trap.
\<close>

definition take_trap :: "u64 \<Rightarrow> u64 \<Rightarrow> 'd cpu_state \<Rightarrow> 'd cpu_state" where
  "take_trap cause tval s =
     (let st = csrs s Sstatus;
          st = (if bit st 1 then set_bit 5 st else unset_bit 5 st);
          st = (if mode s = Supervisor then set_bit 8 st else unset_bit 8 st) in
      s\<lparr>csrs := (csrs s)(Sepc := pc s, Scause := cause, Stval := tval, Sstatus := unset_bit 1 st),
        pc := csrs s Stvec, mode := Supervisor\<rparr>)"

definition sret :: "'d cpu_state \<Rightarrow> 'd cpu_state" where
  "sret s =
     (let st = csrs s Sstatus;
          st' = (if bit st 5 then set_bit 1 st else unset_bit 1 st) in
      s\<lparr>pc := csrs s Sepc, mode := (if bit st 8 then Supervisor else User),
        csrs := (csrs s)(Sstatus := unset_bit 8 (set_bit 5 st'))\<rparr>)"

section \<open>Execution\<close>

text \<open>The result of an instruction is the number of instructions to skip.\<close>

fun exec1 :: "'d platform \<Rightarrow> instr \<Rightarrow> ('d cpu_state, nat) kernel_op" where
  "exec1 P (Sd r off b) s = Ok 0 (set_ram (store64 (reg b s + of_nat off) (reg r s) (ram s)) s)"
| "exec1 P (Ld r off b) s = Ok 0 (set_reg r (load64 (reg b s + of_nat off) (ram s)) s)"
| "exec1 P (Addi r a i) s = Ok 0 (set_reg r (reg a s + i) s)"
| "exec1 P (Add r a b) s = Ok 0 (set_reg r (reg a s + reg b s) s)"
| "exec1 P (Slli r a k) s = Ok 0 (set_reg r (push_bit k (reg a s)) s)"
| "exec1 P (Mv r a) s = Ok 0 (set_reg r (reg a s) s)"
| "exec1 P (Li r i) s = Ok 0 (set_reg r i s)"
| "exec1 P (La r f) s = Ok 0 (set_reg r (f (p_sym P)) s)"
| "exec1 P (Csrr r c) s = Ok 0 (set_reg r (csrs s c) s)"
| "exec1 P (Csrw c r) s = Ok 0 (set_csr c (reg r s) s)"
| "exec1 P (Csrc c r) s = Ok 0 (set_csr c (csrs s c AND NOT (reg r s)) s)"
| "exec1 P (Csrs c r) s = Ok 0 (set_csr c (csrs s c OR reg r s) s)"
| "exec1 P (Csrci c i) s = Ok 0 (set_csr c (csrs s c AND NOT i) s)"
| "exec1 P (Bne a b k) s = Ok (if reg a s \<noteq> reg b s then k else 0) s"
| "exec1 P (Beq a b k) s = Ok (if reg a s = reg b s then k else 0) s"
| "exec1 P (Jalr r) s = mthen (call_address P (reg r s)) (mreturn 0) s"
| "exec1 P (Call f) s = mthen (call_function P f) (mreturn 0) s"
| "exec1 P Sret s = Ok 0 (sret s)"

function exec :: "'d platform \<Rightarrow> instr list \<Rightarrow> ('d cpu_state, unit) kernel_op" where
  "exec P [] s = Ok () s"
| "exec P (i # is) s = mbind (exec1 P i) (\<lambda>k. exec P (drop k is)) s"
  by pat_completeness auto
termination
  by (relation "measure (\<lambda>(P, is, s). length is)") auto

section \<open>Memory words\<close>

named_theorems machine_simps \<open>symbolic execution of instructions\<close>

lemma load_store64_same [machine_simps]: "load64 a (store64 a v m) = v"
  using load_store_same [of "le_bytes 8 v" a m] by (simp add: load64_def store64_def le_word_le_bytes)

lemma word_apart:
  fixes a b :: u64
  assumes "8 \<le> unat (a - b)" and "8 \<le> unat (b - a)"
  shows "disjoint_ranges a 8 b 8"
  unfolding disjoint_ranges_def
proof (intro allI impI notI)
  fix i j :: nat
  assume ij: "i < 8" "j < 8" and eq: "a + of_nat i = b + of_nat j"
  have small: "unat (of_nat k :: u64) = k" if "k < 8" for k using that by (intro unat_of_nat_small) simp
  show False
  proof (cases "i \<le> j")
    case True
    then have "a - b = of_nat (j - i)" using eq by (simp add: of_nat_diff algebra_simps)
    then show False using assms(1) small [of "j - i"] ij by simp
  next
    case False
    then have "b - a = of_nat (i - j)" using eq by (simp add: of_nat_diff algebra_simps)
    then show False using assms(2) small [of "i - j"] ij by simp
  qed
qed

lemma load_store64_other [machine_simps]:
  "8 \<le> unat (a - b) \<Longrightarrow> 8 \<le> unat (b - a) \<Longrightarrow> load64 a (store64 b v m) = load64 a m"
  using load_store_other [of a 8 b "le_bytes 8 v" m] by (simp add: load64_def store64_def word_apart)

lemma store64_outside: "8 \<le> unat (a - b) \<Longrightarrow> store64 b v m a = m a"
  by (simp add: store64_def store_bytes_def)

section \<open>Registers\<close>

lemma reg_0 [machine_simps]: "reg 0 s = 0"
  by (simp add: reg_def)

lemma reg_set_reg [machine_simps]: "reg r (set_reg q v s) = (if r = q \<and> q \<noteq> 0 then v else reg r s)"
  by (simp add: reg_def set_reg_def)

lemma reg_other [machine_simps]: "reg r (set_ram m s) = reg r s" "reg r (set_csr c v s) = reg r s" "reg r (sret s) = reg r s"
  by (simp_all add: reg_def set_ram_def set_csr_def sret_def Let_def)

lemma ram_other [machine_simps]: "ram (set_ram m s) = m" "ram (set_reg r v s) = ram s" "ram (set_csr c v s) = ram s"
  "ram (sret s) = ram s"
  by (simp_all add: set_ram_def set_reg_def set_csr_def sret_def Let_def)

lemma csrs_other [machine_simps]: "csrs (set_ram m s) = csrs s" "csrs (set_reg r v s) = csrs s"
  "csrs (set_csr c v s) = (csrs s)(c := v)"
  by (simp_all add: set_ram_def set_reg_def set_csr_def)

section \<open>Running programs\<close>

lemma exec_Ok: "exec1 P i s = Ok k t \<Longrightarrow> exec P (i # is) s = exec P (drop k is) t"
  by (simp add: monad_simps)

lemma exec_Fault: "exec1 P i s = Fault e t \<Longrightarrow> exec P (i # is) s = Fault e t"
  by (simp add: monad_simps)

declare exec.simps(2) [simp del]

text \<open>Instructions that neither branch nor call.\<close>

fun plain :: "instr \<Rightarrow> bool" where
  "plain (Bne a b k) \<longleftrightarrow> False"
| "plain (Beq a b k) \<longleftrightarrow> False"
| "plain (Jalr r) \<longleftrightarrow> False"
| "plain (Call f) \<longleftrightarrow> False"
| "plain i \<longleftrightarrow> True"

definition effect :: "'d platform \<Rightarrow> instr \<Rightarrow> 'd cpu_state \<Rightarrow> 'd cpu_state" where
  "effect P i s = (case exec1 P i s of Ok k t \<Rightarrow> t | Fault e t \<Rightarrow> t)"

lemma exec_plain: "list_all plain is \<Longrightarrow> exec P (is @ js) s = exec P js (fold (effect P) is s)"
proof (induction "is" arbitrary: s)
  case (Cons i "is")
  have "exec1 P i s = Ok 0 (effect P i s)" using Cons.prems by (cases i) (simp_all add: effect_def)
  then show ?case using Cons by (simp add: exec_Ok)
qed simp

lemma effect_simps [machine_simps]:
  "effect P (Sd r off b) s = set_ram (store64 (reg b s + of_nat off) (reg r s) (ram s)) s"
  "effect P (Ld r off b) s = set_reg r (load64 (reg b s + of_nat off) (ram s)) s"
  "effect P (Addi r a i) s = set_reg r (reg a s + i) s"
  "effect P (Add r a b) s = set_reg r (reg a s + reg b s) s"
  "effect P (Slli r a k) s = set_reg r (push_bit k (reg a s)) s"
  "effect P (Mv r a) s = set_reg r (reg a s) s"
  "effect P (Li r i) s = set_reg r i s"
  "effect P (La r f) s = set_reg r (f (p_sym P)) s"
  "effect P (Csrr r c) s = set_reg r (csrs s c) s"
  "effect P (Csrw c r) s = set_csr c (reg r s) s"
  "effect P (Csrc c r) s = set_csr c (csrs s c AND NOT (reg r s)) s"
  "effect P (Csrs c r) s = set_csr c (csrs s c OR reg r s) s"
  "effect P (Csrci c n) s = set_csr c (csrs s c AND NOT n) s"
  "effect P Sret s = sret s"
  by (simp_all add: effect_def)

end
