(* ===== verification/Trap.thy ===== *)
theory Trap
  imports Machine
begin

text \<open>
  Entry and exit of traps (src/strap.S): \<open>_trap_dispatch\<close> saves all registers in a frame on the stack of whatever
  was interrupted, calls the handler that the table \<open>_trap_handlers\<close> has for the cause, restores the
  registers and returns.  The macros of the source are definitions of their own.
\<close>

section \<open>The code\<close>

definition allocate_stack :: "nat \<Rightarrow> instr list" where
  "allocate_stack n = [Addi 2 2 (- of_nat n)]"

definition deallocate_stack :: "nat \<Rightarrow> instr list" where
  "deallocate_stack n = [Addi 2 2 (of_nat n)]"

definition push_registers :: "instr list" where
  "push_registers = map (\<lambda>i. Sd i (i * 8) 2) [1..<32]"

definition get_push_trap_registers :: "nat \<Rightarrow> nat \<Rightarrow> nat \<Rightarrow> instr list" where
  "get_push_trap_registers scause sepc stval =
     [Csrr scause Scause, Sd scause (32 * 8) 2, Csrr sepc Sepc, Sd sepc (33 * 8) 2, Csrr stval Stval, Sd stval (34 * 8) 2]"

definition load_trap_handler_address :: "nat \<Rightarrow> nat \<Rightarrow> instr list" where
  "load_trap_handler_address into trap =
     [La into sym_trap_handlers, Slli trap trap 3, Add into into trap, Ld into 0 into]"

definition trap_entry :: "instr list" where
  "trap_entry = allocate_stack (43 * 8) @ push_registers @ get_push_trap_registers 5 6 7 @
     [Sd 17 (35 * 8) 2, Sd 10 (36 * 8) 2, Sd 11 (37 * 8) 2, Sd 12 (38 * 8) 2, Sd 13 (39 * 8) 2, Sd 14 (40 * 8) 2,
      Sd 15 (41 * 8) 2, Sd 2 (42 * 8) 2] @ load_trap_handler_address 31 5 @
     [Csrr 10 Sstatus, Ld 11 (33 * 8) 2, Ld 12 (34 * 8) 2, Ld 13 (42 * 8) 2, Ld 14 (35 * 8) 2, Ld 15 (36 * 8) 2,
      Ld 16 (37 * 8) 2, Ld 17 (38 * 8) 2]"

definition trap_exit :: "instr list" where
  "trap_exit = [Ld 6 (33 * 8) 2, Li 31 8, Ld 30 (32 * 8) 2, Bne 30 31 1, Addi 6 6 4, Csrw Sepc 6] @
     map (\<lambda>i. Ld i (i * 8) 2) [1..<10] @ [Beq 30 31 2, Ld 10 (10 * 8) 2, Ld 11 (11 * 8) 2] @
     map (\<lambda>i. Ld i (i * 8) 2) [12..<32] @ deallocate_stack (43 * 8) @ [Sret]"

definition trap_dispatch :: "'d platform \<Rightarrow> ('d cpu_state, unit) kernel_op" where
  "trap_dispatch P = exec P (trap_entry @ Jalr 31 # trap_exit)"

text \<open>The table of handlers in the data section.\<close>

definition trap_handlers :: "symbols \<Rightarrow> u64 list" where
  "trap_handlers sy = [0, sym_software_interrupt_handler sy, 0, 0, 0, sym_timer_interrupt_handler sy, 0, 0,
     sym_system_call_dispatcher sy]"

lemma registers_upt:
  "[1..<32] = [1, 2, 3, 4, 5, 6, 7, 8, 9, 10, 11, 12, 13, 14, 15, 16, 17, 18, 19, 20, 21, 22, 23, 24, 25, 26, 27, 28, 29, 30, 31]"
  "[1..<10] = [1, 2, 3, 4, 5, 6, 7, 8, 9]"
  "[12..<32] = [12, 13, 14, 15, 16, 17, 18, 19, 20, 21, 22, 23, 24, 25, 26, 27, 28, 29, 30, 31]"
  by code_simp+

section \<open>The frame\<close>

abbreviation frame_base :: "'d cpu_state \<Rightarrow> u64" where
  "frame_base s \<equiv> reg 2 s - 344"

definition trap_frame :: "'d cpu_state \<Rightarrow> (nat \<times> u64) list" where
  "trap_frame s = map (\<lambda>i. (i, if i = 2 then frame_base s else reg i s)) [1..<32] @
     [(32, csrs s Scause), (33, csrs s Sepc), (34, csrs s Stval), (35, reg 17 s), (36, reg 10 s), (37, reg 11 s),
      (38, reg 12 s), (39, reg 13 s), (40, reg 14 s), (41, reg 15 s), (42, frame_base s)]"

definition store_slots :: "u64 \<Rightarrow> (nat \<times> u64) list \<Rightarrow> (u64 \<Rightarrow> u8) \<Rightarrow> u64 \<Rightarrow> u8" where
  "store_slots b xs m = fold (\<lambda>(i, v). store64 (b + of_nat (i * 8)) v) xs m"

lemma load_other_slot:
  assumes "i \<noteq> j" "i < 43" "j < 43"
  shows "load64 (b + of_nat (i * 8)) (store64 (b + of_nat (j * 8)) v m) = load64 (b + of_nat (i * 8)) m"
proof -
  have "disjoint_ranges (b + of_nat (i * 8)) 8 (b + of_nat (j * 8)) 8"
  proof (cases "i < j")
    case True
    then show ?thesis using assms by (intro disjoint_offsets) simp_all
  next
    case False
    then show ?thesis using assms by (subst disjoint_ranges_sym, intro disjoint_offsets) simp_all
  qed
  then show ?thesis by (simp add: load64_def store64_def load_store_other)
qed

lemma load_slot_other:
  "i \<notin> fst ` set xs \<Longrightarrow> i < 43 \<Longrightarrow> \<forall>(j, v) \<in> set xs. j < 43 \<Longrightarrow>
   load64 (b + of_nat (i * 8)) (store_slots b xs m) = load64 (b + of_nat (i * 8)) m"
proof (induction xs arbitrary: m)
  case (Cons x xs)
  obtain j v where x: "x = (j, v)" by fastforce
  show ?case using Cons by (simp add: x store_slots_def load_other_slot del: of_nat_mult)
qed (simp add: store_slots_def)

lemma load_slot:
  "(i, v) \<in> set xs \<Longrightarrow> distinct (map fst xs) \<Longrightarrow> \<forall>(j, v) \<in> set xs. j < 43 \<Longrightarrow>
   load64 (b + of_nat (i * 8)) (store_slots b xs m) = v"
proof (induction xs arbitrary: m)
  case (Cons x xs)
  obtain j w where x: "x = (j, w)" by fastforce
  show ?case
  proof (cases "(i, v) \<in> set xs")
    case True
    then show ?thesis using Cons by (simp add: x store_slots_def)
  next
    case False
    then have v: "i = j" "v = w" using Cons.prems(1) by (auto simp: x)
    have "i \<notin> fst ` set xs" "i < 43" "\<forall>(j, v) \<in> set xs. j < 43" using Cons.prems by (auto simp: x v)
    from load_slot_other [OF this, of b "store64 (b + of_nat (j * 8)) w m"]
    show ?thesis by (simp add: x v load_store64_same) (simp add: store_slots_def load_store64_same)
  qed
qed simp

lemma store_slots_outside:
  "n * 8 \<le> unat (a - b) \<Longrightarrow> \<forall>(j, v) \<in> set xs. j < n \<Longrightarrow> store_slots b xs m a = m a"
proof (induction xs arbitrary: m)
  case (Cons x xs)
  obtain j w where x: "x = (j, w)" by fastforce
  have j: "j < n" using Cons.prems by (simp add: x)
  have "store64 (b + of_nat (j * 8)) w m a = m a"
    unfolding store64_def
  proof (rule store_bytes_outside)
    fix k assume "k < length (le_bytes 8 w)"
    then have k: "j * 8 + k < n * 8" using j by simp
    also have "\<dots> < 2 ^ 64" using Cons.prems(1) unat_u64_less [of "a - b"] by simp
    finally have "unat (of_nat (j * 8 + k) :: u64) = j * 8 + k" by (intro unat_of_nat_small) simp
    moreover have "a - b = of_nat (j * 8 + k)" if "a = b + of_nat (j * 8) + of_nat k" using that by simp
    ultimately show "a \<noteq> b + of_nat (j * 8) + of_nat k" using Cons.prems(1) k by auto
  qed
  then show ?case using Cons by (simp add: x store_slots_def)
qed (simp add: store_slots_def)

lemma trap_frame_slots: "distinct (map fst (trap_frame s))" "\<forall>(j, v) \<in> set (trap_frame s). j < 43"
  by (simp_all add: trap_frame_def comp_def)

section \<open>Entry\<close>

definition entered :: "'d platform \<Rightarrow> 'd cpu_state \<Rightarrow> 'd cpu_state" where
  "entered P s = fold (effect P) trap_entry s"

lemma plain_entry: "list_all plain trap_entry"
  unfolding trap_entry_def allocate_stack_def push_registers_def get_push_trap_registers_def
    load_trap_handler_address_def registers_upt by simp

lemma exec_entry: "trap_dispatch P s = exec P (Jalr 31 # trap_exit) (entered P s)"
  unfolding trap_dispatch_def entered_def by (rule exec_plain [OF plain_entry])

text \<open>Entry saves first, and loads handler and arguments then.\<close>

definition entry_save :: "instr list" where
  "entry_save = allocate_stack (43 * 8) @ push_registers @ get_push_trap_registers 5 6 7 @
     [Sd 17 (35 * 8) 2, Sd 10 (36 * 8) 2, Sd 11 (37 * 8) 2, Sd 12 (38 * 8) 2, Sd 13 (39 * 8) 2, Sd 14 (40 * 8) 2,
      Sd 15 (41 * 8) 2, Sd 2 (42 * 8) 2]"

definition entry_args :: "instr list" where
  "entry_args = load_trap_handler_address 31 5 @
     [Csrr 10 Sstatus, Ld 11 (33 * 8) 2, Ld 12 (34 * 8) 2, Ld 13 (42 * 8) 2, Ld 14 (35 * 8) 2, Ld 15 (36 * 8) 2,
      Ld 16 (37 * 8) 2, Ld 17 (38 * 8) 2]"

lemma entered_split: "entered P s = fold (effect P) entry_args (fold (effect P) entry_save s)"
  by (simp add: entered_def trap_entry_def entry_save_def entry_args_def)

lemma saved:
  "ram (fold (effect P) entry_save s) = store_slots (frame_base s) (trap_frame s) (ram s)"
  "reg r (fold (effect P) entry_save s) = (if r = 2 then frame_base s else if r = 5 then csrs s Scause
     else if r = 6 then csrs s Sepc else if r = 7 then csrs s Stval else reg r s)"
  "csrs (fold (effect P) entry_save s) = csrs s"
  unfolding entry_save_def allocate_stack_def push_registers_def get_push_trap_registers_def registers_upt
    trap_frame_def store_slots_def by (simp_all add: machine_simps)

lemma entered_ram: "ram (entered P s) = store_slots (frame_base s) (trap_frame s) (ram s)"
  unfolding entered_split entry_args_def load_trap_handler_address_def by (simp add: machine_simps saved)

lemma entered_csrs: "csrs (entered P s) = csrs s"
  unfolding entered_split entry_args_def load_trap_handler_address_def by (simp add: machine_simps saved)

lemma frame_slot:
  assumes "(i, v) \<in> set (trap_frame s)"
  shows "load64 (frame_base s + of_nat (i * 8)) (store_slots (frame_base s) (trap_frame s) m) = v"
  using load_slot [OF assms trap_frame_slots] .

lemma entered_reg:
  "reg 2 (entered P s) = frame_base s" "reg 14 (entered P s) = reg 17 s" "reg 15 (entered P s) = reg 10 s"
  "reg 16 (entered P s) = reg 11 s" "reg 17 (entered P s) = reg 12 s"
  "reg 31 (entered P s) = load64 (sym_trap_handlers (p_sym P) + push_bit 3 (csrs s Scause))
     (store_slots (frame_base s) (trap_frame s) (ram s))"
  unfolding entered_split entry_args_def load_trap_handler_address_def
  using frame_slot [of 35 "reg 17 s" s "ram s"] frame_slot [of 36 "reg 10 s" s "ram s"] frame_slot [of 37 "reg 11 s" s "ram s"]
    frame_slot [of 38 "reg 12 s" s "ram s"]
  by (simp_all add: machine_simps saved trap_frame_def)

lemma entered_other: "r \<in> {3, 4, 8, 9} \<union> {18..27} \<Longrightarrow> reg r (entered P s) = reg r s"
  unfolding entered_split entry_args_def load_trap_handler_address_def by (auto simp add: machine_simps saved)

section \<open>Exit\<close>

text \<open>Changes of the processor only.\<close>

definition cpu_only :: "'d cpu_state \<Rightarrow> 'd cpu_state \<Rightarrow> bool" where
  "cpu_only s t \<longleftrightarrow> t = s\<lparr>regs := regs t, csrs := csrs t, pc := pc t, mode := mode t\<rparr>"

lemma cpu_only_trans: "cpu_only s t \<Longrightarrow> cpu_only t u \<Longrightarrow> cpu_only s u"
  by (cases s; cases t; cases u) (simp add: cpu_only_def)

lemma cpu_only_effect: "list_all (\<lambda>i. plain i \<and> (\<forall>r off b. i \<noteq> Sd r off b)) is \<Longrightarrow> cpu_only s (fold (effect P) is s)"
proof (induction "is" arbitrary: s)
  case (Cons i "is")
  have "cpu_only s (effect P i s)"
    using Cons.prems by (cases i) (simp_all add: effect_simps cpu_only_def set_reg_def set_csr_def sret_def Let_def)
  then show ?case using Cons by (auto intro: cpu_only_trans)
qed (simp add: cpu_only_def)

text \<open>Reloading registers from the frame.\<close>

definition reload :: "nat list \<Rightarrow> instr list" where
  "reload is = map (\<lambda>i. Ld i (i * 8) 2) is"

lemma reload_rest:
  "csrs (fold (effect P) (reload is) s) = csrs s" "ram (fold (effect P) (reload is) s) = ram s"
  "pc (fold (effect P) (reload is) s) = pc s" "mode (fold (effect P) (reload is) s) = mode s"
  by (induction "is" arbitrary: s) (simp_all add: reload_def machine_simps, simp_all add: set_reg_def)

lemma reload_reg:
  assumes "0 \<notin> set is" and "reg 2 s = b" and "\<forall>i \<in> set is. load64 (b + of_nat (i * 8)) (ram s) = f i" and "f 2 = b"
  shows "reg r (fold (effect P) (reload is) s) = (if r \<in> set is then f r else reg r s)"
  using assms
proof (induction "is" arbitrary: s)
  case (Cons i "is")
  have e: "effect P (Ld i (i * 8) 2) s = set_reg i (f i) s" using Cons.prems by (simp add: effect_simps)
  have "reg 2 (set_reg i (f i) s) = b" using Cons.prems by (auto simp: machine_simps)
  moreover have "\<forall>j \<in> set is. load64 (b + of_nat (j * 8)) (ram (set_reg i (f i) s)) = f j"
    using Cons.prems(3) by (simp add: machine_simps)
  ultimately have "reg r (fold (effect P) (reload is) (set_reg i (f i) s)) =
      (if r \<in> set is then f r else reg r (set_reg i (f i) s))"
    using Cons.IH [of "set_reg i (f i) s"] Cons.prems by simp
  then show ?case
    using Cons.prems(1) by (auto simp: reload_def e reg_set_reg simp del: of_nat_mult)
qed (simp add: reload_def)

lemma plain_reload: "list_all plain (reload is)"
  by (simp add: reload_def list_all_length)

lemma trap_exit_parts:
  "trap_exit = [Ld 6 (33 * 8) 2, Li 31 8, Ld 30 (32 * 8) 2] @ Bne 30 31 1 # Addi 6 6 4 # [Csrw Sepc 6] @ reload [1..<10] @
     Beq 30 31 2 # reload [10, 11] @ reload [12..<32] @ [Addi 2 2 344, Sret]"
  by (simp add: trap_exit_def reload_def deallocate_stack_def)

text \<open>What comes back from a handler for the trap that was entered in state \<open>s\<close>: the frame is where it was.\<close>

definition frame_intact :: "'d cpu_state \<Rightarrow> 'd cpu_state \<Rightarrow> bool" where
  "frame_intact s t \<longleftrightarrow> reg 2 t = frame_base s \<and>
     (\<forall>(i, v) \<in> set (trap_frame s). load64 (frame_base s + of_nat (i * 8)) (ram t) = v)"

definition resume_pc :: "'d cpu_state \<Rightarrow> u64" where
  "resume_pc s = csrs s Sepc + (if csrs s Scause = 8 then 4 else 0)"

text \<open>The registers that hold the result of a system call.\<close>

definition result_regs :: "'d cpu_state \<Rightarrow> nat set" where
  "result_regs s = (if csrs s Scause = 8 then {10, 11} else {})"

lemma in_frame: "i \<in> {1..<32} \<Longrightarrow> (i, if i = 2 then frame_base s else reg i s) \<in> set (trap_frame s)"
  by (simp add: trap_frame_def image_iff)

lemma exit_first:
  fixes P :: "'d platform"
  assumes "frame_intact s t"
  defines "u \<equiv> fold (effect P) [Ld 6 (33 * 8) 2, Li 31 8, Ld 30 (32 * 8) 2] t"
  shows "exec P trap_exit t = exec P (reload [1..<10] @ Beq 30 31 2 # reload [10, 11] @ reload [12..<32] @ [Addi 2 2 344, Sret])
      (set_csr Sepc (resume_pc s) (set_reg 6 (resume_pc s) u))"
    and "reg r u = (if r = 6 then csrs s Sepc else if r = 31 then 8 else if r = 30 then csrs s Scause else reg r t)"
    and "csrs u = csrs t" and "ram u = ram t" and "cpu_only t u"
proof -
  have b: "reg 2 t = frame_base s" and l: "load64 (frame_base s + 264) (ram t) = csrs s Sepc"
    "load64 (frame_base s + 256) (ram t) = csrs s Scause"
    using assms(1) by (auto simp: frame_intact_def trap_frame_def)
  show r: "reg r u = (if r = 6 then csrs s Sepc else if r = 31 then 8 else if r = 30 then csrs s Scause else reg r t)" for r
    unfolding u_def using l by (simp add: machine_simps b)
  show "csrs u = csrs t" "ram u = ram t" unfolding u_def by (simp_all add: machine_simps)
  show "cpu_only t u" unfolding u_def by (rule cpu_only_effect) simp
  let ?tail = "reload [1..<10] @ Beq 30 31 2 # reload [10, 11] @ reload [12..<32] @ [Addi 2 2 344, Sret]"
  have "exec P trap_exit t = exec P (Bne 30 31 1 # Addi 6 6 4 # [Csrw Sepc 6] @ ?tail) u"
    unfolding trap_exit_parts u_def by (rule exec_plain) simp
  also have "\<dots> = exec P ?tail (set_csr Sepc (resume_pc s) (set_reg 6 (resume_pc s) u))"
  proof (cases "csrs s Scause = 8")
    case True
    then have "exec P (Bne 30 31 1 # Addi 6 6 4 # [Csrw Sepc 6] @ ?tail) u = exec P ([Addi 6 6 4, Csrw Sepc 6] @ ?tail) u"
      by (simp add: exec_Ok r)
    also have "\<dots> = exec P ?tail (fold (effect P) [Addi 6 6 4, Csrw Sepc 6] u)" by (rule exec_plain) simp
    finally show ?thesis using True by (simp add: machine_simps r resume_pc_def)
  next
    case False
    have "set_reg 6 (csrs s Sepc) u = u" using r [of 6] by (cases u) (simp add: set_reg_def reg_def fun_upd_idem)
    moreover have "exec P (Bne 30 31 1 # Addi 6 6 4 # [Csrw Sepc 6] @ ?tail) u = exec P ([Csrw Sepc 6] @ ?tail) u"
      using False by (simp add: exec_Ok r)
    moreover have "\<dots> = exec P ?tail (fold (effect P) [Csrw Sepc 6] u)" by (rule exec_plain) simp
    ultimately show ?thesis using False by (simp add: machine_simps r resume_pc_def)
  qed
  finally show "exec P trap_exit t = exec P ?tail (set_csr Sepc (resume_pc s) (set_reg 6 (resume_pc s) u))" .
qed

lemma exit_rest:
  fixes P :: "'d platform" and s v :: "'d cpu_state"
  defines "w \<equiv> fold (effect P) (reload [1..<10]) v"
  defines "x \<equiv> fold (effect P) (reload ((if csrs s Scause = 8 then [] else [10, 11]) @ [12..<32])) w"
  assumes v: "frame_intact s v" and "reg 30 v = csrs s Scause" "reg 31 v = 8"
  shows "exec P (reload [1..<10] @ Beq 30 31 2 # reload [10, 11] @ reload [12..<32] @ [Addi 2 2 344, Sret]) v =
      Ok () (sret (set_reg 2 (reg 2 s) x))"
    and "reg r (sret (set_reg 2 (reg 2 s) x)) = (if r \<in> {1..<32} - result_regs s then reg r s else reg r v)"
    and "csrs x = csrs v" and "cpu_only v x"
proof -
  let ?f = "\<lambda>i. if i = 2 then frame_base s else reg i s"
  have b: "reg 2 v = frame_base s" using v by (simp add: frame_intact_def)
  have l: "load64 (frame_base s + of_nat (i * 8)) (ram v) = ?f i" if "i \<in> {1..<32}" for i
    using v in_frame [OF that, of s] by (auto simp: frame_intact_def)
  have w: "reg r w = (if r \<in> set [1..<10] then ?f r else reg r v)" for r
    unfolding w_def by (rule reload_reg [OF _ b]) (use l in \<open>auto simp del: of_nat_mult\<close>)
  have wr: "csrs w = csrs v" "ram w = ram v" unfolding w_def by (simp_all add: reload_rest)
  let ?is = "(if csrs s Scause = 8 then [] else [10, 11]) @ [12..<32]"
  have "set ?is \<subseteq> {1..<32}" by auto
  then have "\<forall>i \<in> set ?is. load64 (frame_base s + of_nat (i * 8)) (ram w) = ?f i" unfolding wr using l by blast
  then have x: "reg r x = (if r \<in> set ?is then ?f r else reg r w)" for r
    unfolding x_def by (intro reload_reg [where b = "frame_base s"]) (simp_all add: w)
  show "csrs x = csrs v" unfolding x_def by (simp add: reload_rest wr)
  have "cpu_only t (fold (effect P) (reload is) t)" for "is" and t :: "'d cpu_state"
    by (rule cpu_only_effect) (simp add: reload_def list_all_length)
  then show "cpu_only v x" unfolding x_def w_def by (blast intro: cpu_only_trans)
  have "exec P (reload [1..<10] @ Beq 30 31 2 # reload [10, 11] @ reload [12..<32] @ [Addi 2 2 344, Sret]) v =
      exec P (Beq 30 31 2 # reload [10, 11] @ reload [12..<32] @ [Addi 2 2 344, Sret]) w"
    unfolding w_def by (rule exec_plain [OF plain_reload])
  also have "\<dots> = exec P (drop (if csrs s Scause = 8 then 2 else 0) (reload [10, 11] @ reload [12..<32] @ [Addi 2 2 344, Sret])) w"
    using assms(4,5) w [of 30] w [of 31] by (intro exec_Ok) (simp del: upt_rec_numeral)
  also have "\<dots> = exec P (reload ?is @ [Addi 2 2 344, Sret]) w" by (simp add: reload_def del: upt_rec_numeral)
  also have "\<dots> = exec P [Addi 2 2 344, Sret] x" unfolding x_def by (rule exec_plain [OF plain_reload])
  also have "\<dots> = Ok () (sret (set_reg 2 (reg 2 s) x))"
    using exec_plain [of "[Addi 2 2 344, Sret]" P "[]" x] x [of 2] w [of 2] by (simp add: machine_simps del: upt_rec_numeral)
  finally show "exec P (reload [1..<10] @ Beq 30 31 2 # reload [10, 11] @ reload [12..<32] @ [Addi 2 2 344, Sret]) v =
      Ok () (sret (set_reg 2 (reg 2 s) x))" .
  show "reg r (sret (set_reg 2 (reg 2 s) x)) = (if r \<in> {1..<32} - result_regs s then reg r s else reg r v)"
    using x [of r] w [of r] by (auto simp: machine_simps result_regs_def simp del: upt_rec_numeral)
qed

lemma exit_run:
  assumes "frame_intact s t"
  shows "\<exists>u. exec P trap_exit t = Ok () u \<and> cpu_only t u \<and>
    (\<forall>r. reg r u = (if r \<in> {1..<32} - result_regs s then reg r s else reg r t)) \<and> pc u = resume_pc s \<and>
    mode u = (if bit (csrs t Sstatus) 8 then Supervisor else User) \<and>
    csrs u = csrs (sret (set_csr Sepc (resume_pc s) t))"
proof -
  note f = exit_first [OF assms, where P = P]
  let ?u = "fold (effect P) [Ld 6 (33 * 8) 2, Li 31 8, Ld 30 (32 * 8) 2] t"
  let ?v = "set_csr Sepc (resume_pc s) (set_reg 6 (resume_pc s) ?u)"
  let ?w = "fold (effect P) (reload [1..<10]) ?v"
  let ?x = "fold (effect P) (reload ((if csrs s Scause = 8 then [] else [10, 11]) @ [12..<32])) ?w"
  have "frame_intact s ?v" using assms f(2,4) by (simp add: frame_intact_def reg_set_reg reg_other ram_other del: fold_simps)
  moreover have "reg 30 ?v = csrs s Scause" "reg 31 ?v = 8" using f(2) by (simp_all add: reg_set_reg reg_other del: fold_simps)
  ultimately have x: "exec P trap_exit t = Ok () (sret (set_reg 2 (reg 2 s) ?x))"
    "\<And>r. reg r (sret (set_reg 2 (reg 2 s) ?x)) = (if r \<in> {1..<32} - result_regs s then reg r s else reg r ?v)"
    "csrs ?x = csrs ?v" "cpu_only ?v ?x"
    using exit_rest [where s = s and v = ?v and P = P] f(1) by (simp_all only:)
  have "cpu_only ?u ?v" "cpu_only ?x (sret (set_reg 2 (reg 2 s) ?x))"
    by (simp_all add: cpu_only_def set_csr_def set_reg_def sret_def Let_def del: fold_simps)
  then have only: "cpu_only t (sret (set_reg 2 (reg 2 s) ?x))" using f(5) x(4) by (blast intro: cpu_only_trans)
  define y where "y = set_reg 2 (reg 2 s) ?x"
  have c: "csrs y = (csrs t)(Sepc := resume_pc s)"
    unfolding y_def using x(3) f(3) by (simp add: csrs_other del: fold_simps)
  have "reg r ?v = reg r t" if "r \<notin> {1..<32} - result_regs s" for r
    using that f(2) [of r] by (auto simp: reg_set_reg reg_other result_regs_def split: if_splits simp del: fold_simps)
  with x(2) [folded y_def] have "reg r (sret y) = (if r \<in> {1..<32} - result_regs s then reg r s else reg r t)" for r
    by (simp del: fold_simps)
  with x(1) [folded y_def] only [folded y_def] show ?thesis
    using c by (intro exI [of _ "sret y"]) (simp add: sret_def Let_def set_csr_def)
qed

section \<open>Traps as the program sees them\<close>

text \<open>The processor goes to the address in \<open>stvec\<close>, where the code of this theory has to be.\<close>

definition trap :: "'d platform \<Rightarrow> u64 \<Rightarrow> u64 \<Rightarrow> ('d cpu_state, unit) kernel_op" where
  "trap P cause tval = (\<lambda>s.
     if csrs s Stvec = sym_trap_dispatch (p_sym P) then trap_dispatch P (take_trap cause tval s) else Fault WildJump s)"

lemma take_trap_simps [simp]:
  "regs (take_trap c v s) = regs s" "reg r (take_trap c v s) = reg r s" "ram (take_trap c v s) = ram s" "bus (take_trap c v s) = bus s"
  "csrs (take_trap c v s) Scause = c" "csrs (take_trap c v s) Sepc = pc s" "csrs (take_trap c v s) Stval = v"
  "bit (csrs (take_trap c v s) Sstatus) 8 \<longleftrightarrow> mode s = Supervisor"
  "bit (csrs (take_trap c v s) Sstatus) 5 \<longleftrightarrow> bit (csrs s Sstatus) 1"
  by (simp_all add: take_trap_def reg_def Let_def bit_simps)

lemma take_trap_kernel [simp]:
  "kernel_ok (take_trap c v s) = kernel_ok s"
  by (simp add: take_trap_def kernel_ok_def fds_ok_def no_deferred_def Let_def)

definition regs_ram_only :: "'d cpu_state \<Rightarrow> 'd cpu_state \<Rightarrow> bool" where
  "regs_ram_only s t \<longleftrightarrow> t = s\<lparr>bus := (bus s)\<lparr>mem := ram t\<rparr>, regs := regs t\<rparr>"

fun no_csr_write :: "instr \<Rightarrow> bool" where
  "no_csr_write (Csrw c r) \<longleftrightarrow> False"
| "no_csr_write (Csrs c r) \<longleftrightarrow> False"
| "no_csr_write (Csrc c r) \<longleftrightarrow> False"
| "no_csr_write (Csrci c n) \<longleftrightarrow> False"
| "no_csr_write Sret \<longleftrightarrow> False"
| "no_csr_write i \<longleftrightarrow> plain i"

lemma regs_ram_only_trans: "regs_ram_only s t \<Longrightarrow> regs_ram_only t u \<Longrightarrow> regs_ram_only s u"
  by (cases s; cases t; cases u; cases "bus s"; cases "bus t"; cases "bus u") (simp add: regs_ram_only_def)

lemma regs_ram_only_fold: "list_all no_csr_write is \<Longrightarrow> regs_ram_only s (fold (effect P) is s)"
proof (induction "is" arbitrary: s)
  case (Cons i "is")
  have "regs_ram_only s (effect P i s)"
    using Cons.prems by (cases i) (simp_all add: effect_simps regs_ram_only_def set_reg_def set_ram_def)
  then show ?case using Cons by (auto intro: regs_ram_only_trans)
qed (simp add: regs_ram_only_def)

lemma entered_eq: "entered P s = s\<lparr>bus := (bus s)\<lparr>mem := ram (entered P s)\<rparr>, regs := regs (entered P s)\<rparr>"
proof -
  have "list_all no_csr_write trap_entry"
    unfolding trap_entry_def allocate_stack_def push_registers_def get_push_trap_registers_def
      load_trap_handler_address_def registers_upt by simp
  from regs_ram_only_fold [OF this] show ?thesis unfolding entered_def regs_ram_only_def .
qed

text \<open>The handler leaves the registers to the code around it, and may not write into the frame.\<close>

definition frame_kept :: "'d platform \<Rightarrow> 'd cpu_state \<Rightarrow> 'd cpu_state \<Rightarrow> bool" where
  "frame_kept P s t \<longleftrightarrow> load_bytes (frame_base s) 344 (ram t) = load_bytes (frame_base s) 344 (ram (entered P s))"

lemma cpu_of_more:
  "strap_state.more t = strap_state.more s \<Longrightarrow> regs t = regs s \<and> csrs t = csrs s \<and> pc t = pc s \<and> mode t = mode s"
  by (cases s; cases t) simp

lemma frame_intact_return:
  assumes "strap_state.more t = strap_state.more (entered P s)" and "frame_kept P s t"
    and "regs u 2 = regs t 2" and "ram u = ram t"
  shows "frame_intact s u"
proof -
  have "load64 (frame_base s + of_nat (i * 8)) (ram t) = v" if iv: "(i, v) \<in> set (trap_frame s)" for i v
  proof -
    have "i < 43" using trap_frame_slots(2) [of s] iv by auto
    then have "load64 (frame_base s + of_nat (i * 8)) (ram t) = load64 (frame_base s + of_nat (i * 8)) (ram (entered P s))"
      using load_bytes_slice [of "i * 8" 8 344 "frame_base s"] assms(2) by (simp add: load64_def frame_kept_def del: of_nat_mult)
    then show ?thesis using frame_slot [OF iv] by (simp add: entered_ram)
  qed
  moreover have "reg 2 u = frame_base s"
    using cpu_of_more [OF assms(1)] assms(3) entered_reg(1) [of P s] by (simp add: reg_def)
  ultimately show ?thesis using assms(4) by (auto simp: frame_intact_def)
qed

text \<open>The code is where \<open>stvec\<close> points, the table is in memory, symbols have addresses of their own, and the stack does not run into the table.\<close>

definition table_in_place :: "'d platform \<Rightarrow> 'd cpu_state \<Rightarrow> bool" where
  "table_in_place P s \<longleftrightarrow> csrs s Stvec = sym_trap_dispatch (p_sym P) \<and>
     (\<forall>i < 9. load64 (sym_trap_handlers (p_sym P) + of_nat (i * 8)) (ram s) = trap_handlers (p_sym P) ! i) \<and>
     distinct [0, sym_software_interrupt_handler (p_sym P), sym_timer_interrupt_handler (p_sym P), sym_system_call_dispatcher (p_sym P)] \<and>
     disjoint_ranges (sym_trap_handlers (p_sym P)) 72 (frame_base s) 344"

lemma load64_store_slots:
  assumes "disjoint_ranges a 8 b 344" and "\<forall>(j, v) \<in> set xs. j < 43"
  shows "load64 a (store_slots b xs m) = load64 a m"
proof -
  have "store_slots b xs m (a + of_nat i) = m (a + of_nat i)" if "i < 8" for i
  proof (rule store_slots_outside [OF _ assms(2)])
    have "344 \<le> unat (a + of_nat i - b)"
    proof (rule ccontr)
      assume "\<not> 344 \<le> unat (a + of_nat i - b)"
      then have "unat (a + of_nat i - b) < 344" by simp
      moreover have "a + of_nat i = b + of_nat (unat (a + of_nat i - b))" by simp
      ultimately show False using assms(1) that unfolding disjoint_ranges_def by blast
    qed
    then show "43 * 8 \<le> unat (a + of_nat i - b)" by simp
  qed
  then have "load_bytes a 8 (store_slots b xs m) = load_bytes a 8 m"
    by (intro nth_equalityI) (simp_all add: nth_load_bytes)
  then show ?thesis by (simp add: load64_def)
qed

lemma handler_loaded:
  assumes "table_in_place P s" and "push_bit 3 cause = of_nat (i * 8)" and "i < 9"
  shows "reg 31 (entered P (take_trap cause tval s)) = trap_handlers (p_sym P) ! i"
proof -
  have "disjoint_ranges (sym_trap_handlers (p_sym P) + of_nat (i * 8)) 8 (frame_base s) 344"
    using assms(1,3) by (intro disjoint_ranges_sub [where n = 72]) (simp_all add: table_in_place_def)
  then have "load64 (sym_trap_handlers (p_sym P) + of_nat (i * 8)) (store_slots (frame_base s) (trap_frame (take_trap cause tval s)) (ram s))
      = load64 (sym_trap_handlers (p_sym P) + of_nat (i * 8)) (ram s)"
    using trap_frame_slots(2) by (rule load64_store_slots)
  then show ?thesis using assms by (simp add: entered_reg table_in_place_def del: of_nat_mult)
qed

lemma trap_run:
  assumes "table_in_place P s" and "push_bit 3 cause = of_nat (i * 8)" and "i < 9"
  shows "trap P cause tval s = mbind (call_address P (trap_handlers (p_sym P) ! i)) (\<lambda>_. exec P trap_exit)
    (entered P (take_trap cause tval s))"
proof -
  let ?e = "entered P (take_trap cause tval s)"
  have "exec P (Jalr 31 # trap_exit) ?e = mbind (call_address P (trap_handlers (p_sym P) ! i)) (\<lambda>_. exec P trap_exit) ?e"
    using handler_loaded [OF assms, of tval]
    by (cases "call_address P (trap_handlers (p_sym P) ! i) ?e") (simp_all add: exec.simps(2) monad_simps)
  then show ?thesis using assms(1) by (simp add: trap_def table_in_place_def exec_entry)
qed

lemma c_return_eq [monad_simps]:
  "c_return P r t = Ok () (t\<lparr>regs := (\<lambda>i. if i \<in> set caller_saved
     then (case r of Some v \<Rightarrow> if i = 10 then v else clobber P i | None \<Rightarrow> clobber P i) else regs t i)\<rparr>)"
  by (simp add: c_return_def mmodify_def)

lemma bit_sstatus_sret: "bit (csrs (sret s) Sstatus) 1 \<longleftrightarrow> bit (csrs s Sstatus) 5"
  by (simp add: sret_def Let_def bit_simps)

text \<open>The return from a handler that ran on the entered state \<open>s\<close> and ended in \<open>t\<close>.\<close>

lemma handler_exit:
  assumes "strap_state.more t = strap_state.more (entered P s)" and "frame_kept P s t"
  shows "\<exists>u. mbind (c_return P r) (\<lambda>_. exec P trap_exit) t = Ok () u \<and> cpu_only t u \<and>
    (\<forall>i \<in> {1..<32} - result_regs s. reg i u = reg i s) \<and>
    (csrs s Scause = 8 \<longrightarrow> reg 10 u = (case r of Some v \<Rightarrow> v | None \<Rightarrow> clobber P 10) \<and> reg 11 u = clobber P 11) \<and>
    pc u = resume_pc s \<and> mode u = (if bit (csrs s Sstatus) 8 then Supervisor else User) \<and>
    bit (csrs u Sstatus) 1 = bit (csrs s Sstatus) 5 \<and> csrs u Stvec = csrs s Stvec"
proof -
  define t' where "t' = t\<lparr>regs := (\<lambda>i. if i \<in> set caller_saved
     then (case r of Some v \<Rightarrow> if i = 10 then v else clobber P i | None \<Rightarrow> clobber P i) else regs t i)\<rparr>"
  have c: "csrs t' = csrs s" using cpu_of_more [OF assms(1)] by (simp add: t'_def entered_csrs)
  have "frame_intact s t'"
    by (rule frame_intact_return [OF assms]) (simp_all add: t'_def caller_saved_def)
  then obtain u where u: "exec P trap_exit t' = Ok () u" "cpu_only t' u"
    "\<And>i. reg i u = (if i \<in> {1..<32} - result_regs s then reg i s else reg i t')" "pc u = resume_pc s"
    "mode u = (if bit (csrs t' Sstatus) 8 then Supervisor else User)"
    "csrs u = csrs (sret (set_csr Sepc (resume_pc s) t'))"
    using exit_run [of s t' P] by blast
  have "cpu_only t t'" by (simp add: cpu_only_def t'_def)
  then have "cpu_only t u" using u(2) by (rule cpu_only_trans)
  moreover have "bit (csrs u Sstatus) 1 = bit (csrs s Sstatus) 5" using u(6) c by (simp add: bit_sstatus_sret csrs_other del: One_nat_def)
  moreover have "csrs u Stvec = csrs s Stvec" using u(6) c by (simp add: sret_def Let_def set_csr_def)
  moreover have "reg 10 u = (case r of Some v \<Rightarrow> v | None \<Rightarrow> clobber P 10) \<and> reg 11 u = clobber P 11" if "csrs s Scause = 8"
    using u(3) [of 10] u(3) [of 11] that
    by (simp add: result_regs_def) (simp add: reg_def t'_def caller_saved_def split: option.split)
  ultimately show ?thesis using u c by (simp add: monad_simps t'_def [symmetric])
qed

end
