(* ===== verification/User.thy ===== *)
theory User
  imports Trap
begin

text \<open>
  Traps as the program sees them: what a system call returns and what it leaves alone, the timer
  interrupt, causes without a handler, and the system call stubs and the main loop of the runtime
  (src/demandos.c, src/runtime.c).
\<close>

section \<open>System calls\<close>

text \<open>
  The dispatcher runs with the number of the call and its first three arguments as the program has put
  them into \<open>a7\<close>, \<open>a0\<close>, \<open>a1\<close> and \<open>a2\<close>.  For the others the compiled code looks at the stack: there it
  finds an unused word of the frame, the return address and the stack pointer instead.
\<close>

definition dispatched :: "'d platform \<Rightarrow> 'd cpu_state \<Rightarrow> ('d cpu_state, u64) outcome" where
  "dispatched P s = system_call_dispatcher (p_hw P) (p_frame P) (p_call P) (reg 17 s) (reg 10 s) (reg 11 s) (reg 12 s)
     (load64 (frame_base s) (ram s)) (reg 1 s) (frame_base s) (entered P s)"

lemma entered_stack_args:
  "load64 (frame_base s) (store_slots (frame_base s) (trap_frame s) m) = load64 (frame_base s) m"
  "load64 (frame_base s + 8) (store_slots (frame_base s) (trap_frame s) m) = reg 1 s"
  "load64 (frame_base s + 16) (store_slots (frame_base s) (trap_frame s) m) = frame_base s"
proof -
  have "0 \<notin> fst ` set (trap_frame s)" by (auto simp: trap_frame_def)
  from load_slot_other [OF this _ trap_frame_slots(2), of "frame_base s" m]
  show "load64 (frame_base s) (store_slots (frame_base s) (trap_frame s) m) = load64 (frame_base s) m" by simp
  show "load64 (frame_base s + 8) (store_slots (frame_base s) (trap_frame s) m) = reg 1 s"
    "load64 (frame_base s + 16) (store_slots (frame_base s) (trap_frame s) m) = frame_base s"
    using frame_slot [OF in_frame [of 1 s], of m] frame_slot [OF in_frame [of 2 s], of m] by simp_all
qed

lemma call_dispatcher:
  assumes "distinct [0, sym_software_interrupt_handler (p_sym P), sym_timer_interrupt_handler (p_sym P), sym_system_call_dispatcher (p_sym P)]"
  shows "call_address P (sym_system_call_dispatcher (p_sym P)) (entered P s) =
    (case dispatched P s of Ok r t \<Rightarrow> c_return P (Some r) t | Fault e t \<Rightarrow> Fault e t)"
  using assms entered_stack_args [of s "ram s"]
  by (simp add: call_address_def dispatched_def mbind_def entered_reg entered_ram)

lemma kernel_ok_entered: "kernel_ok (entered P s) = kernel_ok s"
  by (subst entered_eq) (simp add: kernel_ok_def fds_ok_def no_deferred_def)

lemma syscall_trap:
  assumes "kernel_ok s" and "table_in_place P s" and "mode s = User"
    and "\<And>r t. dispatched P (take_trap 8 0 s) = Ok r t \<Longrightarrow> frame_kept P (take_trap 8 0 s) t"
  shows "case dispatched P (take_trap 8 0 s) of
      Fault e t \<Rightarrow> trap P 8 0 s = Fault e t
    | Ok r t \<Rightarrow> \<exists>u. trap P 8 0 s = Ok () u \<and> cpu_only t u \<and> reg 10 u = r \<and> reg 11 u = clobber P 11 \<and>
        (\<forall>i \<in> {1..<32} - {10, 11}. reg i u = reg i s) \<and> pc u = pc s + 4 \<and> mode u = User \<and>
        bit (csrs u Sstatus) 1 = bit (csrs s Sstatus) 1"
proof -
  let ?s = "take_trap 8 0 s"
  have run: "trap P 8 0 s = mbind (call_address P (sym_system_call_dispatcher (p_sym P))) (\<lambda>_. exec P trap_exit) (entered P ?s)"
    using trap_run [OF assms(2), of 8 8 0] by (simp add: push_bit_eq_mult trap_handlers_def)
  note call = call_dispatcher [of P ?s]
  have d: "distinct [0, sym_software_interrupt_handler (p_sym P), sym_timer_interrupt_handler (p_sym P), sym_system_call_dispatcher (p_sym P)]"
    using assms(2) by (simp only: table_in_place_def)
  show ?thesis
  proof (cases "dispatched P ?s")
    case (Fault e t)
    then show ?thesis using run call [OF d] by (simp add: monad_simps)
  next
    case (Ok r t)
    have "strap_state.more t = strap_state.more (entered P ?s)"
      using within_Ok [OF ok_dispatcher Ok [unfolded dispatched_def]] assms(1) by (simp add: kernel_ok_entered)
    from handler_exit [OF this assms(4) [OF Ok], of "Some r"] obtain u where
      u: "mbind (c_return P (Some r)) (\<lambda>_. exec P trap_exit) t = Ok () u" "cpu_only t u"
        "\<forall>i \<in> {1..<32} - {10, 11}. reg i u = reg i s" "reg 10 u = r" "reg 11 u = clobber P 11" "pc u = pc s + 4"
        "mode u = User" "bit (csrs u Sstatus) 1 = bit (csrs s Sstatus) 1"
      using assms(3) by (auto simp: result_regs_def resume_pc_def)
    have "trap P 8 0 s = Ok () u" using run call [OF d] Ok u(1) by (simp add: mbind_def)
    then show ?thesis using Ok u by auto
  qed
qed

text \<open>
  C5.  A system call of the program returns to the instruction after it, in user mode, with the
  result of the dispatcher in \<open>a0\<close>, and all other registers as they were, apart from \<open>a1\<close>, which holds
  whatever the handler left there.  The rest of the state is what the dispatcher made of it; when
  it faults, so does the call.
\<close>

theorem syscall_trap_returns:
  assumes "kernel_ok s" and "table_in_place P s" and "mode s = User"
    and "\<And>r t. dispatched P (take_trap 8 0 s) = Ok r t \<Longrightarrow> frame_kept P (take_trap 8 0 s) t"
  shows "case dispatched P (take_trap 8 0 s) of
      Fault e t \<Rightarrow> trap P 8 0 s = Fault e t
    | Ok r t \<Rightarrow> \<exists>u. trap P 8 0 s = Ok () u \<and> cpu_only t u \<and> reg 10 u = r \<and> reg 11 u = clobber P 11 \<and>
        (\<forall>i \<in> {1..<32} - {10, 11}. reg i u = reg i s) \<and> pc u = pc s + 4 \<and> mode u = User \<and>
        bit (csrs u Sstatus) 1 = bit (csrs s Sstatus) 1"
  using assms by (rule syscall_trap)

section \<open>A machine for examples\<close>

definition ref_sym :: symbols where
  "ref_sym = \<lparr>sym_trap_dispatch = 0x80001000, sym_trap_handlers = 0x80002000, sym_software_interrupt_handler = 0x80003000,
     sym_timer_interrupt_handler = 0x80004000, sym_system_call_dispatcher = 0x80005000, sym_sp = 0x80303FF0, sym_esp = 0x80300000,
     sym_brk_start = 0x81B1A000, sym_pgm = 0x80006000, sym_dl_random_bytes = 0x80006100, sym_start = 0x80010000\<rparr>"

definition ref_platform :: "'d hw \<Rightarrow> 'd platform" where
  "ref_platform hw = \<lparr>p_hw = hw, p_frame = ref_frame, p_ld = demandos_linker, p_sym = ref_sym, p_randomness = 0x80007000,
     p_call = (\<lambda>f c. mreturn ()), clobber = (\<lambda>i. 0xDEAD)\<rparr>"

text \<open>A kernel with the table of handlers in memory, running a program with the given registers.\<close>

definition running :: "'d strap_state \<Rightarrow> (nat \<Rightarrow> u64) \<Rightarrow> 'd cpu_state" where
  "running k R = strap_state.extend (k\<lparr>bus := (bus k)\<lparr>mem := store_slots 0x80002000 (enumerate 0 (trap_handlers ref_sym)) (ram k)\<rparr>\<rparr>)
     (cpu_state.fields R (\<lambda>c. if c = Stvec then 0x80001000 else 0) 0x80010400 User)"

lemma running_simps [simp]:
  "regs (running k R) = R" "pc (running k R) = 0x80010400" "mode (running k R) = User" "reg r (running k R) = (if r = 0 then 0 else R r)"
  "csrs (running k R) c = (if c = Stvec then 0x80001000 else 0)" "ram (running k R) = store_slots 0x80002000 (enumerate 0 (trap_handlers ref_sym)) (ram k)"
  "fds (running k R) = fds k" "syscall_handlers (running k R) = syscall_handlers k" "current (running k R) = current k"
  "kernel_ok (running k R) = kernel_ok k"
  by (simp_all add: running_def strap_state.defs cpu_state.defs reg_def kernel_ok_def fds_ok_def no_deferred_def)

lemma table_stored:
  assumes "i < 9"
  shows "load64 (0x80002000 + of_nat (i * 8)) (store_slots 0x80002000 (enumerate 0 (trap_handlers ref_sym)) m) = trap_handlers ref_sym ! i"
proof (rule load_slot)
  have len: "length (trap_handlers ref_sym) = 9" by (simp add: trap_handlers_def)
  then show "(i, trap_handlers ref_sym ! i) \<in> set (enumerate 0 (trap_handlers ref_sym))"
    using assms by (simp add: in_set_enumerate_eq)
  show "distinct (map fst (enumerate 0 (trap_handlers ref_sym)))" by simp
  show "\<forall>(j, v) \<in> set (enumerate 0 (trap_handlers ref_sym)). j < 43" using len by (auto simp: in_set_enumerate_eq)
qed

lemma running_table:
  assumes "unat (R 2) \<le> 0x80002000 \<or> 0x80002048 + 344 \<le> unat (R 2)" and "344 \<le> unat (R 2)"
  shows "table_in_place (ref_platform hw) (running k R)"
proof -
  have "disjoint_ranges 0x80002000 72 (R 2 - 344) 344"
  proof (rule disjoint_rangesI)
    have "unat (R 2 - 344) = unat (R 2) - 344" using assms(2) by (simp add: unat_sub word_le_nat_alt)
    then show "unat (0x80002000 :: u64) + 72 \<le> unat (R 2 - 344) \<or> unat (R 2 - 344) + 344 \<le> unat (0x80002000 :: u64)"
      "unat (R 2 - 344) + 344 \<le> 2 ^ 64" using assms unat_u64_less [of "R 2"] by auto
  qed simp
  then show ?thesis using table_stored by (simp add: table_in_place_def ref_platform_def ref_sym_def del: of_nat_mult)
qed

lemma entered_kernel [simp]:
  "syscall_handlers (entered P s) = syscall_handlers s" "current (entered P s) = current s" "fds (entered P s) = fds s"
  by (subst entered_eq, simp)+

lemma take_trap_handlers [simp]: "syscall_handlers (take_trap c v s) = syscall_handlers s" "current (take_trap c v s) = current s"
  by (simp_all add: take_trap_def Let_def)

lemma dispatched_ref:
  assumes "unat (R 17) < 451" and "R 17 \<noteq> 0"
  shows "dispatched (ref_platform hw) (take_trap 8 0 (running ref_kernel R)) =
    call_syscall_handler hw ref_frame (\<lambda>f c. mreturn ()) (Some (handler_of (unat (R 17)))) (R 10) (R 11) (R 12)
      (load64 (R 2 - 344) (ram (running ref_kernel R))) (R 1) (R 2 - 344) (entered (ref_platform hw) (take_trap 8 0 (running ref_kernel R)))"
  using assms by (simp add: dispatched_def system_call_dispatcher_def ref_platform_def del: upt_rec_numeral)

theorem syscall_trap_returns_witness:
  "\<exists>u. trap (ref_platform (ref_hw ref_vring)) 8 0 (running ref_kernel ((\<lambda>i. of_nat i)(2 := 0x80303000, 17 := 214, 10 := 0x81C00000))) = Ok () u \<and>
     reg 10 u = 0x81C00000 \<and> reg 11 u = 0xDEAD \<and> reg 2 u = 0x80303000 \<and> reg 9 u = 9 \<and> pc u = 0x80010404 \<and> mode u = User \<and>
     brk (current u) = 0x81C00000"
proof -
  let ?R = "(\<lambda>i. of_nat i)(2 := 0x80303000, 17 := 214, 10 := 0x81C00000) :: nat \<Rightarrow> u64"
  let ?P = "ref_platform (ref_hw ref_vring)" and ?s = "running ref_kernel ?R"
  let ?t = "(entered ?P (take_trap 8 0 ?s))\<lparr>current := (current ref_kernel)\<lparr>brk := 0x81C00000\<rparr>\<rparr>"
  have "handler_of 214 = Set_brk_s" by (simp add: handler_of_def syscall_table_def)
  then have d: "dispatched ?P (take_trap 8 0 ?s) = Ok 0x81C00000 ?t"
    by (subst dispatched_ref) (simp_all add: call_syscall_handler_def set_brk_s_def monad_simps)
  have "kernel_ok ?s" by (simp add: ref_kernel_ok)
  moreover have "table_in_place ?P ?s" by (rule running_table) simp_all
  ultimately have "case dispatched ?P (take_trap 8 0 ?s) of
      Fault e t \<Rightarrow> trap ?P 8 0 ?s = Fault e t
    | Ok r t \<Rightarrow> \<exists>u. trap ?P 8 0 ?s = Ok () u \<and> cpu_only t u \<and> reg 10 u = r \<and> reg 11 u = clobber ?P 11 \<and>
        (\<forall>i \<in> {1..<32} - {10, 11}. reg i u = reg i ?s) \<and> pc u = pc ?s + 4 \<and> mode u = User \<and>
        bit (csrs u Sstatus) 1 = bit (csrs ?s Sstatus) 1"
    by (rule syscall_trap_returns) (simp_all add: d frame_kept_def)
  then obtain u where u: "trap ?P 8 0 ?s = Ok () u" "cpu_only ?t u" "reg 10 u = 0x81C00000" "reg 11 u = 0xDEAD"
    "\<forall>i \<in> {1..<32} - {10, 11}. reg i u = reg i ?s" "pc u = 0x80010404" "mode u = User"
    using d by (auto simp: ref_platform_def)
  have "current u = current ?t" using u(2) by (cases u) (simp add: cpu_only_def)
  with u show ?thesis by auto
qed

section \<open>The timer interrupt\<close>

lemma timer_quiet:
  assumes "no_deferred s"
  shows "\<exists>a b c. timer_interrupt_handler hw call s = Ok () (s\<lparr>shadow_stime := a, stimecmp := b, current := c\<rparr>)"
proof -
  have "timer_interrupt_handler hw call s = (let w = wakeup_time (asleep (current s)); u = s\<lparr>shadow_stime := - 1, stimecmp := - 1\<rparr> in
      if w = 0 then Ok () u
      else if hw_time hw (bus s) > w then Ok () (u\<lparr>current := (current s)\<lparr>asleep := (asleep (current s))\<lparr>should_wake := 1\<rparr>\<rparr>\<rparr>)
      else Ok () (u\<lparr>shadow_stime := w, stimecmp := w\<rparr>))"
    using assms by (simp add: timer_interrupt_handler_def get_stime_def unset_stimecmp_def set_stimecmp_def STIME_UNSET_def
      no_deferred_def monad_simps Let_def)
  then show ?thesis by (cases s) (auto simp: Let_def)
qed

lemma trap_timer:
  assumes "kernel_ok s" and "table_in_place P s" and "push_bit 3 cause = (40 :: u64)" and "cause \<noteq> 8"
  shows "\<exists>t u. trap P cause tval s = Ok () u \<and>
    timer_interrupt_handler (p_hw P) (p_call P) (entered P (take_trap cause tval s)) = Ok () t \<and> cpu_only t u \<and>
    ram u = ram (entered P (take_trap cause tval s)) \<and>
    (\<forall>i < 32. reg i u = reg i s) \<and> pc u = pc s \<and> mode u = mode s \<and> bit (csrs u Sstatus) 1 = bit (csrs s Sstatus) 1 \<and>
    (u = s\<lparr>bus := (bus s)\<lparr>mem := ram u\<rparr>, shadow_stime := shadow_stime u, stimecmp := stimecmp u, current := current u,
      regs := regs u, csrs := csrs u\<rparr>)"
proof -
  let ?s = "take_trap cause tval s"
  let ?e = "entered P ?s"
  have "kernel_ok ?e" using assms(1) by (simp add: kernel_ok_entered)
  then have "no_deferred ?e" by (simp only: kernel_ok_def)
  then obtain a b c where t: "timer_interrupt_handler (p_hw P) (p_call P) ?e = Ok () (?e\<lparr>shadow_stime := a, stimecmp := b, current := c\<rparr>)"
    using timer_quiet by blast
  let ?t = "?e\<lparr>shadow_stime := a, stimecmp := b, current := c\<rparr>"
  have "frame_kept P ?s ?t" by (simp add: frame_kept_def)
  then obtain u where u: "mbind (c_return P None) (\<lambda>_. exec P trap_exit) ?t = Ok () u" "cpu_only ?t u"
    "\<forall>i \<in> {1..<32}. reg i u = reg i s" "pc u = pc s" "mode u = mode s" "bit (csrs u Sstatus) 1 = bit (csrs s Sstatus) 1"
    using handler_exit [of ?t P ?s None] assms(4)
    by (cases "mode s") (auto simp: result_regs_def resume_pc_def)
  have "call_address P (sym_timer_interrupt_handler (p_sym P)) ?e = c_return P None ?t"
    using t assms(2) by (simp add: call_address_def table_in_place_def mthen_def)
  then have run: "trap P cause tval s = Ok () u"
    using trap_run [OF assms(2), of cause 5 tval] assms(3) u(1) by (simp add: trap_handlers_def mbind_def)
  have r: "\<forall>i < 32. reg i u = reg i s" using u(3) by (auto simp: reg_def)
  have "u = s\<lparr>bus := (bus s)\<lparr>mem := ram u\<rparr>, shadow_stime := shadow_stime u, stimecmp := stimecmp u, current := current u,
      regs := regs u, csrs := csrs u\<rparr>" and ram: "ram u = ram ?e"
    using u(2,4,5) entered_eq [of P ?s]
    by (cases u; cases s; cases ?e; cases "bus s"; simp add: cpu_only_def take_trap_def Let_def)+
  with run t u r show ?thesis by blast
qed

text \<open>
  C9.  A timer interrupt is invisible to what it interrupts, program or kernel: all registers, the
  place in the code, the mode and the interrupt enable bit are as before, and so is the memory outside the
  344 bytes below the stack pointer.  Of the kernel, only the timer and the sleep of the
  process change, as the handler says.
\<close>

theorem timer_trap_transparent:
  assumes "kernel_ok s" and "table_in_place P s"
  shows "\<exists>t u. trap P 0x8000000000000005 tval s = Ok () u \<and>
    timer_interrupt_handler (p_hw P) (p_call P) (entered P (take_trap 0x8000000000000005 tval s)) = Ok () t \<and> cpu_only t u \<and>
    (\<forall>a. 344 \<le> unat (a - (reg 2 s - 344)) \<longrightarrow> ram u a = ram s a) \<and>
    (\<forall>i < 32. reg i u = reg i s) \<and> pc u = pc s \<and> mode u = mode s \<and> bit (csrs u Sstatus) 1 = bit (csrs s Sstatus) 1 \<and>
    (u = s\<lparr>bus := (bus s)\<lparr>mem := ram u\<rparr>, shadow_stime := shadow_stime u, stimecmp := stimecmp u, current := current u,
      regs := regs u, csrs := csrs u\<rparr>)"
proof -
  have "push_bit 3 0x8000000000000005 = (40 :: u64)" by (simp add: push_bit_eq_mult)
  from trap_timer [OF assms this, of tval] obtain t u where
    u: "trap P 0x8000000000000005 tval s = Ok () u" "timer_interrupt_handler (p_hw P) (p_call P) (entered P (take_trap 0x8000000000000005 tval s)) = Ok () t"
      "cpu_only t u" "ram u = ram (entered P (take_trap 0x8000000000000005 tval s))"
      "\<forall>i < 32. reg i u = reg i s" "pc u = pc s" "mode u = mode s" "bit (csrs u Sstatus) 1 = bit (csrs s Sstatus) 1"
      "u = s\<lparr>bus := (bus s)\<lparr>mem := ram u\<rparr>, shadow_stime := shadow_stime u, stimecmp := stimecmp u, current := current u,
        regs := regs u, csrs := csrs u\<rparr>" by auto
  have "ram u a = ram s a" if "344 \<le> unat (a - (reg 2 s - 344))" for a
    unfolding u(4) entered_ram using that trap_frame_slots(2) by (subst store_slots_outside [where n = 43]) simp_all
  with u show ?thesis by blast
qed

theorem timer_trap_transparent_witness:
  "\<exists>u. trap (ref_platform (ref_hw ref_vring)) 0x8000000000000005 0 (running ref_kernel ((\<lambda>i. of_nat i)(2 := 0x80303000))) = Ok () u \<and>
     (\<forall>i < 32. reg i u = (if i = 2 then 0x80303000 else of_nat i)) \<and> pc u = 0x80010400 \<and> mode u = User"
proof -
  let ?R = "(\<lambda>i. of_nat i)(2 := 0x80303000) :: nat \<Rightarrow> u64"
  have "kernel_ok (running ref_kernel ?R)" by (simp add: ref_kernel_ok)
  moreover have "table_in_place (ref_platform (ref_hw ref_vring)) (running ref_kernel ?R)" by (rule running_table) simp_all
  ultimately show ?thesis using timer_trap_transparent [of "running ref_kernel ?R" "ref_platform (ref_hw ref_vring)" 0] by auto
qed

section \<open>Other causes\<close>

lemma index_word: "push_bit 3 cause = of_nat (i * 8)" if "take_bit 61 cause = of_nat i" for cause :: u64
proof -
  have "push_bit 3 cause = push_bit 3 (take_bit 61 cause)"
    by (rule bit_word_eqI) (auto simp: bit_simps)
  then show ?thesis using that by (simp add: push_bit_eq_mult)
qed



section \<open>The stubs of the runtime\<close>

text \<open>A stub loads the number of the call and two arguments, traps, and returns what it finds in \<open>a0\<close>.\<close>

definition syscall_regs :: "u64 \<Rightarrow> u64 \<Rightarrow> u64 \<Rightarrow> 'd cpu_state \<Rightarrow> 'd cpu_state" where
  "syscall_regs n a b s = set_reg 11 b (set_reg 10 a (set_reg 17 n s))"

definition user_call :: "'d platform \<Rightarrow> u64 \<Rightarrow> u64 \<Rightarrow> u64 \<Rightarrow> ('d cpu_state, u64) kernel_op" where
  "user_call P n a b = mthen (mmodify (syscall_regs n a b)) (mthen (trap P 8 0) (mgets (reg 10)))"

definition wait_for_event :: "'d platform \<Rightarrow> u64 \<Rightarrow> u64 \<Rightarrow> ('d cpu_state, u64) kernel_op" where
  "wait_for_event P timeout event_p = user_call P 209 timeout event_p"

definition mount_hd :: "'d platform \<Rightarrow> ('d cpu_state, u64) kernel_op" where
  "mount_hd P = user_call P 210 0 0"

section \<open>The runtime\<close>

text \<open>
  The main function of the runtime.  Printing is done by the C library and is a parameter: the format and the
  numbers that go into it.  \<open>5 * 1e7\<close> is exact in double precision.
\<close>

definition WAIT_EVENT_OCCURRED :: u64 where
  "WAIT_EVENT_OCCURRED = 1"

definition runtime_round ::
    "'d platform \<Rightarrow> (string \<Rightarrow> u64 list \<Rightarrow> ('d cpu_state, unit) kernel_op) \<Rightarrow> u64 \<Rightarrow> ('d cpu_state, unit) kernel_op" where
  "runtime_round P printf evt =
     mbind (wait_for_event P 50000000 evt) (\<lambda>wait_result.
       if wait_result = WAIT_TIMEOUT then printf (''There was a timeout!'' @ [CHR 0x0A]) []
       else if wait_result = WAIT_EVENT_OCCURRED then
         mthen (printf (''An event occurred!'' @ [CHR 0x0A]) [])
          (mbind (mgets (\<lambda>s. load64 evt (ram s))) (\<lambda>evt_id.
            printf (''Wait result? %llu (event id: %llu)'' @ [CHR 0x0A]) [wait_result, evt_id]))
       else mreturn ())"

partial_function (option) runtime_loop ::
    "'d platform \<Rightarrow> (string \<Rightarrow> u64 list \<Rightarrow> ('d cpu_state, unit) kernel_op) \<Rightarrow> u64 \<Rightarrow> 'd cpu_state \<Rightarrow>
     ('d cpu_state, unit) outcome option" where
  "runtime_loop P printf evt s =
     (case runtime_round P printf evt s of
        Fault e t \<Rightarrow> Some (Fault e t)
      | Ok _ t \<Rightarrow> runtime_loop P printf evt t)"

definition runtime_main ::
    "'d platform \<Rightarrow> (string \<Rightarrow> u64 list \<Rightarrow> ('d cpu_state, unit) kernel_op) \<Rightarrow> u64 \<Rightarrow> ('d cpu_state, unit) kernel_op" where
  "runtime_main P printf evt =
     mthen (mmodify (\<lambda>s. set_ram (store64 evt 0 (ram s)) s))
     (mthen (printf (''Starting up the runtime'' @ [CHR 0x0A]) [])
     (mthen (mount_hd P)
       (\<lambda>s. case runtime_loop P printf evt s of None \<Rightarrow> Fault Diverges s | Some r \<Rightarrow> r)))"

lemma syscall_regs_simps [simp]:
  "reg r (syscall_regs n a b s) = (if r = 11 then b else if r = 10 then a else if r = 17 then n else reg r s)"
  "csrs (syscall_regs n a b s) = csrs s" "ram (syscall_regs n a b s) = ram s" "pc (syscall_regs n a b s) = pc s"
  "mode (syscall_regs n a b s) = mode s" "kernel_ok (syscall_regs n a b s) = kernel_ok s"
  "table_in_place P (syscall_regs n a b s) = table_in_place P s" "quiet (syscall_regs n a b s) = quiet s"
  "syscall_handlers (syscall_regs n a b s) = syscall_handlers s"
  by (auto simp: syscall_regs_def set_reg_def reg_def kernel_ok_def fds_ok_def no_deferred_def table_in_place_def quiet_def)

lemma quiet_entered [simp]: "quiet (entered P (take_trap c v s)) = quiet s"
  by (subst entered_eq) (simp add: quiet_def take_trap_def Let_def)

lemma user_call_returns:
  assumes "kernel_ok s" and "table_in_place P s" and "mode s = User"
    and "\<And>r t. dispatched P (take_trap 8 0 (syscall_regs n a b s)) = Ok r t \<Longrightarrow> frame_kept P (take_trap 8 0 (syscall_regs n a b s)) t"
  shows "case dispatched P (take_trap 8 0 (syscall_regs n a b s)) of
      Fault e t \<Rightarrow> user_call P n a b s = Fault e t
    | Ok r t \<Rightarrow> \<exists>u. user_call P n a b s = Ok r u \<and> cpu_only t u \<and>
        (\<forall>i \<in> {1..<32} - {10, 11, 17}. reg i u = reg i s) \<and> pc u = pc s + 4 \<and> mode u = User"
  using syscall_trap [of "syscall_regs n a b s" P] assms
  by (auto simp: user_call_def monad_simps split: outcome.splits)

lemma dispatched_demand:
  assumes "kernel_ok s" and "209 < length (syscall_handlers s)" and "reg 17 s = 209"
  shows "dispatched P s = demand_s (p_hw P) (p_call P) (reg 10 s) (reg 11 s) (entered P s)"
proof -
  have "handler_of 209 = Demand_s" by (simp add: handler_of_def syscall_table_def)
  moreover have "syscall_handlers s ! 209 = Some (handler_of 209)" using assms(1,2) by (simp add: kernel_ok_def)
  ultimately show ?thesis using assms(2,3) by (simp add: dispatched_def system_call_dispatcher_def call_syscall_handler_def)
qed

text \<open>
  Waiting for an event, as the runtime does it, from the stub through the trap and the waiting call and back: when
  the clock gets past the time-out the stub returns \<open>WAIT_TIMEOUT\<close>, with its registers as
  they were, and otherwise it waits for ever.  Memory is changed by the devices only, so that nothing is
  ever put into the event.
\<close>

lemma wait_times_out:
  assumes "kernel_ok s" and "table_in_place P s" and "mode s = User" and "quiet s" and "209 < length (syscall_handlers s)"
    and "b = bus (entered P (take_trap 8 0 (syscall_regs 209 timeout event_p s)))" and "T = hw_time (p_hw P) b + timeout"
    and "\<And>k. load_bytes (reg 2 s - 344) 344 (mem ((hw_step (p_hw P) ^^ k) b)) = load_bytes (reg 2 s - 344) 344 (mem b)"
  shows "if \<exists>k. demand_expired T (time_after (p_hw P) b (Suc k))
    then \<exists>u k. wait_for_event P timeout event_p s = Ok WAIT_TIMEOUT u \<and> bus u = (hw_step (p_hw P) ^^ k) b \<and>
      demand_expired T (hw_time (p_hw P) (bus u)) \<and>
      (\<forall>i \<in> {1..<32} - {10, 11, 17}. reg i u = reg i s) \<and> pc u = pc s + 4 \<and> mode u = User
    else \<exists>t. wait_for_event P timeout event_p s = Fault Diverges t"
proof -
  let ?s = "take_trap 8 0 (syscall_regs 209 timeout event_p s)"
  have d: "dispatched P ?s = demand_s (p_hw P) (p_call P) timeout event_p (entered P ?s)"
    using assms(1,5) by (subst dispatched_demand) simp_all
  have T: "T = hw_time (p_hw P) (bus (entered P ?s)) + timeout" using assms(6,7) by simp
  note run = demand_s_run [of "entered P ?s" T, OF _ T, of "p_call P" event_p]
  have kept: "frame_kept P ?s t" if "dispatched P ?s = Ok r t" for r t
    using that run assms(4,6,8) d by (auto simp: frame_kept_def simp del: funpow.simps split: if_splits)
  have u: "case dispatched P ?s of
      Fault e t \<Rightarrow> wait_for_event P timeout event_p s = Fault e t
    | Ok r t \<Rightarrow> \<exists>u. wait_for_event P timeout event_p s = Ok r u \<and> cpu_only t u \<and>
        (\<forall>i \<in> {1..<32} - {10, 11, 17}. reg i u = reg i s) \<and> pc u = pc s + 4 \<and> mode u = User"
    unfolding wait_for_event_def using assms(1-3) kept by (rule user_call_returns)
  show ?thesis
  proof (cases "\<exists>k. demand_expired T (time_after (p_hw P) b (Suc k))")
    case True
    then obtain t j where t: "dispatched P ?s = Ok WAIT_TIMEOUT t" "demand_expired T (hw_time (p_hw P) (bus t))"
      "bus t = (hw_step (p_hw P) ^^ Suc j) b"
      using run assms(4,6) d by (auto simp del: funpow.simps)
    with u obtain v where v: "wait_for_event P timeout event_p s = Ok WAIT_TIMEOUT v" "cpu_only t v"
      "\<forall>i \<in> {1..<32} - {10, 11, 17}. reg i v = reg i s" "pc v = pc s + 4" "mode v = User" by auto
    have "bus v = bus t" using v(2) by (cases v) (simp add: cpu_only_def)
    then have "bus v = (hw_step (p_hw P) ^^ Suc j) b" "demand_expired T (hw_time (p_hw P) (bus v))" using t(2,3) by simp_all
    with v show ?thesis by (subst if_P [OF True]) blast
  next
    case False
    then show ?thesis using run assms(4,6) d u by (auto simp del: funpow.simps)
  qed
qed

text \<open>The clock of \<open>System\<close> and a kernel that has been set up, with nothing but the console open.\<close>

definition clock_kernel :: "u64 strap_state" where
  "clock_kernel = io_state.extend (io_init (clock_state []) ref_sb False) (strap_state.fields (map (\<lambda>i. Some (handler_of i)) [0..<451]))"

lemma clock_kernel_simps [simp]:
  "bus clock_kernel = bus (clock_state [])" "kernel clock_kernel = kernel (clock_state [])" "current clock_kernel = current (clock_state [])"
  "fds clock_kernel = replicate max_fd zero_fd" "syscall_handlers clock_kernel = map (\<lambda>i. Some (handler_of i)) [0..<451]"
  by (simp_all add: clock_kernel_def io_init_def io_state.defs strap_state.defs os_state.defs)

lemma clock_kernel_ok: "kernel_ok clock_kernel"
  by (simp add: kernel_ok_def fds_ok_def no_deferred_def list_all_length fd_ok_def zero_fd_def del: upt_rec_numeral)

section \<open>The main loop\<close>

lemma runtime_loop_faults:
  assumes "runtime_loop P printf evt s = Some r"
  shows "\<exists>e t. r = Fault e t"
  using assms
proof (rule runtime_loop.raw_induct [rotated])
  fix f P printf evt s r
  assume "\<And>P printf evt s r. f P printf evt s = Some r \<Longrightarrow> \<exists>e t. r = Fault e t"
    and "(case runtime_round P printf evt s of Fault e t \<Rightarrow> Some (Fault e t) | Ok u t \<Rightarrow> f P printf evt t) = Some r"
  then show "\<exists>e t. r = Fault e t" by (cases "runtime_round P printf evt s") auto
qed

text \<open>
  The runtime never returns: after starting up and mounting the disk it stays in its loop for ever, unless the
  machine is switched off or faults.
\<close>

lemma runtime_main_never_returns: "\<nexists>r t. runtime_main P printf evt s = Ok r t"
proof -
  have "(case runtime_loop P printf evt s of None \<Rightarrow> Fault Diverges s | Some r \<Rightarrow> r) \<noteq> Ok r t" for s r t
    using runtime_loop_faults [of P printf evt s] by (cases "runtime_loop P printf evt s") auto
  then show ?thesis by (auto simp: runtime_main_def mthen_def split: outcome.splits)
qed

text \<open>
  C22.  A round of the loop of the runtime: once the clock is past the time-out (fifty million ticks, and the thirty million that the
  kernel adds), the message about the time-out is printed, with the program as it was before the call; if the
  clock never gets there, the round does not end.  The branch for an event is never taken, because
  the kernel puts nothing into the event and reports no event.
\<close>

theorem runtime_round_times_out:
  assumes "kernel_ok s" and "table_in_place P s" and "mode s = User" and "quiet s" and "209 < length (syscall_handlers s)"
    and "b = bus (entered P (take_trap 8 0 (syscall_regs 209 50000000 evt s)))" and "T = hw_time (p_hw P) b + 50000000"
    and "\<And>k. load_bytes (reg 2 s - 344) 344 (mem ((hw_step (p_hw P) ^^ k) b)) = load_bytes (reg 2 s - 344) 344 (mem b)"
  shows "if \<exists>k. demand_expired T (time_after (p_hw P) b (Suc k))
    then \<exists>u k. runtime_round P printf evt s = printf (''There was a timeout!'' @ [CHR 0x0A]) [] u \<and> bus u = (hw_step (p_hw P) ^^ k) b \<and>
      demand_expired T (hw_time (p_hw P) (bus u)) \<and>
      (\<forall>i \<in> {1..<32} - {10, 11, 17}. reg i u = reg i s) \<and> pc u = pc s + 4 \<and> mode u = User
    else \<exists>t. runtime_round P printf evt s = Fault Diverges t"
proof -
  have round: "runtime_round P printf evt s = printf (''There was a timeout!'' @ [CHR 0x0A]) [] u"
    if "wait_for_event P 50000000 evt s = Ok WAIT_TIMEOUT u" for u
    using that by (simp add: runtime_round_def mbind_def)
  show ?thesis
  proof (cases "\<exists>k. demand_expired T (time_after (p_hw P) b (Suc k))")
    case True
    from wait_times_out [OF assms, unfolded if_P [OF True]] round show ?thesis
      by (subst if_P [OF True]) blast
  next
    case False
    from wait_times_out [OF assms, unfolded if_not_P [OF False]] show ?thesis
      by (subst if_not_P [OF False]) (auto simp: runtime_round_def mbind_def)
  qed
qed

theorem runtime_round_times_out_witness:
  "\<exists>u. runtime_round (ref_platform (clock_hw 40000000)) (\<lambda>fmt xs. mmodify (\<lambda>s. s\<lparr>console := console s @ map of_char fmt\<rparr>)) 0x80304800
      (running clock_kernel ((\<lambda>i. of_nat i)(2 := 0x80303000))) = Ok () u \<and>
    reg 2 u = 0x80303000 \<and> pc u = 0x80010404"
proof -
  let ?R = "(\<lambda>i. of_nat i)(2 := 0x80303000) :: nat \<Rightarrow> u64"
  let ?P = "ref_platform (clock_hw 40000000)" and ?s = "running clock_kernel ?R"
  let ?printf = "\<lambda>fmt xs. mmodify (\<lambda>s. s\<lparr>console := console s @ map of_char fmt\<rparr>) :: (u64 cpu_state, unit) kernel_op"
  define b where "b = bus (entered ?P (take_trap 8 0 (syscall_regs 209 50000000 0x80304800 ?s)))"
  have p: "p_hw ?P = clock_hw 40000000" by (simp add: ref_platform_def)
  have dev: "dev b = 0"
    unfolding b_def by (subst entered_eq) (simp add: syscall_regs_def set_reg_def running_def strap_state.defs)
  have steps: "(hw_step (clock_hw 40000000) ^^ k) b = b\<lparr>dev := of_nat k * 40000000\<rparr>" for k
    using dev by (induction k) (simp_all add: clock_hw_def algebra_simps)
  have "quiet ?s" by (simp add: quiet_def running_def strap_state.defs STIME_UNSET_def)
  moreover have "table_in_place ?P ?s" by (rule running_table) simp_all
  moreover have "kernel_ok ?s" by (simp add: clock_kernel_ok)
  ultimately have w: "if \<exists>k. demand_expired 50000000 (time_after (p_hw ?P) b (Suc k))
    then \<exists>u k. runtime_round ?P ?printf 0x80304800 ?s = ?printf (''There was a timeout!'' @ [CHR 0x0A]) [] u \<and>
      bus u = (hw_step (p_hw ?P) ^^ k) b \<and> demand_expired 50000000 (hw_time (p_hw ?P) (bus u)) \<and>
      (\<forall>i \<in> {1..<32} - {10, 11, 17}. reg i u = reg i ?s) \<and> pc u = pc ?s + 4 \<and> mode u = User
    else \<exists>t. runtime_round ?P ?printf 0x80304800 ?s = Fault Diverges t"
    by (intro runtime_round_times_out [where b = b]) (simp_all add: b_def [symmetric] p steps dev del: upt_rec_numeral, simp add: clock_hw_def dev)
  have "demand_expired 50000000 120000000" by (simp add: demand_expired_def round_double_exact)
  then have "\<exists>k. demand_expired 50000000 (time_after (p_hw ?P) b (Suc k))"
    using steps [of 3] by (intro exI [of _ 2]) (simp add: p, simp add: clock_hw_def)
  then have "\<exists>u. runtime_round ?P ?printf 0x80304800 ?s = ?printf (''There was a timeout!'' @ [CHR 0x0A]) [] u \<and> reg 2 u = reg 2 ?s \<and> pc u = pc ?s + 4"
    using w by auto
  then show ?thesis by (auto simp: monad_simps reg_def)
qed

end
