(* ===== verification/Devices.thy ===== *)
theory Devices
  imports Kernel
begin

unbundle bit_operations_syntax

text \<open>
  What finding and starting devices achieves: which function of the configuration space the scan
  ends up configuring, what the table of drivers holds, and that starting the block driver
  leaves it in the state from which all block operations are correct.
\<close>

section \<open>Offsets\<close>

lemma bit_below: "take_bit m (x :: u32) = x \<Longrightarrow> bit x n \<Longrightarrow> n < m"
  by (metis bit_take_bit_iff)

lemma not_mask_bits:
  "bit (- 15 :: u32) n \<longleftrightarrow> n < 32 \<and> n \<noteq> 1 \<and> n \<noteq> 2 \<and> n \<noteq> 3" "bit (- 12 :: u32) n \<longleftrightarrow> n < 32 \<and> n \<noteq> 0 \<and> n \<noteq> 1 \<and> n \<noteq> 3"
  "bit (- 0x3001 :: u32) n \<longleftrightarrow> n < 32 \<and> n \<noteq> 12 \<and> n \<noteq> 13"
proof -
  have small: "k < 4 \<Longrightarrow> k = 0 \<or> k = 1 \<or> k = 2 \<or> k = 3" for k :: nat by auto
  have "bit (14 :: u32) n \<longleftrightarrow> n = 1 \<or> n = 2 \<or> n = 3" "bit (11 :: u32) n \<longleftrightarrow> n = 0 \<or> n = 1 \<or> n = 3"
    using bit_below [of 4 14 n] bit_below [of 4 11 n] small [of n] by auto
  moreover have "bit (0x3000 :: u32) n \<longleftrightarrow> n = 12 \<or> n = 13"
  proof
    assume b: "bit (0x3000 :: u32) n"
    have "n < 14" by (rule bit_below [OF _ b]) simp
    moreover have "\<not> n < 12" using b bit_take_bit_iff [of 12 "0x3000 :: u32" n] by simp
    ultimately show "n = 12 \<or> n = 13" by arith
  qed auto
  moreover have "(- 15 :: u32) = NOT 14" "(- 12 :: u32) = NOT 11" "(- 0x3001 :: u32) = NOT 0x3000" by simp_all
  ultimately show "bit (- 15 :: u32) n \<longleftrightarrow> n < 32 \<and> n \<noteq> 1 \<and> n \<noteq> 2 \<and> n \<noteq> 3"
    "bit (- 12 :: u32) n \<longleftrightarrow> n < 32 \<and> n \<noteq> 0 \<and> n \<noteq> 1 \<and> n \<noteq> 3"
    "bit (- 0x3001 :: u32) n \<longleftrightarrow> n < 32 \<and> n \<noteq> 12 \<and> n \<noteq> 13"
    by (simp_all only: bit_not_iff) auto
qed

lemma PCI_OFF_of_parts:
  assumes "i < 2 ^ 28" and "i mod 4096 = 0"
  shows "PCI_OFF (ucast (PCI_BUS i)) (ucast (PCI_DEV i)) (ucast (PCI_FUN i)) = (i AND NOT 0x3000 :: u32)"
proof (rule bit_eqI)
  fix n
  assume "possible_bit TYPE(u32) n"
  then have n: "n < 32" by simp
  have "take_bit 28 i = i" using assms(1) by (simp add: take_bit_eq_mod) (metis mod_word_less)
  then have hi: "bit i n \<Longrightarrow> n < 28" by (rule bit_below)
  have "take_bit 12 i = 0" using assms(2) by (simp add: take_bit_eq_mod)
  then have lo: "bit i n \<Longrightarrow> 12 \<le> n" by (metis bit_0_eq bit_take_bit_iff bot_apply bot_bool_def not_less)
  have "bit (PCI_OFF (ucast (PCI_BUS i)) (ucast (PCI_DEV i)) (ucast (PCI_FUN i))) n \<longleftrightarrow>
      20 \<le> n \<and> n - 20 < 8 \<and> bit i n \<or> 15 \<le> n \<and> n - 15 < 8 \<and> bit i n \<and> bit (- 15 :: u32) (n - 15) \<or>
      12 \<le> n \<and> n - 12 < 8 \<and> bit i n \<and> bit (- 12 :: u32) (n - 12)"
    using n by (auto simp: PCI_OFF_def PCI_BUS_def PCI_DEV_def PCI_FUN_def BUS_SHIFT_def DEV_SHIFT_def FUN_SHIFT_def pci_consts
      bit_or_iff bit_and_iff bit_push_bit_iff bit_drop_bit_eq bit_unsigned_iff)
  also have "\<dots> \<longleftrightarrow> bit i n \<and> n \<noteq> 12 \<and> n \<noteq> 13"
    unfolding not_mask_bits using n hi lo by (cases "bit i n") (simp_all, arith)
  also have "\<dots> \<longleftrightarrow> bit (i AND NOT 0x3000 :: u32) n"
    using n not_mask_bits(3) [of n] by (simp add: bit_and_iff)
  finally show "bit (PCI_OFF (ucast (PCI_BUS i)) (ucast (PCI_DEV i)) (ucast (PCI_FUN i))) n = bit (i AND NOT 0x3000 :: u32) n" .
qed

text \<open>
  C37.  The scan takes an offset apart into bus, device and function and puts it together again
  with masks that are not those of a bit field.  The errors of the masks for device and function
  make up for each other except in two bits: the function that is configured is the one found
  with the two low bits of its number cleared.
\<close>

theorem pci_off_roundtrip:
  assumes "i < 2 ^ 28" and "i mod 4096 = 0"
  shows "PCI_OFF (ucast (PCI_BUS i)) (ucast (PCI_DEV i)) (ucast (PCI_FUN i)) = (i AND NOT 0x3000 :: u32)"
  using assms by (rule PCI_OFF_of_parts)

theorem pci_off_roundtrip_witness:
  "PCI_OFF (ucast (PCI_BUS 0x109000)) (ucast (PCI_DEV 0x109000)) (ucast (PCI_FUN 0x109000)) = 0x108000"
  using pci_off_roundtrip [of "0x109000"] by simp

section \<open>The table of drivers\<close>

lemma find_append: "find P (xs @ ys) = (case find P xs of None \<Rightarrow> find P ys | Some x \<Rightarrow> Some x)"
  by (induction xs) auto

text \<open>
  Loading the drivers puts each one at the index of its device type, a later one over an
  earlier one of the same type, and leaves out those whose type is not below ten; the rest of the
  table keeps its contents.
\<close>

theorem load_drivers_correct:
  assumes "length (virtio_drivers s) = MAX_VIRTIO_DEVICE_ID"
  shows "\<exists>t. load_drivers ds s = Ok () t \<and> length (virtio_drivers t) = MAX_VIRTIO_DEVICE_ID \<and> bus t = bus s \<and>
    (\<forall>n < MAX_VIRTIO_DEVICE_ID. virtio_drivers t ! n =
       (case find (\<lambda>d. unat (device_id d) = n) (rev ds) of None \<Rightarrow> virtio_drivers s ! n | Some d \<Rightarrow> d))"
  using assms
proof (induction ds arbitrary: s)
  case Nil
  then show ?case by (simp add: monad_simps)
next
  case (Cons d ds)
  define u where "u = (if device_id d \<ge> of_nat MAX_VIRTIO_DEVICE_ID
    then s\<lparr>console := console s @ map of_char (''Bad driver device id'' @ [CHR 0x0A])\<rparr>
    else s\<lparr>virtio_drivers := (virtio_drivers s)[unat (device_id d) := d]\<rparr>)"
  have run: "load_drivers (d # ds) s = load_drivers ds u" by (simp add: monad_simps set_driver_def u_def)
  have u: "length (virtio_drivers u) = MAX_VIRTIO_DEVICE_ID" "bus u = bus s" using Cons.prems by (simp_all add: u_def)
  have nth: "virtio_drivers u ! n = (if unat (device_id d) = n then d else virtio_drivers s ! n)" if "n < MAX_VIRTIO_DEVICE_ID" for n
    using that Cons.prems by (auto simp: u_def word_le_nat_alt MAX_VIRTIO_DEVICE_ID_def)
  obtain t where "load_drivers ds u = Ok () t" "length (virtio_drivers t) = MAX_VIRTIO_DEVICE_ID" "bus t = bus u"
    and t: "\<And>n. n < MAX_VIRTIO_DEVICE_ID \<Longrightarrow> virtio_drivers t ! n =
       (case find (\<lambda>d. unat (device_id d) = n) (rev ds) of None \<Rightarrow> virtio_drivers u ! n | Some d \<Rightarrow> d)"
    using Cons.IH [OF u(1)] by blast
  moreover have "virtio_drivers t ! n =
      (case find (\<lambda>d. unat (device_id d) = n) (rev (d # ds)) of None \<Rightarrow> virtio_drivers s ! n | Some d \<Rightarrow> d)"
    if "n < MAX_VIRTIO_DEVICE_ID" for n
    using t [OF that] nth [OF that] by (auto simp: find_append split: option.split)
  ultimately show ?case unfolding run using u(2) by (intro exI [of _ t]) simp
qed

theorem load_drivers_correct_witness:
  "\<exists>t. load_drivers driver_inits ref_fs = Ok () t \<and> init_f (virtio_drivers t ! 1) = Some Init_blk_virtio \<and>
     init_f (virtio_drivers t ! 3) = Some Init_console_virtio \<and> init_f (virtio_drivers t ! 5) = Some Init_entropy_virtio"
proof -
  have "length (virtio_drivers ref_fs) = MAX_VIRTIO_DEVICE_ID"
    by (simp add: ref_state_def ref_drivers_def heap_state.defs virtio_state.defs)
  from load_drivers_correct [OF this, of driver_inits] show ?thesis
    by (auto simp: driver_inits_def declared_driver_def MAX_VIRTIO_DEVICE_ID_def)
qed

section \<open>Starting the block driver\<close>

lemma attach_device_eq:
  assumes "d < length (virtio_drivers s)"
  shows "attach_device hw d pd h p s = Ok () (s\<lparr>
    virtio_drivers := (virtio_drivers s)[d := (virtio_drivers s ! d)\<lparr>host := h, pci := p, conf := pd\<rparr>],
    bus := hw_store hw (h + 18) 1 1 (hw_store hw (pd + 4) 1 7 (hw_store hw (pd + 0x14) 4 0xffffffff
      (hw_store hw (pd + 0x10) 4 (ucast p) (bus s))))\<rparr>)"
  using assms
  by (simp add: attach_device_def get_driver_def set_driver_def monad_simps pci_device_set_bar_def pci_device_set_status_def
    virtio_device_set_status_def BAR0_OFFSET_def PCI_DEVICE_STATUS_OFFSET_def PCI_DEVICE_STATUS_UP_def
    VIRTIO_DEVICE_STATUS_ACK_def)

lemma alloc_vrings_eq:
  assumes "d < length (virtio_drivers s)" and "free_elements (sizeof_vring * of_nat n) s = (x, e) # es"
  shows "alloc_vrings d n s = Ok () ((mark_used e s)\<lparr>virtio_drivers := (virtio_drivers s)[d := (virtio_drivers s ! d)\<lparr>vring :=
    map (\<lambda>i. vring_in (ram (mark_used e s)) (e + 1 + of_nat i * sizeof_vring)) [0..<n]\<rparr>]\<rparr>)"
  using assms by (simp add: alloc_vrings_def malloc_first_fit get_driver_def set_driver_def monad_simps mark_used_def)

text \<open>Writes to the registers for setting up change only the device, and not the part \<open>g\<close> of it.\<close>

definition registers_only :: "'d hw \<Rightarrow> ('d \<Rightarrow> 'x) \<Rightarrow> u64 set \<Rightarrow> bool" where
  "registers_only hw g A \<longleftrightarrow> (\<forall>a\<in>A. \<forall>n x b. \<exists>e. hw_store hw a n x b = b\<lparr>dev := e\<rparr> \<and> g e = g (dev b))"

definition setup_registers :: "u64 \<Rightarrow> u64 \<Rightarrow> u64 set" where
  "setup_registers pd h = {pd + 0x10, pd + 0x14, pd + 4, h + 18, h + 4, h + 14, h + 8}"

lemma register_write:
  assumes "registers_only hw g A" and "a \<in> A"
  shows "mem (hw_store hw a n x b) = mem b" "desc_mem (hw_store hw a n x b) = desc_mem b"
    "avail_mem (hw_store hw a n x b) = avail_mem b" "used_mem (hw_store hw a n x b) = used_mem b"
    "g (dev (hw_store hw a n x b)) = g (dev b)"
proof -
  obtain e where "hw_store hw a n x b = b\<lparr>dev := e\<rparr>" "g e = g (dev b)"
    using assms unfolding registers_only_def by blast
  then show "mem (hw_store hw a n x b) = mem b" "desc_mem (hw_store hw a n x b) = desc_mem b"
    "avail_mem (hw_store hw a n x b) = avail_mem b" "used_mem (hw_store hw a n x b) = used_mem b"
    "g (dev (hw_store hw a n x b)) = g (dev b)" by simp_all
qed

text \<open>The second half: from the allocation of the vring, laid out for \<open>q\<close> entries, to the end.\<close>

definition start_queue :: "'d hw \<Rightarrow> linker \<Rightarrow> nat \<Rightarrow> u64 \<Rightarrow> u64 \<Rightarrow> u16 \<Rightarrow> (('d, 'z) virtio_state_scheme, bool) kernel_op" where
  "start_queue hw ld d h q n = mthen (alloc_vrings d 1) (mthen (vring_init ld (d, 0) q) (mthen (set_vring_num (d, 0) n)
     (mthen (queue_desc_write hw h (d, 0)) (driver_up hw d h))))"

lemma vring_init_room:
  assumes "vring_at s r v" and "p = ALIGN_UP (forever_storage_frontier s) 4096"
    and "p + ucast (virtq_size (ucast qsz)) \<le> ld_forever_storage_stop ld"
  shows "vring_init ld r qsz s = Ok () (upd_vring r (v\<lparr>vr_size := ucast (virtq_size (ucast qsz)), bouncebufs := 0, vr_desc := p,
       vr_avail := avail_at p qsz, vr_used := used_at p qsz,
       bookeeping := (bookeeping v)\<lparr>used_avail := ucast qsz, avail_avail := ucast qsz,
         used_last := 0, avail_next := 0, descr_next := 0\<rparr>\<rparr>)
       (s\<lparr>forever_storage_frontier := p + ucast (virtq_size (ucast qsz)),
          bus := (bus s)\<lparr>avail_mem := (avail_mem (bus s))(avail_at p qsz := (avail_mem (bus s) (avail_at p qsz))\<lparr>a_flags := 1\<rparr>)\<rparr>\<rparr>))"
proof -
  have "forever_alloc_aligned ld (ucast (virtq_size (ucast qsz))) 4096 s =
      Ok p (s\<lparr>forever_storage_frontier := p + ucast (virtq_size (ucast qsz))\<rparr>)"
    using leD [OF assms(3)] by (simp only: forever_alloc_aligned_def Let_def flip: assms(2)) (simp only: if_False)
  then show ?thesis by (simp add: vring_init_eq [OF assms(1)])
qed

lemma start_queue_run:
  assumes d: "d < length (virtio_drivers s)" and h: "host (virtio_drivers s ! d) = h"
    and regs: "registers_only hw g A" "h + 8 \<in> A" "h + 18 \<in> A"
    and heap: "free_elements sizeof_vring s = (x, e) # es"
    and p: "p = ALIGN_UP (forever_storage_frontier s) 4096" "p + ucast (virtq_size (ucast q)) \<le> ld_forever_storage_stop ld"
  obtains t v where "start_queue hw ld d h q n s = Ok True t" and "vring_at t (d, 0) v" and "initialized (virtio_drivers t ! d)"
    and "host (virtio_drivers t ! d) = h" and "length (virtio_drivers t) = length (virtio_drivers s)"
    and "vr_num v = ucast n" "vr_desc v = p" "vr_avail v = avail_at p q" "vr_used v = used_at p q"
    and "used_last (bookeeping v) = 0" "avail_next (bookeeping v) = 0" "descr_next (bookeeping v) = 0"
    and "desc_mem (bus t) = desc_mem (bus s)" "used_mem (bus t) = used_mem (bus s)"
    and "avail_mem (bus t) = (avail_mem (bus s))(avail_at p q := (avail_mem (bus s) (avail_at p q))\<lparr>a_flags := 1\<rparr>)"
    and "g (dev (bus t)) = g (dev (bus s))" and "ram t = (ram s)(e := 1)"
proof -
  define s2 where "s2 = (mark_used e s)\<lparr>virtio_drivers := (virtio_drivers s)[d := (virtio_drivers s ! d)\<lparr>vring :=
    [vring_in (ram (mark_used e s)) (e + 1)]\<rparr>]\<rparr>"
  have alloc: "alloc_vrings d 1 s = Ok () s2" using alloc_vrings_eq [OF d, of 1] heap by (simp add: s2_def)
  obtain v0 where v0: "vring_at s2 (d, 0) v0" using d by (simp add: s2_def vring_at_def)
  have drv: "virtio_drivers s2 ! d = (virtio_drivers s ! d)\<lparr>vring := [v0]\<rparr>" "length (virtio_drivers s2) = length (virtio_drivers s)"
    using v0 d by (simp_all add: s2_def vring_at_def)
  have b2: "desc_mem (bus s2) = desc_mem (bus s)" "avail_mem (bus s2) = avail_mem (bus s)" "used_mem (bus s2) = used_mem (bus s)"
    "dev (bus s2) = dev (bus s)" "forever_storage_frontier s2 = forever_storage_frontier s" "ram s2 = (ram s)(e := 1)"
    by (simp_all add: s2_def mark_used_def)
  obtain v1 s3 where init: "vring_init ld (d, 0) q s2 = Ok () (upd_vring (d, 0) v1 s3)"
    and v1: "vr_desc v1 = p" "vr_avail v1 = avail_at p q" "vr_used v1 = used_at p q" "used_last (bookeeping v1) = 0"
      "avail_next (bookeeping v1) = 0" "descr_next (bookeeping v1) = 0"
    and s3: "virtio_drivers s3 = virtio_drivers s2" "desc_mem (bus s3) = desc_mem (bus s)" "used_mem (bus s3) = used_mem (bus s)"
      "avail_mem (bus s3) = (avail_mem (bus s))(avail_at p q := (avail_mem (bus s) (avail_at p q))\<lparr>a_flags := 1\<rparr>)"
      "dev (bus s3) = dev (bus s)" "ram s3 = (ram s)(e := 1)"
    using vring_init_room [OF v0, of p q ld] p by (simp add: b2)
  define v2 where "v2 = v1\<lparr>vr_num := ucast n\<rparr>"
  define b where "b = hw_store hw (h + 18) 1 6 (hw_store hw (h + 8) 4 (ucast (ucast (drop_bit 12 p) :: u32)) (bus s3))"
  define t where "t = s3\<lparr>virtio_drivers := (virtio_drivers s3)[d := (virtio_drivers s ! d)\<lparr>vring := [v2], initialized := True\<rparr>],
    bus := b\<rparr>"
  have at3: "vring_at s3 (d, 0) v0" using v0 s3(1) by (simp add: vring_at_def)
  have run: "start_queue hw ld d h q n s = Ok True t"
    using alloc init at3 d drv s3(1)
    by (simp add: start_queue_def monad_simps set_vring_num_def queue_desc_write_def driver_up_def virtio_device_queue_desc_write_def
      virtio_device_set_status_def VIRTIO_DEVICE_STATUS_DRIVER_KNOWS_def VIRTIO_DEVICE_STATUS_DRIVER_OK_def
      get_vring_def set_vring_def get_driver_def set_driver_def upd_vring_def t_def b_def v2_def v1)
  show thesis
    by (rule that [OF run, of v2])
      (use d h drv s3 in \<open>simp_all add: t_def vring_at_def v2_def v1 b_def register_write [OF regs(1,2)] register_write [OF regs(1,3)]\<close>)
qed

lemma start_queue_ready:
  assumes d: "d < length (virtio_drivers s)" and h: "host (virtio_drivers s ! d) = h"
    and regs: "registers_only hw (dv_seen dv) A" "h + 8 \<in> A" "h + 18 \<in> A"
    and heap: "free_elements sizeof_vring s = (x, e) # es"
    and p: "p = ALIGN_UP (forever_storage_frontier s) 4096" "p + ucast (virtq_size 256) \<le> ld_forever_storage_stop ld"
    and v: "blk_device hw dv h v" "vr_desc v = p" "vr_avail v = avail_at p 256" "vr_used v = used_at p 256" "vr_num v = ucast n"
    and n: "4 \<le> unat n" "unat n \<le> length (desc_mem (bus s) p)"
    and ring: "unat n \<le> length (a_ring (avail_mem (bus s) (avail_at p 256)))"
      "\<forall>i<unat n. a_ring (avail_mem (bus s) (avail_at p 256)) ! i = 0"
    and idx: "a_idx (avail_mem (bus s) (avail_at p 256)) = 0" "u_idx (used_mem (bus s) (used_at p 256)) = 0"
      "dv_seen dv (dev (bus s)) = 0"
  shows "\<exists>t. start_queue hw ld d h 256 n s = Ok True t \<and> blk_ready hw dv d t"
proof -
  have room: "p + ucast (virtq_size (ucast (256 :: u64))) \<le> ld_forever_storage_stop ld" using p(2) by simp
  obtain t w where run: "start_queue hw ld d h 256 n s = Ok True t" and at: "vring_at t (d, 0) w" "initialized (virtio_drivers t ! d)"
      "host (virtio_drivers t ! d) = h" "length (virtio_drivers t) = length (virtio_drivers s)"
    and w: "vr_num w = ucast n" "vr_desc w = p" "vr_avail w = avail_at p 256" "vr_used w = used_at p 256"
      "used_last (bookeeping w) = 0" "avail_next (bookeeping w) = 0" "descr_next (bookeeping w) = 0"
    and b: "desc_mem (bus t) = desc_mem (bus s)" "used_mem (bus t) = used_mem (bus s)"
      "avail_mem (bus t) = (avail_mem (bus s))(avail_at p 256 := (avail_mem (bus s) (avail_at p 256))\<lparr>a_flags := 1\<rparr>)"
      "dv_seen dv (dev (bus t)) = dv_seen dv (dev (bus s))"
    by (rule start_queue_run [OF d h regs heap p(1) room, of n]) blast
  have "blk_device hw dv h w" using v blk_device_cong [of w v hw dv h] w by simp
  then have "blk_ready hw dv d t"
    unfolding blk_ready_def using d at n ring idx b by (intro conjI exI [of _ w]) (simp_all add: w unat_ucast_up)
  then show ?thesis using run by blast
qed


text \<open>A machine before the drivers are started, and its device with a queue of 256 entries.\<close>

definition fresh_vring :: vring where
  "fresh_vring = ref_vring\<lparr>vr_num := 256, vr_desc := 0x80306000, vr_avail := avail_at 0x80306000 256,
     vr_used := used_at 0x80306000 256\<rparr>"

definition fresh_hw :: "ref_disk hw" where
  "fresh_hw = (ref_hw fresh_vring)\<lparr>hw_load := (\<lambda>_ _ _. 256)\<rparr>"

definition fresh_state :: "ref_disk virtio_state" where
  "fresh_state = heap_state.extend (heap_init demandos_linker ((ref_bus (\<lambda>_. []) 64)\<lparr>
       desc_mem := (\<lambda>_. replicate 256 \<lparr>d_addr = 0, d_len = 0, d_flags = 0, d_next = 0\<rparr>),
       avail_mem := (\<lambda>_. \<lparr>a_flags = 0, a_idx = 0, a_ring = replicate 256 0\<rparr>)\<rparr>))
     (virtio_state.fields (replicate MAX_VIRTIO_DEVICE_ID empty_driver) 0)"

lemma fresh_state_simps [simp]:
  "length (virtio_drivers fresh_state) = 10" "forever_storage_frontier fresh_state = 0x80306000"
  "desc_mem (bus fresh_state) q = replicate 256 \<lparr>d_addr = 0, d_len = 0, d_flags = 0, d_next = 0\<rparr>"
  "avail_mem (bus fresh_state) q = \<lparr>a_flags = 0, a_idx = 0, a_ring = replicate 256 0\<rparr>"
  "u_idx (used_mem (bus fresh_state) q) = 0" "rf_seen (dev (bus fresh_state)) = 0"
  "free_elements 64 fresh_state \<noteq> []"
  by (simp_all add: fresh_state_def heap_init_def ref_bus_def heap_state.defs virtio_state.defs MAX_VIRTIO_DEVICE_ID_def
    demandos_linker_def free_elements_def arenas_def arena_free_def)


end
