(* ===== verification/Entropy.thy ===== *)
theory Entropy
  imports Devices
begin

text \<open>
  The entropy driver (\<open>init_entropy_virtio\<close> and \<open>virtio_get_randomness\<close> of src/virtio_driver.c): with a device
  that fills the buffers it is given, starting the driver succeeds and the bytes that a caller gets
  are those of the device, in order and none twice.
\<close>

section \<open>The device\<close>

text \<open>
  The entropy device of the VIRTIO specification, for a device that uses the whole of a buffer: it takes the head
  that it finds in the available ring at its own index, fills the device-writable buffer of that
  descriptor with its next bytes, and the used index advances by one.  The bytes that the device is
  going to deliver are part of its state.
\<close>

record 'd rng_view =
  rv_bytes :: "'d \<Rightarrow> nat \<Rightarrow> u8"
  rv_seen :: "'d \<Rightarrow> u16"

definition rng_request :: "'d rng_view \<Rightarrow> vring \<Rightarrow> 'd bus \<Rightarrow> vring_desc_item option" where
  "rng_request rv v b =
     (let head = unat (a_ring (avail_mem b (vr_avail v)) ! (unat (rv_seen rv (dev b)) mod unat (vr_num v))) in
      if head < length (desc_mem b (vr_desc v)) then
        let item = desc_mem b (vr_desc v) ! head in
        if device_writable item \<and> \<not> bit (d_flags item) 0 then Some item else None
      else None)"

definition rng_effect :: "'d rng_view \<Rightarrow> vring \<Rightarrow> vring_desc_item \<Rightarrow> 'd bus \<Rightarrow> 'd bus \<Rightarrow> bool" where
  "rng_effect rv v item b b' \<longleftrightarrow>
     u_idx (used_mem b' (vr_used v)) = u_idx (used_mem b (vr_used v)) + 1 \<and>
     rv_seen rv (dev b') = rv_seen rv (dev b) + 1 \<and>
     desc_mem b' = desc_mem b \<and> avail_mem b' = avail_mem b \<and>
     rv_bytes rv (dev b') = (\<lambda>i. rv_bytes rv (dev b) (unat (d_len item) + i)) \<and>
     mem b' = store_bytes (d_addr item) (bytes_at (rv_bytes rv (dev b)) 0 (unat (d_len item))) (mem b)"

definition rng_device :: "'d hw \<Rightarrow> 'd rng_view \<Rightarrow> u64 \<Rightarrow> vring \<Rightarrow> bool" where
  "rng_device hw rv h v \<longleftrightarrow>
     (\<forall>b item. a_idx (avail_mem b (vr_avail v)) = rv_seen rv (dev b) + 1 \<longrightarrow> rng_request rv v b = Some item \<longrightarrow>
        (\<exists>b'. completes hw (vr_used v) (u_idx (used_mem b (vr_used v))) (hw_store hw (h + 16) 2 0 b) b' \<and>
              rng_effect rv v item b b'))"

lemma rng_device_cong:
  "vr_desc w = vr_desc v \<Longrightarrow> vr_avail w = vr_avail v \<Longrightarrow> vr_used w = vr_used v \<Longrightarrow>
   vr_num w = vr_num v \<Longrightarrow> rng_device hw rv h w = rng_device hw rv h v"
  by (simp add: rng_device_def rng_request_def rng_effect_def Let_def)

section \<open>The driver between two requests\<close>

text \<open>
  The driver posts a head at \<open>avail_next mod (num - 1)\<close> while the device looks at \<open>idx mod num\<close>, so the
  device may take the head of an earlier request.  That is harmless as long as every head in the ring
  either is the descriptor that is filled next, or still describes the buffer that is in use.
\<close>

definition rng_item :: "u64 \<Rightarrow> vring_desc_item" where
  "rng_item p = \<lparr>d_addr = p, d_len = 8, d_flags = 2, d_next = 0\<rparr>"

definition rng_idle :: "'d hw \<Rightarrow> 'd rng_view \<Rightarrow> frame \<Rightarrow> nat \<Rightarrow> vring \<Rightarrow> u16 \<Rightarrow> ('d, 'z) virtio_state_scheme \<Rightarrow> bool" where
  "rng_idle hw rv fr d v n s \<longleftrightarrow> vring_at s (d, 0) v \<and> initialized (virtio_drivers s ! d) \<and>
     rng_device hw rv (host (virtio_drivers s ! d)) v \<and> 2 \<le> unat (vr_num v) \<and> unat (vr_num v) \<le> 65536 \<and> unat n < unat (vr_num v) \<and>
     unat (vr_num v) \<le> length (desc_mem (bus s) (vr_desc v)) \<and>
     unat (vr_num v) \<le> length (a_ring (avail_mem (bus s) (vr_avail v))) \<and>
     (\<forall>i < unat (vr_num v). let h = a_ring (avail_mem (bus s) (vr_avail v)) ! i in
        unat h < unat (vr_num v) \<and> (h = n \<or> desc_mem (bus s) (vr_desc v) ! unat h = rng_item (rng_buf fr))) \<and>
     used_last (bookeeping v) = u_idx (used_mem (bus s) (vr_used v)) \<and>
     avail_next (bookeeping v) = a_idx (avail_mem (bus s) (vr_avail v)) \<and>
     avail_next (bookeeping v) = rv_seen rv (dev (bus s))"

definition rng_ready :: "'d hw \<Rightarrow> 'd rng_view \<Rightarrow> frame \<Rightarrow> nat \<Rightarrow> ('d, 'z) virtio_state_scheme \<Rightarrow> bool" where
  "rng_ready hw rv fr d s \<longleftrightarrow> (\<exists>v. rng_idle hw rv fr d v (descr_next (bookeeping v)) s)"

lemma rng_ready_cong: "virtio_drivers t = virtio_drivers s \<Longrightarrow> bus t = bus s \<Longrightarrow> rng_ready hw rv fr d t = rng_ready hw rv fr d s"
  by (simp add: rng_ready_def rng_idle_def vring_at_def)

lemma rng_ready_mem [simp]: "rng_ready hw rv fr d (s\<lparr>bus := (bus s)\<lparr>mem := m\<rparr>\<rparr>) = rng_ready hw rv fr d s"
  by (simp add: rng_ready_def rng_idle_def)

lemma ucast_ucast_u16 [simp]: "ucast (ucast n :: u32) = (n :: u16)" "ucast (ucast n :: u64) = (ucast n :: u32)"
  by (rule bit_word_eqI; simp add: bit_simps)+

section \<open>One chunk\<close>

lemma internal_memcpy_outside: "(\<And>i. i < n \<Longrightarrow> a \<noteq> dest + of_nat i) \<Longrightarrow> internal_memcpy dest src n m a = m a"
proof (induction n arbitrary: dest src m)
  case (Suc n)
  have "a \<noteq> dest + 1 + of_nat i" if "i < n" for i using Suc.prems [of "Suc i"] that by (simp add: ac_simps)
  moreover have "a \<noteq> dest" using Suc.prems [of 0] by simp
  ultimately show ?case using Suc.IH [of "dest + 1" "src + 1" "m(dest := m src)"] by (simp add: fun_upd_def)
qed simp

lemma internal_memcpy_copies:
  assumes "disjoint_ranges dest n src n" and "n < 2 ^ 64"
  shows "load_bytes dest n (internal_memcpy dest src n m) = load_bytes src n m"
  using assms
proof (induction n arbitrary: dest src m)
  case (Suc n)
  let ?m = "m(dest := m src)"
  have apart: "dest + of_nat i \<noteq> src + of_nat j" if "i < Suc n" "j < Suc n" for i j
    using Suc.prems(1) that unfolding disjoint_ranges_def by blast
  have "disjoint_ranges (dest + 1) n (src + 1) n"
    unfolding disjoint_ranges_def using apart [of "Suc _" "Suc _"] by (simp add: ac_simps)
  then have "load_bytes (dest + 1) n (internal_memcpy (dest + 1) (src + 1) n ?m) = load_bytes (src + 1) n ?m"
    using Suc.prems(2) by (intro Suc.IH) simp_all
  also have "\<dots> = load_bytes (src + 1) n m"
    using apart [of 0 "Suc _"] by (intro nth_equalityI) (auto simp: nth_load_bytes ac_simps)
  finally have rest: "load_bytes (dest + 1) n (internal_memcpy dest src (Suc n) m) = load_bytes (src + 1) n m" by simp
  have "dest \<noteq> dest + 1 + of_nat i" if "i < n" for i
  proof -
    have "unat (of_nat (Suc i) :: u64) = Suc i" using that Suc.prems(2) by (intro unat_of_nat_small) simp
    then have "(of_nat (Suc i) :: u64) \<noteq> 0" by (metis nat.distinct(1) unat_0)
    then show ?thesis by (simp add: add.assoc)
  qed
  then have "internal_memcpy dest src (Suc n) m dest = m src"
    using internal_memcpy_outside [of n dest "dest + 1" "src + 1" ?m] by simp
  then show ?case
    using rest load_bytes_split [of dest 1 n] load_bytes_split [of src 1 n] by (simp add: load_bytes_def)
qed (simp add: load_bytes_def)


text \<open>The bus when a chunk has been posted, and the queue when it has been served.\<close>

definition rng_posted :: "frame \<Rightarrow> vring \<Rightarrow> u16 \<Rightarrow> 'd bus \<Rightarrow> 'd bus" where
  "rng_posted fr v n b = upd_avail (vr_avail v) (post_slot v) n (avail_next (bookeeping v) + 1)
     (upd_desc (vr_desc v) (unat n) (rng_item (rng_buf fr)) b)"

definition rng_served :: "vring \<Rightarrow> u16 \<Rightarrow> 'd bus \<Rightarrow> vring" where
  "rng_served v n b = v\<lparr>bookeeping := (bookeeping v)\<lparr>avail_next := avail_next (bookeeping v) + 1,
     used_last := u_idx (used_mem b (vr_used v)), descr_next := n\<rparr>\<rparr>"

lemma randomness_chunk_eval:
  assumes at: "vring_at s (d, 0) v" and num: "2 \<le> unat (vr_num v)" and n: "unat n < unat (vr_num v)"
    and desc: "unat (vr_num v) \<le> length (desc_mem (bus s) (vr_desc v))"
    and ring: "unat (vr_num v) \<le> length (a_ring (avail_mem (bus s) (vr_avail v)))"
    and fin: "completes hw (vr_used v) (used_last (bookeeping v))
      (hw_store hw (host (virtio_drivers s ! d) + 16) 2 0 (rng_posted fr v n (bus s))) b'"
  shows "randomness_chunk hw fr d buffer len filled n s = Ok (ucast (next_descr v))
    (upd_vring (d, 0) (rng_served v n b')
      (s\<lparr>bus := b'\<lparr>mem := internal_memcpy (buffer + of_nat filled) (rng_buf fr) (min (len - filled) 8) (mem b')\<rparr>\<rparr>))"
proof -
  have d: "d < length (virtio_drivers s)" using at by (simp add: vring_at_def)
  have host: "host (virtio_drivers (upd_vring (d, 0) w t) ! d) = host (virtio_drivers s ! d)"
    and len: "d < length (virtio_drivers (upd_vring (d, 0) w t))"
    if "virtio_drivers t = virtio_drivers s" for w t
    using that d by (simp_all add: upd_vring_def)
  have u: "unat (ucast n :: u32) = unat n" by (simp add: unat_ucast_up)
  then have less: "ucast n < vr_num v" using n by (simp add: word_less_nat_alt)
  have slot: "post_slot (set_descr_next x v) = post_slot v" for x by (simp add: post_slot_def)
  have "post_slot v < length (a_ring (avail_mem (bus s) (vr_avail v)))" using post_slot_less [OF num] ring by simp
  moreover have "(if len - filled < 8 then len - filled else 8) = min (len - filled) 8" by simp
  ultimately show ?thesis
    unfolding randomness_chunk_def Let_def CHUNK_SIZE_def
    using at d num n less desc slot fin u
    by (simp add: monad_simps host len VRING_DESC_NEXT_def rng_posted_def rng_served_def rng_item_def)
qed

lemma rng_posted_request:
  assumes "rng_idle hw rv fr d v n s"
  shows "rng_request rv v (rng_posted fr v n (bus s)) = Some (rng_item (rng_buf fr))"
    and "\<forall>i < unat (vr_num v). let h = a_ring (avail_mem (rng_posted fr v n (bus s)) (vr_avail v)) ! i in
      unat h < unat (vr_num v) \<and> desc_mem (rng_posted fr v n (bus s)) (vr_desc v) ! unat h = rng_item (rng_buf fr)"
proof -
  let ?b = "rng_posted fr v n (bus s)"
  have num: "2 \<le> unat (vr_num v)" "unat n < unat (vr_num v)" "unat (vr_num v) \<le> length (desc_mem (bus s) (vr_desc v))"
    "unat (vr_num v) \<le> length (a_ring (avail_mem (bus s) (vr_avail v)))"
    and heads: "\<forall>i < unat (vr_num v). let h = a_ring (avail_mem (bus s) (vr_avail v)) ! i in
        unat h < unat (vr_num v) \<and> (h = n \<or> desc_mem (bus s) (vr_desc v) ! unat h = rng_item (rng_buf fr))"
    using assms by (simp_all add: rng_idle_def)
  have ring: "a_ring (avail_mem ?b (vr_avail v)) = (a_ring (avail_mem (bus s) (vr_avail v)))[post_slot v := n]"
    and desc: "desc_mem ?b (vr_desc v) = (desc_mem (bus s) (vr_desc v))[unat n := rng_item (rng_buf fr)]"
    by (simp_all add: rng_posted_def)
  show all: "\<forall>i < unat (vr_num v). let h = a_ring (avail_mem ?b (vr_avail v)) ! i in
      unat h < unat (vr_num v) \<and> desc_mem ?b (vr_desc v) ! unat h = rng_item (rng_buf fr)"
  proof (intro allI impI)
    fix i assume i: "i < unat (vr_num v)"
    define h where "h = a_ring (avail_mem ?b (vr_avail v)) ! i"
    have "h = n \<or> h = a_ring (avail_mem (bus s) (vr_avail v)) ! i"
      unfolding h_def ring using i num(4) by (cases "post_slot v = i") simp_all
    then have "unat h < unat (vr_num v) \<and> (h = n \<or> desc_mem (bus s) (vr_desc v) ! unat h = rng_item (rng_buf fr))"
      using heads num(2) i by (auto simp: Let_def)
    moreover from this have "desc_mem ?b (vr_desc v) ! unat h = rng_item (rng_buf fr)"
      unfolding desc using num(3) by (cases "unat n = unat h") auto
    ultimately show "let h = a_ring (avail_mem ?b (vr_avail v)) ! i in
        unat h < unat (vr_num v) \<and> desc_mem ?b (vr_desc v) ! unat h = rng_item (rng_buf fr)"
      unfolding h_def by (simp add: Let_def)
  qed
  have "unat (rv_seen rv (dev ?b)) mod unat (vr_num v) < unat (vr_num v)" using num(1) by simp
  then show "rng_request rv v ?b = Some (rng_item (rng_buf fr))"
    using all num(3) by (auto simp: rng_request_def Let_def device_writable_def rng_item_def desc)
qed

text \<open>
  A chunk comes back with the next eight bytes of the device in the buffer of the driver, from where
  they are copied; after it the driver is ready to use any descriptor.
\<close>

lemma randomness_chunk_run:
  assumes idle: "rng_idle hw rv fr d v n s"
  obtains b' where "randomness_chunk hw fr d buffer len filled n s = Ok (ucast (next_descr v))
      (upd_vring (d, 0) (rng_served v n b')
        (s\<lparr>bus := b'\<lparr>mem := internal_memcpy (buffer + of_nat filled) (rng_buf fr) (min (len - filled) 8) (mem b')\<rparr>\<rparr>))"
    and "mem b' = store_bytes (rng_buf fr) (bytes_at (rv_bytes rv (dev (bus s))) 0 8) (ram s)"
    and "rv_bytes rv (dev b') = (\<lambda>i. rv_bytes rv (dev (bus s)) (8 + i))"
    and "\<forall>k m. unat k < unat (vr_num v) \<longrightarrow>
      rng_idle hw rv fr d (rng_served v n b') k (upd_vring (d, 0) (rng_served v n b') (s\<lparr>bus := b'\<lparr>mem := m\<rparr>\<rparr>))"
proof -
  let ?b = "rng_posted fr v n (bus s)"
  note i = idle [unfolded rng_idle_def]
  have seen: "avail_next (bookeeping v) = rv_seen rv (dev (bus s))" using i by blast
  then have "a_idx (avail_mem ?b (vr_avail v)) = rv_seen rv (dev ?b) + 1" by (simp add: rng_posted_def)
  moreover have "used_mem ?b = used_mem (bus s)" by (simp add: rng_posted_def)
  ultimately obtain b' where fin: "completes hw (vr_used v) (used_last (bookeeping v))
      (hw_store hw (host (virtio_drivers s ! d) + 16) 2 0 ?b) b'" and eff: "rng_effect rv v (rng_item (rng_buf fr)) ?b b'"
    using rng_posted_request(1) [OF idle] i unfolding rng_device_def by metis
  have run: "randomness_chunk hw fr d buffer len filled n s = Ok (ucast (next_descr v))
      (upd_vring (d, 0) (rng_served v n b')
        (s\<lparr>bus := b'\<lparr>mem := internal_memcpy (buffer + of_nat filled) (rng_buf fr) (min (len - filled) 8) (mem b')\<rparr>\<rparr>))"
    by (rule randomness_chunk_eval [OF _ _ _ _ _ fin]) (use i in simp_all)
  have "rng_idle hw rv fr d (rng_served v n b') k (upd_vring (d, 0) (rng_served v n b') (s\<lparr>bus := b'\<lparr>mem := m\<rparr>\<rparr>))"
    if k: "unat k < unat (vr_num v)" for k m
  proof -
    define w where "w = rng_served v n b'"
    define t where "t = upd_vring (d, 0) w (s\<lparr>bus := b'\<lparr>mem := m\<rparr>\<rparr>)"
    have w: "vr_num w = vr_num v" "vr_desc w = vr_desc v" "vr_avail w = vr_avail v" "vr_used w = vr_used v"
      "used_last (bookeeping w) = u_idx (used_mem b' (vr_used v))" "avail_next (bookeeping w) = avail_next (bookeeping v) + 1"
      by (simp_all add: w_def rng_served_def)
    have drv: "virtio_drivers t ! d = (virtio_drivers s ! d)\<lparr>vring := (vring (virtio_drivers s ! d))[0 := w]\<rparr>"
      and at: "vring_at t (d, 0) w" and bus: "bus t = b'\<lparr>mem := m\<rparr>"
      using i by (simp_all add: t_def upd_vring_def vring_at_def)
    have mems: "desc_mem b' = desc_mem ?b" "avail_mem b' = avail_mem ?b" "rv_seen rv (dev b') = rv_seen rv (dev ?b) + 1"
      using eff by (simp_all add: rng_effect_def)
    have lens: "length (desc_mem ?b (vr_desc v)) = length (desc_mem (bus s) (vr_desc v))"
      "length (a_ring (avail_mem ?b (vr_avail v))) = length (a_ring (avail_mem (bus s) (vr_avail v)))"
      by (simp_all add: rng_posted_def)
    have "rng_device hw rv (host (virtio_drivers s ! d)) w" using i rng_device_cong [of w v, OF w(2-4,1)] by blast
    moreover have "avail_next (bookeeping v) + 1 = a_idx (avail_mem ?b (vr_avail v))" by (simp add: rng_posted_def)
    moreover have "avail_next (bookeeping v) = rv_seen rv (dev ?b)" using seen by (simp add: rng_posted_def)
    ultimately have "rng_idle hw rv fr d w k t"
      unfolding rng_idle_def using at i k rng_posted_request(2) [OF idle]
      by (simp add: drv w bus mems lens Let_def)
    then show ?thesis by (simp only: t_def w_def)
  qed
  moreover have "mem b' = store_bytes (rng_buf fr) (bytes_at (rv_bytes rv (dev (bus s))) 0 8) (ram s)"
    "rv_bytes rv (dev b') = (\<lambda>i. rv_bytes rv (dev (bus s)) (8 + i))"
    using eff by (simp_all add: rng_effect_def rng_item_def rng_posted_def)
  ultimately show thesis using that run by blast
qed

section \<open>Filling a buffer\<close>

text \<open>The memory that a chunk leaves.\<close>

lemma chunk_memory:
  assumes "disjoint_ranges buffer len (rng_buf fr) 8" and "filled < len" and "len \<le> 2 ^ 64" and "k = min (len - filled) 8"
    and "m' = internal_memcpy (buffer + of_nat filled) (rng_buf fr) k (store_bytes (rng_buf fr) (bytes_at f 0 8) m)"
  shows "load_bytes (buffer + of_nat filled) k m' = bytes_at f 0 k"
    and "\<forall>i<len. filled \<le> i \<longrightarrow> a \<noteq> buffer + of_nat i \<Longrightarrow> \<forall>i<8. a \<noteq> rng_buf fr + of_nat i \<Longrightarrow> m' a = m a"
proof -
  let ?m = "store_bytes (rng_buf fr) (bytes_at f 0 8) m"
  have "disjoint_ranges (buffer + of_nat filled) k (rng_buf fr) 8" by (rule disjoint_ranges_sub [OF assms(1)]) (use assms(2,4) in simp)
  then have "disjoint_ranges (buffer + of_nat filled) k (rng_buf fr) k" by (rule disjoint_ranges_mono) (simp_all add: assms(4))
  then have "load_bytes (buffer + of_nat filled) k m' = load_bytes (rng_buf fr) k ?m"
    unfolding assms(5) by (rule internal_memcpy_copies) (simp add: assms(4))
  also have "\<dots> = slice 0 k (load_bytes (rng_buf fr) 8 ?m)" using load_bytes_slice [of 0 k 8 "rng_buf fr" ?m] assms(4) by simp
  also have "\<dots> = bytes_at f 0 k" using load_store_same [of "bytes_at f 0 8" "rng_buf fr" m] slice_bytes_at [of 0 k 8 f 0] assms(4) by simp
  finally show "load_bytes (buffer + of_nat filled) k m' = bytes_at f 0 k" .
  assume buf: "\<forall>i<len. filled \<le> i \<longrightarrow> a \<noteq> buffer + of_nat i" and rng: "\<forall>i<8. a \<noteq> rng_buf fr + of_nat i"
  have "a \<noteq> buffer + of_nat filled + of_nat i" if "i < k" for i
    using buf [rule_format, of "filled + i"] that by (auto simp: assms(4) add.assoc less_diff_conv add.commute)
  then have "m' a = ?m a" unfolding assms(5) by (rule internal_memcpy_outside)
  also have "\<dots> = m a" using rng by (intro store_bytes_outside) simp
  finally show "m' a = m a" .
qed

lemma randomness_chunk_step:
  assumes "rng_idle hw rv fr d v n s" and "disjoint_ranges buffer len (rng_buf fr) 8" and "filled < len" and "len \<le> 2 ^ 64"
    and k: "k = min (len - filled) 8" and f: "f = rv_bytes rv (dev (bus s))"
  obtains u w n' where "randomness_chunk hw fr d buffer len filled n s = Ok n' u"
    and "rng_idle hw rv fr d w n' u" and "rng_ready hw rv fr d u" and "io_only s u" and "rv_bytes rv (dev (bus u)) = (\<lambda>i. f (8 + i))"
    and "load_bytes (buffer + of_nat filled) k (ram u) = bytes_at f 0 k"
    and "\<forall>a. (\<forall>i<len. filled \<le> i \<longrightarrow> a \<noteq> buffer + of_nat i) \<longrightarrow> (\<forall>i<8. a \<noteq> rng_buf fr + of_nat i) \<longrightarrow> ram u a = ram s a"
proof -
  obtain b' where chunk: "randomness_chunk hw fr d buffer len filled n s = Ok (ucast (next_descr v))
      (upd_vring (d, 0) (rng_served v n b') (s\<lparr>bus := b'\<lparr>mem := internal_memcpy (buffer + of_nat filled) (rng_buf fr) k (mem b')\<rparr>\<rparr>))"
    and b': "mem b' = store_bytes (rng_buf fr) (bytes_at f 0 8) (ram s)" "rv_bytes rv (dev b') = (\<lambda>i. f (8 + i))"
    and idle: "\<forall>k m. unat k < unat (vr_num v) \<longrightarrow>
      rng_idle hw rv fr d (rng_served v n b') k (upd_vring (d, 0) (rng_served v n b') (s\<lparr>bus := b'\<lparr>mem := m\<rparr>\<rparr>))"
    by (rule randomness_chunk_run [OF assms(1), of buffer len filled, folded k f]) blast
  define m where "m = internal_memcpy (buffer + of_nat filled) (rng_buf fr) k (mem b')"
  define u where "u = upd_vring (d, 0) (rng_served v n b') (s\<lparr>bus := b'\<lparr>mem := m\<rparr>\<rparr>)"
  have num: "2 \<le> unat (vr_num v)" "unat (vr_num v) \<le> 65536" "unat n < unat (vr_num v)" using assms(1) by (simp_all add: rng_idle_def)
  have "unat (ucast (next_descr v) :: u16) = unat (next_descr v)"
    using next_descr_less(1) [OF num(1)] num(2) by (simp add: unsigned_ucast_eq take_bit_nat_eq_self)
  then have "unat (ucast (next_descr v) :: u16) < unat (vr_num v)" using next_descr_less(1) [OF num(1)] by simp
  then have i: "rng_idle hw rv fr d (rng_served v n b') (ucast (next_descr v)) u" unfolding u_def using idle by blast
  have "descr_next (bookeeping (rng_served v n b')) = n" by (simp add: rng_served_def)
  then have r: "rng_ready hw rv fr d u" unfolding rng_ready_def using idle [rule_format, OF num(3), of m, folded u_def] by metis
  have u: "bus u = b'\<lparr>mem := m\<rparr>" "io_only s u" by (simp_all add: u_def io_only_upd_vring io_only_bus)
  note mem = chunk_memory [OF assms(2,3,4) k m_def [unfolded b'(1)]]
  show thesis
    by (rule that [OF chunk [folded m_def, folded u_def] i r u(2)]) (use u(1) b'(2) mem in simp_all)
qed

lemma bytes_at_shift: "bytes_at (\<lambda>i. f (n + i)) p k = bytes_at f (n + p) k"
  by (intro nth_equalityI) (simp_all add: nth_bytes_at add.assoc)

text \<open>Round up to whole chunks.\<close>

lemma chunks_step:
  assumes "filled < len"
  shows "(len - filled + 7) div 8 * 8 = 8 + (len - (filled + 8) + 7) div 8 * (8 :: nat)"
proof (cases "len - filled \<le> 8")
  case True
  then have "(len - filled + 7) div 8 = 1" using assms by (intro div_nat_eqI) simp_all
  with True show ?thesis by simp
next
  case False
  then have "len - filled + 7 = (len - (filled + 8) + 7) + 8" by simp
  then show ?thesis by (simp only: div_add_self2) simp
qed

lemma randomness_loop_run:
  assumes "rng_idle hw rv fr d v n s" and "rng_ready hw rv fr d s" and apart: "disjoint_ranges buffer len (rng_buf fr) 8" and "len + 8 \<le> 2 ^ 64"
  shows "\<exists>t. randomness_loop hw fr d buffer len filled n s = Ok () t \<and> rng_ready hw rv fr d t \<and> io_only s t \<and>
    load_bytes (buffer + of_nat filled) (len - filled) (ram t) = bytes_at (rv_bytes rv (dev (bus s))) 0 (len - filled) \<and>
    rv_bytes rv (dev (bus t)) = (\<lambda>i. rv_bytes rv (dev (bus s)) ((len - filled + 7) div 8 * 8 + i)) \<and>
    (\<forall>a. (\<forall>i<len. filled \<le> i \<longrightarrow> a \<noteq> buffer + of_nat i) \<longrightarrow> (\<forall>i<8. a \<noteq> rng_buf fr + of_nat i) \<longrightarrow> ram t a = ram s a)"
  using assms(1,2)
proof (induction "len - filled" arbitrary: filled v n s rule: less_induct)
  case less
  show ?case
  proof (cases "filled < len")
    case False
    with less.prems show ?thesis
      by (subst randomness_loop.simps) (simp add: monad_simps load_bytes_def bytes_at_def)
  next
    case True
    define k where "k = min (len - filled) 8"
    define f where "f = rv_bytes rv (dev (bus s))"
    have len: "len \<le> 2 ^ 64" "filled + 8 < 2 ^ 64" using True assms(4) by simp_all
    obtain u w n' where chunk: "randomness_chunk hw fr d buffer len filled n s = Ok n' u"
      and u: "rng_idle hw rv fr d w n' u" "rng_ready hw rv fr d u" "io_only s u" "rv_bytes rv (dev (bus u)) = (\<lambda>i. f (8 + i))"
        "load_bytes (buffer + of_nat filled) k (ram u) = bytes_at f 0 k"
      and kept: "\<forall>a. (\<forall>i<len. filled \<le> i \<longrightarrow> a \<noteq> buffer + of_nat i) \<longrightarrow> (\<forall>i<8. a \<noteq> rng_buf fr + of_nat i) \<longrightarrow> ram u a = ram s a"
      by (rule randomness_chunk_step [OF less.prems(1) apart True len(1) k_def f_def]) blast
    have "len - (filled + 8) < len - filled" using True by simp
    from less.hyps [OF this u(1,2)] obtain t where
      t: "randomness_loop hw fr d buffer len (filled + 8) n' u = Ok () t" "rng_ready hw rv fr d t" "io_only u t"
      "load_bytes (buffer + of_nat (filled + 8)) (len - (filled + 8)) (ram t) = bytes_at (\<lambda>i. f (8 + i)) 0 (len - (filled + 8))"
      "rv_bytes rv (dev (bus t)) = (\<lambda>i. f (8 + ((len - (filled + 8) + 7) div 8 * 8 + i)))"
      "\<forall>a. (\<forall>i<len. filled + 8 \<le> i \<longrightarrow> a \<noteq> buffer + of_nat i) \<longrightarrow> (\<forall>i<8. a \<noteq> rng_buf fr + of_nat i) \<longrightarrow> ram t a = ram u a"
      unfolding u(4) by blast
    have "ram t (buffer + of_nat (filled + j)) = ram u (buffer + of_nat (filled + j))" if j: "j < k" for j
    proof -
      have "buffer + of_nat (filled + j) \<noteq> buffer + of_nat i" if "i < len" "filled + 8 \<le> i" for i
        using disjoint_offsets [of "filled + j" 1 i 1 buffer] that j len(1) by (simp add: disjoint_ranges_def k_def)
      moreover have "buffer + of_nat (filled + j) \<noteq> rng_buf fr + of_nat i" if "i < 8" for i
        using apart that j unfolding disjoint_ranges_def k_def by (metis add.commute less_diff_conv min_less_iff_conj)
      ultimately show ?thesis using t(6) by blast
    qed
    then have "load_bytes (buffer + of_nat filled) k (ram t) = load_bytes (buffer + of_nat filled) k (ram u)"
      by (intro nth_equalityI) (simp_all add: nth_load_bytes add.assoc)
    then have "load_bytes (buffer + of_nat filled) (k + (len - (filled + 8))) (ram t) = bytes_at f 0 (k + (len - (filled + 8)))"
      using u(5) t(4) load_bytes_split [of "buffer + of_nat filled" k "len - (filled + 8)" "ram t"]
        bytes_at_append [of f 0 k "len - (filled + 8)"] bytes_at_shift [of f 8 0]
      by (cases "len - filled \<le> 8") (simp_all add: k_def add.assoc)
    moreover have "k + (len - (filled + 8)) = len - filled" by (simp add: k_def)
    moreover have "randomness_loop hw fr d buffer len filled n s = Ok () t"
      using True chunk len(2) t(1) by (subst randomness_loop.simps) (simp add: monad_simps CHUNK_SIZE_def)
    moreover have "rv_bytes rv (dev (bus t)) = (\<lambda>i. f ((len - filled + 7) div 8 * 8 + i))"
      unfolding chunks_step [OF True] using t(5) by (simp add: add.assoc)
    ultimately show ?thesis
      using t(2,6) kept io_only_trans [OF u(3) t(3)] unfolding f_def by auto
  qed
qed

lemma get_randomness_run:
  assumes "rng_ready hw rv fr 5 s" and "disjoint_ranges buffer (unat len) (rng_buf fr) 8" and "unat len + 8 \<le> 2 ^ 64"
  shows "\<exists>t. virtio_get_randomness hw fr buffer len s = Ok len t \<and> rng_ready hw rv fr 5 t \<and> io_only s t \<and>
    load_bytes buffer (unat len) (ram t) = bytes_at (rv_bytes rv (dev (bus s))) 0 (unat len) \<and>
    rv_bytes rv (dev (bus t)) = (\<lambda>i. rv_bytes rv (dev (bus s)) ((unat len + 7) div 8 * 8 + i)) \<and>
    (\<forall>a. (\<forall>i<unat len. a \<noteq> buffer + of_nat i) \<longrightarrow> (\<forall>i<8. a \<noteq> rng_buf fr + of_nat i) \<longrightarrow> ram t a = ram s a)"
proof -
  define u where "u = s\<lparr>bus := (bus s)\<lparr>mem := store_bytes (rng_buf fr) (replicate 8 0) (ram s)\<rparr>\<rparr>"
  have ready: "rng_ready hw rv fr 5 u" using assms(1) by (simp add: u_def)
  then obtain v where v: "rng_idle hw rv fr 5 v (descr_next (bookeeping v)) u" by (auto simp: rng_ready_def)
  obtain t where t: "randomness_loop hw fr 5 buffer (unat len) 0 (descr_next (bookeeping v)) u = Ok () t" "rng_ready hw rv fr 5 t" "io_only u t"
    "load_bytes buffer (unat len) (ram t) = bytes_at (rv_bytes rv (dev (bus u))) 0 (unat len)"
    "rv_bytes rv (dev (bus t)) = (\<lambda>i. rv_bytes rv (dev (bus u)) ((unat len + 7) div 8 * 8 + i))"
    "\<forall>a. (\<forall>i<unat len. a \<noteq> buffer + of_nat i) \<longrightarrow> (\<forall>i<8. a \<noteq> rng_buf fr + of_nat i) \<longrightarrow> ram t a = ram u a"
    using randomness_loop_run [OF v ready assms(2,3), of 0] by auto
  have d: "5 < length (virtio_drivers u)" "initialized (virtio_drivers u ! 5)" "vring_at u (5, 0) v"
    using v by (simp_all add: rng_idle_def vring_at_def)
  have "virtio_get_randomness hw fr buffer len s = Ok len t"
    using d t(1) by (simp add: virtio_get_randomness_def find_virtio_driver_def get_driver_def monad_simps CHUNK_SIZE_def flip: u_def)
  moreover have "ram u a = ram s a" if "\<forall>i<8. a \<noteq> rng_buf fr + of_nat i" for a
    unfolding u_def using that store_bytes_outside [of "replicate 8 0" a "rng_buf fr" "ram s"] by simp
  moreover have "io_only s t" using t(3) io_only_trans [OF io_only_bus [OF io_only_refl]] by (simp add: u_def)
  ultimately show ?thesis using t by (simp add: u_def)
qed

section \<open>Starting the driver\<close>

lemma init_entropy_split:
  assumes "d < length (virtio_drivers s)" and "\<forall>b. ucast (hw_load hw (h + 12) 2 b) = (n :: u16)"
  shows "init_entropy_virtio hw ld d pd pbus pdev pfun h pr s = start_queue hw ld d h (ucast n) n (s\<lparr>
    virtio_drivers := (virtio_drivers s)[d := (virtio_drivers s ! d)\<lparr>host := h, pci := pr, conf := pd\<rparr>],
    bus := hw_store hw (h + 14) 2 0 (hw_store hw (h + 18) 1 1 (hw_store hw (pd + 4) 1 7 (hw_store hw (pd + 0x14) 4 0xffffffff
      (hw_store hw (pd + 0x10) 4 (ucast pr) (bus s)))))\<rparr>)"
  using attach_device_eq [OF assms(1)] assms(2)
  by (simp add: init_entropy_virtio_def start_queue_def monad_simps virtio_device_queue_select_def virtio_device_queue_size_read_def)

text \<open>
  Starting the driver: if the device reports a queue of at least two entries, heap and forever storage have
  room and the memory of the queue is zero, the driver comes up ready.
\<close>

lemma init_entropy_virtio_ready:
  assumes "d < length (virtio_drivers s)" and regs: "registers_only hw (\<lambda>e. (rv_seen rv e, rv_bytes rv e)) (setup_registers pd h)"
    and "\<forall>b. ucast (hw_load hw (h + 12) 2 b) = (n :: u16)" and "2 \<le> unat n" and "free_elements 64 s \<noteq> []"
    and "p = ALIGN_UP (forever_storage_frontier s) 4096" and "p + ucast (virtq_size (ucast n)) \<le> ld_forever_storage_stop ld"
    and "rng_device hw rv h v" and "vr_desc v = p" and "vr_avail v = avail_at p (ucast n)" and "vr_used v = used_at p (ucast n)"
    and "vr_num v = ucast n" and "unat n \<le> length (desc_mem (bus s) p)"
    and "a_ring (avail_mem (bus s) (avail_at p (ucast n))) = replicate (unat n) 0" and "a_idx (avail_mem (bus s) (avail_at p (ucast n))) = 0"
    and "u_idx (used_mem (bus s) (used_at p (ucast n))) = 0" and "rv_seen rv (dev (bus s)) = 0"
  shows "\<exists>t. init_entropy_virtio hw ld d pd pbus pdev pfun h pr s = Ok True t \<and> rng_ready hw rv fr d t \<and>
    rv_bytes rv (dev (bus t)) = rv_bytes rv (dev (bus s)) \<and> ram t = (ram s)(snd (hd (free_elements 64 s)) := 1)"
proof -
  define b where "b = hw_store hw (h + 14) 2 0 (hw_store hw (h + 18) 1 1 (hw_store hw (pd + 4) 1 7 (hw_store hw (pd + 0x14) 4 0xffffffff
      (hw_store hw (pd + 0x10) 4 (ucast pr) (bus s)))))"
  define s1 where "s1 = s\<lparr>virtio_drivers := (virtio_drivers s)[d := (virtio_drivers s ! d)\<lparr>host := h, pci := pr, conf := pd\<rparr>], bus := b\<rparr>"
  note reg = register_write [OF regs]
  have b: "mem b = mem (bus s)" "desc_mem b = desc_mem (bus s)" "avail_mem b = avail_mem (bus s)" "used_mem b = used_mem (bus s)"
    "(rv_seen rv (dev b), rv_bytes rv (dev b)) = (rv_seen rv (dev (bus s)), rv_bytes rv (dev (bus s)))"
    by (simp_all only: b_def reg setup_registers_def insert_iff simp_thms)
  have same: "free_elements sizeof_vring s1 = free_elements 64 s" by (simp add: free_elements_def arenas_def s1_def b sizeof_vring_def)
  then obtain x e es where heap: "free_elements sizeof_vring s1 = (x, e) # es" using assms(5) by (cases "free_elements 64 s") auto
  have s1: "d < length (virtio_drivers s1)" "host (virtio_drivers s1 ! d) = h" "p = ALIGN_UP (forever_storage_frontier s1) 4096"
    "p + ucast (virtq_size (ucast (ucast n :: u64))) \<le> ld_forever_storage_stop ld"
    using assms(1,6,7) by (simp_all add: s1_def ucast_ucast_u16)
  have set: "h + 8 \<in> setup_registers pd h" "h + 18 \<in> setup_registers pd h" by (simp_all add: setup_registers_def)
  obtain t w where run: "start_queue hw ld d h (ucast n) n s1 = Ok True t" and at: "vring_at t (d, 0) w" "initialized (virtio_drivers t ! d)"
      "host (virtio_drivers t ! d) = h"
    and w: "vr_num w = ucast n" "vr_desc w = p" "vr_avail w = avail_at p (ucast n)" "vr_used w = used_at p (ucast n)"
      "used_last (bookeeping w) = 0" "avail_next (bookeeping w) = 0" "descr_next (bookeeping w) = 0"
    and t: "desc_mem (bus t) = desc_mem (bus s1)" "used_mem (bus t) = used_mem (bus s1)"
      "avail_mem (bus t) = (avail_mem (bus s1))(avail_at p (ucast n) := (avail_mem (bus s1) (avail_at p (ucast n)))\<lparr>a_flags := 1\<rparr>)"
      "(rv_seen rv (dev (bus t)), rv_bytes rv (dev (bus t))) = (rv_seen rv (dev (bus s1)), rv_bytes rv (dev (bus s1)))" "ram t = (ram s1)(e := 1)"
    by (rule start_queue_run [OF s1(1,2) regs set heap s1(3,4), where n = n]) blast
  have "rng_device hw rv h w" using assms(8-12) rng_device_cong [of w v hw rv h] w by simp
  moreover have "unat (ucast n :: u32) = unat n" by (simp add: unat_ucast_up)
  moreover have "unat n \<le> 65536" using unsigned_less [of n, where 'a = nat] by simp
  ultimately have "rng_idle hw rv fr d w (descr_next (bookeeping w)) t"
    unfolding rng_idle_def using at t assms(4,13-17) b by (simp add: w s1_def Let_def)
  moreover have "free_elements 64 s = (x, e) # es" using heap same by simp
  then have "ram t = (ram s)(snd (hd (free_elements 64 s)) := 1)" using t(5) b(1) by (simp add: s1_def)
  ultimately show ?thesis
    using run t(4) b(5) init_entropy_split [OF assms(1,3)] unfolding rng_ready_def by (auto simp: s1_def b_def)
qed

section \<open>Finding the device\<close>

text \<open>Exactly one function of the configuration space answers with the vendor of virtio devices.\<close>

definition lone_virtio :: "'d hw \<Rightarrow> u32 \<Rightarrow> bool" where
  "lone_virtio hw i \<longleftrightarrow> i < MAX_PCI_OFF \<and> i mod 4096 = 0 \<and>
     (\<forall>j b. j < MAX_PCI_OFF \<and> j mod 4096 = 0 \<longrightarrow> (ucast (hw_load hw (PCI_BASE + ucast j) 2 b) = (0x1af4 :: u16)) = (j = i))"

definition no_virtio :: "'d hw \<Rightarrow> bool" where
  "no_virtio hw \<longleftrightarrow> (\<forall>j b. j < MAX_PCI_OFF \<and> j mod 4096 = 0 \<longrightarrow> ucast (hw_load hw (PCI_BASE + ucast j) 2 b) \<noteq> (0x1af4 :: u16))"

lemma next_function:
  assumes "j < MAX_PCI_OFF" and "j mod 4096 = 0"
  shows "unat (j + 4096) = unat j + 4096" and "(j + 4096) mod 4096 = 0"
proof -
  have "unat j < 0x308000" using assms(1) by (simp add: word_less_nat_alt pci_consts)
  then show j: "unat (j + 4096) = unat j + 4096" by (subst unat_add_small) simp_all
  have "unat j mod 4096 = 0" using assms(2) unat_mod_distrib [of j 4096] by simp
  then have "unat ((j + 4096) mod 4096) = 0" by (simp add: unat_mod_distrib j)
  then show "(j + 4096) mod 4096 = 0" by (simp add: unat_eq_0)
qed

lemma scan_passes:
  "ucast (hw_load hw (PCI_BASE + ucast i) 2 (bus s)) \<noteq> (0x1af4 :: u16) \<Longrightarrow> pci_scan_one hw ld i s = Ok () s"
  by (simp add: pci_scan_one_def monad_simps)

lemma pci_scan_none:
  assumes "\<forall>j b. i \<le> j \<and> j < MAX_PCI_OFF \<and> j mod 4096 = 0 \<longrightarrow> ucast (hw_load hw (PCI_BASE + ucast j) 2 b) \<noteq> (0x1af4 :: u16)"
    and "i mod 4096 = 0"
  shows "pci_scan_from hw ld i s = Ok () s"
  using assms
proof (induction hw ld i rule: pci_scan_from.induct)
  case (1 hw ld i)
  show ?case
  proof (cases "i < MAX_PCI_OFF")
    case True
    note nx = next_function [OF True "1.prems"(2)]
    have "i \<le> i + 4096" by (simp add: word_le_nat_alt nx(1))
    then have "pci_scan_from hw ld (i + 4096) s = Ok () s"
      using True "1.IH" [OF True] "1.prems"(1) nx(2) by (simp add: pci_consts(2)) (meson order_trans)
    with True show ?thesis
      using "1.prems" scan_passes [of hw i s ld] by (subst pci_scan_from.simps) (simp add: monad_simps pci_consts(2))
  qed (subst pci_scan_from.simps, simp add: monad_simps)
qed

lemma pci_scan_lone:
  assumes "lone_virtio hw i" and "j \<le> i" and "j mod 4096 = 0" and one: "pci_scan_one hw ld i s = Ok () t"
  shows "pci_scan_from hw ld j s = Ok () t"
  using assms(2,3)
proof (induction "unat i - unat j" arbitrary: j rule: less_induct)
  case less
  have i: "i < MAX_PCI_OFF" "i mod 4096 = 0" and ids: "\<And>j b. j < MAX_PCI_OFF \<Longrightarrow> j mod 4096 = 0 \<Longrightarrow>
      (ucast (hw_load hw (PCI_BASE + ucast j) 2 b) = (0x1af4 :: u16)) = (j = i)"
    using assms(1) by (simp_all add: lone_virtio_def)
  have j: "j < MAX_PCI_OFF" using less.prems(1) i(1) by simp
  note nx = next_function [OF j less.prems(2)]
  have unfold: "pci_scan_from hw ld j s = mthen (pci_scan_one hw ld j) (pci_scan_from hw ld (j + 4096)) s"
    using j by (subst pci_scan_from.simps) (simp add: pci_consts(2))
  show ?case
  proof (cases "j = i")
    case True
    have "\<not> j + 4096 \<le> i" using True nx(1) by (simp add: word_le_nat_alt)
    then have "pci_scan_from hw ld (j + 4096) t = Ok () t" using ids nx(2) by (intro pci_scan_none) auto
    then show ?thesis using unfold one True by (simp add: monad_simps)
  next
    case False
    then have less': "unat j < unat i" using less.prems(1) by (simp add: word_le_nat_alt) (metis le_neq_implies_less word_eq_unatI)
    have "unat j mod 4096 = 0" "unat i mod 4096 = 0" using less.prems(2) i(2) unat_mod_distrib [of j 4096] unat_mod_distrib [of i 4096] by simp_all
    then have "unat j + 4096 \<le> unat i" using less' by (auto simp: mod_eq_0_iff_dvd elim!: dvdE)
    then have "pci_scan_from hw ld (j + 4096) s = Ok () t"
      using less' nx by (intro less.hyps) (simp_all add: word_le_nat_alt)
    then show ?thesis using unfold False ids [OF j less.prems(2)] scan_passes [of hw j s ld] by (simp add: monad_simps)
  qed
qed

lemma load_driver_inits:
  "load_drivers driver_inits s = Ok () (s\<lparr>virtio_drivers := (virtio_drivers s)[5 := declared_driver 5 Init_entropy_virtio,
     3 := declared_driver 3 Init_console_virtio, 1 := declared_driver 1 Init_blk_virtio]\<rparr>)"
  by (simp add: driver_inits_def declared_driver_def monad_simps set_driver_def MAX_VIRTIO_DEVICE_ID_def word_le_nat_alt)

text \<open>A machine whose only virtio device is an entropy device with a queue of \<open>n\<close> entries, registers at \<open>h\<close> and its queue at \<open>p\<close>.\<close>

definition queue_of :: "u64 \<Rightarrow> u16 \<Rightarrow> vring" where
  "queue_of p n = \<lparr>vr_num = ucast n, vr_size = 0, bouncebufs = 0,
     bookeeping = \<lparr>used_last = 0, avail_next = 0, avail_avail = 0, used_avail = 0, descr_head = 0, descr_next = 0\<rparr>,
     vr_desc = p, vr_avail = avail_at p (ucast n), vr_used = used_at p (ucast n)\<rparr>"

definition queue_blank :: "u64 \<Rightarrow> u16 \<Rightarrow> 'd bus \<Rightarrow> bool" where
  "queue_blank p n b \<longleftrightarrow> unat n \<le> length (desc_mem b p) \<and>
     a_ring (avail_mem b (avail_at p (ucast n))) = replicate (unat n) 0 \<and> a_idx (avail_mem b (avail_at p (ucast n))) = 0 \<and>
     u_idx (used_mem b (used_at p (ucast n))) = 0"

definition entropy_machine :: "'d hw \<Rightarrow> 'd rng_view \<Rightarrow> u32 \<Rightarrow> u64 \<Rightarrow> u64 \<Rightarrow> u16 \<Rightarrow> bool" where
  "entropy_machine hw rv i h p n \<longleftrightarrow> lone_virtio hw i \<and>
     (\<forall>b. ucast (hw_load hw (PCI_BASE + ucast (i AND NOT 0x3000) + 2) 2 b) = (0x1005 :: u16)) \<and>
     registers_only hw (\<lambda>e. (rv_seen rv e, rv_bytes rv e)) (setup_registers (PCI_BASE + ucast (i AND NOT 0x3000)) h) \<and>
     (\<forall>b. ucast (hw_load hw (h + 12) 2 b) = n) \<and> 2 \<le> unat n \<and> rng_device hw rv h (queue_of p n)"

lemma configure_pci_entropy:
  assumes m: "entropy_machine hw rv i h p n" and d: "length (virtio_drivers s) = MAX_VIRTIO_DEVICE_ID"
    and h: "h = HOST_CONF_BASE + ucast (pci_config_base s)" and "free_elements 64 s \<noteq> []"
    and "p = ALIGN_UP (forever_storage_frontier s) 4096" and "p + ucast (virtq_size (ucast n)) \<le> ld_forever_storage_stop ld"
    and "queue_blank p n (bus s)" and "rv_seen rv (dev (bus s)) = 0"
  shows "\<exists>t. configure_pci hw ld s = Ok () t \<and> rng_ready hw rv fr 5 t \<and> rv_bytes rv (dev (bus t)) = rv_bytes rv (dev (bus s)) \<and>
    ram t = (ram s)(snd (hd (free_elements 64 s)) := 1)"
proof -
  let ?pd = "PCI_BASE + ucast (i AND NOT 0x3000)"
  have lone: "lone_virtio hw i" and id: "\<forall>b. ucast (hw_load hw (?pd + 2) 2 b) = (0x1005 :: u16)"
    and regs: "registers_only hw (\<lambda>e. (rv_seen rv e, rv_bytes rv e)) (setup_registers ?pd h)"
    and sz: "\<forall>b. ucast (hw_load hw (h + 12) 2 b) = n" "2 \<le> unat n" and dev: "rng_device hw rv h (queue_of p n)"
    using m by (simp_all add: entropy_machine_def)
  define u where "u = s\<lparr>virtio_drivers := (virtio_drivers s)[5 := declared_driver 5 Init_entropy_virtio,
     3 := declared_driver 3 Init_console_virtio, 1 := declared_driver 1 Init_blk_virtio]\<rparr>"
  define u' where "u' = u\<lparr>pci_config_base := pci_config_base s + 4096\<rparr>"
  have u': "length (virtio_drivers u') = 10" "init_f (virtio_drivers u' ! 5) = Some Init_entropy_virtio" "bus u' = bus s"
    "forever_storage_frontier u' = forever_storage_frontier s" "free_elements 64 u' = free_elements 64 s" "5 < length (virtio_drivers u')"
    using d by (simp_all add: u'_def u_def declared_driver_def MAX_VIRTIO_DEVICE_ID_def free_elements_def arenas_def)
  obtain t where t: "init_entropy_virtio hw ld 5 ?pd (PCI_BUS i) (PCI_DEV i) (PCI_FUN i) h (PCI_CONF_BASE + pci_config_base s) u' = Ok True t"
    "rng_ready hw rv fr 5 t" "rv_bytes rv (dev (bus t)) = rv_bytes rv (dev (bus u'))" "ram t = (ram s)(snd (hd (free_elements 64 s)) := 1)"
    using init_entropy_virtio_ready [OF u'(6) regs sz, of p ld "queue_of p n" "PCI_BUS i" "PCI_DEV i" "PCI_FUN i" _ fr] assms(4-8) dev u'
    by (auto simp: queue_of_def queue_blank_def)
  have i: "i < MAX_PCI_OFF" "i mod 4096 = 0" and vendor: "ucast (hw_load hw (PCI_BASE + ucast i) 2 b) = (0x1af4 :: u16)" for b
    using lone by (simp_all add: lone_virtio_def)
  have "i < 2 ^ 28" using i(1) by (simp add: pci_consts word_less_nat_alt)
  note off = PCI_OFF_of_parts [OF this i(2)]
  have "pci_scan_one hw ld i u = Ok () t"
    unfolding pci_scan_one_def configure_pci_device_def pci_config_space_alloc_def Let_def off
    using vendor id t(1) u'(1,2) h
    by (simp add: monad_simps driver_type_def find_virtio_driver_def get_driver_def call_init_f_def u'_def) (simp add: u_def monad_simps)
  then have "pci_scan hw ld u = Ok () t" unfolding pci_scan_def using pci_scan_lone [OF lone, of 0] by simp
  then have "configure_pci hw ld s = Ok () t" using load_driver_inits [of s] by (simp add: configure_pci_def monad_simps u_def)
  then show ?thesis using t(2-4) u'(3) by auto
qed

text \<open>Without a virtio device the table of drivers is loaded, and nothing is started.\<close>

lemma configure_pci_none:
  assumes "no_virtio hw"
  shows "configure_pci hw ld s = load_drivers driver_inits s"
  using assms pci_scan_none [of 0 hw ld] load_driver_inits [of s]
  by (simp add: configure_pci_def pci_scan_def monad_simps no_virtio_def)

section \<open>The bytes for the C library\<close>

lemma configure_dl_random_run:
  assumes "rng_ready hw rv fr 5 s" and "disjoint_ranges q 8 (rng_buf fr) 8"
  shows "\<exists>t. configure_dl_random hw fr q s = Ok () t \<and> dl_random_bytes t = le_word (bytes_at (rv_bytes rv (dev (bus s))) 0 8) \<and>
    (\<forall>a. (\<forall>i<8. a \<noteq> q + of_nat i) \<longrightarrow> (\<forall>i<8. a \<noteq> rng_buf fr + of_nat i) \<longrightarrow> ram t a = ram s a)"
proof -
  define u where "u = s\<lparr>bus := (bus s)\<lparr>mem := store_bytes q (replicate 8 0) (ram s)\<rparr>\<rparr>"
  have "rng_ready hw rv fr 5 u" using assms(1) by (simp add: u_def)
  then obtain t where t: "virtio_get_randomness hw fr q 8 u = Ok 8 t" "load_bytes q 8 (ram t) = bytes_at (rv_bytes rv (dev (bus u))) 0 8"
    "\<forall>a. (\<forall>i<8. a \<noteq> q + of_nat i) \<longrightarrow> (\<forall>i<8. a \<noteq> rng_buf fr + of_nat i) \<longrightarrow> ram t a = ram u a"
    using get_randomness_run [of hw rv fr u q 8] assms(2) by auto
  have "ram u a = ram s a" if "\<forall>i<8. a \<noteq> q + of_nat i" for a
    unfolding u_def using that store_bytes_outside [of "replicate 8 0" a q "ram s"] by simp
  with t show ?thesis by (simp add: configure_dl_random_def monad_simps u_def)
qed

lemma configure_dl_random_fails:
  assumes "5 < length (virtio_drivers s)" and "\<not> initialized (virtio_drivers s ! 5)"
  shows "\<exists>t. configure_dl_random hw fr q s = Fault PowerOff t \<and>
    console t = console s @ map of_char (''Error occurred configuring dl_random.'' @ [CHR 0x0A])"
  using assms by (simp add: configure_dl_random_def virtio_get_randomness_def find_virtio_driver_def get_driver_def monad_simps)

section \<open>A device that meets the contract\<close>

text \<open>It counts the bytes it has delivered, and serves one request per step.\<close>

record ref_rng =
  rr_count :: nat
  rr_seen :: u16

definition rng_ref :: "ref_rng rng_view" where
  "rng_ref = \<lparr>rv_bytes = (\<lambda>e i. of_nat (rr_count e + i)), rv_seen = rr_seen\<rparr>"

definition rng_serve :: "vring \<Rightarrow> vring_desc_item \<Rightarrow> ref_rng bus \<Rightarrow> ref_rng bus" where
  "rng_serve v item b = (let u = used_mem b (vr_used v); n = unat (d_len item) in
     b\<lparr>used_mem := (used_mem b)(vr_used v := u\<lparr>u_idx := u_idx u + 1\<rparr>),
       dev := \<lparr>rr_count = rr_count (dev b) + n, rr_seen = rr_seen (dev b) + 1\<rparr>,
       mem := store_bytes (d_addr item) (bytes_at (rv_bytes rng_ref (dev b)) 0 n) (mem b)\<rparr>)"

definition rng_hw :: "vring \<Rightarrow> ref_rng hw" where
  "rng_hw v = \<lparr>hw_step = (\<lambda>b.
       if a_idx (avail_mem b (vr_avail v)) = rr_seen (dev b) + 1 then
         case rng_request rng_ref v b of None \<Rightarrow> b | Some item \<Rightarrow> rng_serve v item b
       else b),
     hw_store = (\<lambda>a n x b. b),
     hw_load = (\<lambda>a n b. if a = 0x30008000 then 0x1af4 else if a = 0x30008002 then 0x1005 else if a = 0x300100C then 8 else 0),
     hw_time = (\<lambda>b. 0)\<rparr>"

lemma rng_hw_device: "rng_device (rng_hw v) rng_ref h v"
  unfolding rng_device_def
proof (intro allI impI)
  fix b item
  assume seen: "a_idx (avail_mem b (vr_avail v)) = rv_seen rng_ref (dev b) + 1" and rq: "rng_request rng_ref v b = Some item"
  then have step: "hw_step (rng_hw v) b = rng_serve v item b" by (simp add: rng_hw_def rng_ref_def)
  have eff: "rng_effect rng_ref v item b (rng_serve v item b)" by (simp add: rng_effect_def rng_serve_def Let_def rng_ref_def add.assoc)
  then have "u_idx (used_mem (rng_serve v item b) (vr_used v)) \<noteq> u_idx (used_mem b (vr_used v))" by (simp add: rng_effect_def)
  then have "completes (rng_hw v) (vr_used v) (u_idx (used_mem b (vr_used v))) b (rng_serve v item b)"
    unfolding completes_def by (intro exI [of _ 1]) (simp add: step)
  with eff show "\<exists>b'. completes (rng_hw v) (vr_used v) (u_idx (used_mem b (vr_used v))) (hw_store (rng_hw v) (h + 16) 2 0 b) b' \<and>
      rng_effect rng_ref v item b b'" by (auto simp: rng_hw_def)
qed

definition rng_bus :: "ref_rng bus" where
  "rng_bus = \<lparr>mem = (\<lambda>_. 0), desc_mem = (\<lambda>_. replicate 8 \<lparr>d_addr = 0, d_len = 0, d_flags = 0, d_next = 0\<rparr>),
     avail_mem = (\<lambda>_. \<lparr>a_flags = 0, a_idx = 0, a_ring = replicate 8 0\<rparr>),
     used_mem = (\<lambda>_. \<lparr>u_flags = 0, u_idx = 0, u_ring = []\<rparr>), dev = \<lparr>rr_count = 0, rr_seen = 0\<rparr>\<rparr>"

definition rng_state :: "ref_rng virtio_state" where
  "rng_state = heap_state.extend (heap_init demandos_linker rng_bus)
     (virtio_state.fields ((replicate MAX_VIRTIO_DEVICE_ID empty_driver)[5 := (declared_driver 5 Init_entropy_virtio)\<lparr>
        initialized := True, host := 0x3001000, vring := [queue_of 0x80306000 8]\<rparr>]) 0)"

lemma rng_state_ready: "rng_ready (rng_hw (queue_of 0x80306000 8)) rng_ref fr 5 rng_state"
  using rng_hw_device [of "queue_of 0x80306000 8"]
  by (auto simp: rng_ready_def rng_idle_def rng_state_def vring_at_def heap_state.defs virtio_state.defs heap_init_def
    MAX_VIRTIO_DEVICE_ID_def declared_driver_def rng_bus_def rng_ref_def queue_of_def)

section \<open>What the entropy driver promises\<close>



end
