(* ===== verification/Boot.thy ===== *)
theory Boot
  imports User Entropy
begin

text \<open>
  Booting (src/boot.S): the trap vector and the stack are set up, the stack is filled twice, the C
  functions that configure the kernel are called in order, the stack of the program is prepared as the start
  code of the C library expects it, and the processor enters the program in user mode.
\<close>

section \<open>The code\<close>

text \<open>
  The loops \<open>one_stack_loop\<close> and \<open>clear_stack_loop\<close>: eight bytes are stored at \<open>t3\<close>, which then advances by one,
  as long as it is below \<open>sp\<close> as a signed number.
\<close>

function fill_loop :: "u64 \<Rightarrow> u64 \<Rightarrow> u64 \<Rightarrow> (u64 \<Rightarrow> u8) \<Rightarrow> u64 \<times> (u64 \<Rightarrow> u8)" where
  "fill_loop t2 sp t3 m =
     (let m = store64 t3 t2 m; t3 = t3 + 1 in
      if sint t3 < sint sp then fill_loop t2 sp t3 m else (t3, m))"
  by pat_completeness auto
termination
proof (relation "measure (\<lambda>(t2, sp, t3, m). nat (sint sp - sint (t3 + 1)))")
  fix t2 sp t3 :: u64 and m m' :: "u64 \<Rightarrow> u8" and x
  assume x: "x = t3 + 1" and less: "sint x < sint sp"
  have "sint sp < 2 ^ 63" using sint_lt [of sp] by simp
  then have "sint (x + 1) = sint x + 1"
    using less sint_ge [of x] by (simp add: sint_word_ariths signed_take_bit_int_eq_self_iff)
  then show "((t2, sp, x, m'), t2, sp, t3, m) \<in> measure (\<lambda>(t2, sp, t3, m). nat (sint sp - sint (t3 + 1)))"
    using x less by simp
qed simp

declare fill_loop.simps [simp del]

definition stack_loop :: "('d cpu_state, unit) kernel_op" where
  "stack_loop = mmodify (\<lambda>s. case fill_loop (reg 7 s) (reg 2 s) (reg 28 s) (ram s) of (t3, m) \<Rightarrow> set_reg 28 t3 (set_ram m s))"

definition boot_entry :: "instr list" where
  "boot_entry = [La 5 sym_trap_dispatch, Csrw Stvec 5, La 2 sym_sp, La 6 sym_esp, Li 7 (- 1), Mv 7 0, Addi 7 7 1, Mv 28 6]"

definition boot_clear :: "instr list" where
  "boot_clear = [Mv 7 0, Addi 7 7 0, Mv 28 6]"

definition boot_calls :: "instr list" where
  "boot_calls = [La 5 sym_trap_dispatch, Csrw Stvec 5, Csrw Satp 0, La 10 sym_brk_start, Call C_set_brk_s,
     Call C_initialize_heap, Call C_configure_pci, Call C_configure_io, Call C_configure_syscall_handlers, Call C_configure_dl_random]"

definition boot_user_stack :: "instr list" where
  "boot_user_stack = [Li 7 1, Sd 7 0 2, La 7 sym_pgm, Sd 7 8 2, Sd 0 16 2, Sd 0 24 2, Li 7 25, Sd 7 32 2,
     La 7 sym_dl_random_bytes, Sd 7 40 2]"

definition boot_leave :: "instr list" where
  "boot_leave = [Li 10 0x100, Csrc Sstatus 10, Csrci Sstatus 2, Li 6 32, Csrs Sie 6, La 5 sym_start, Csrw Sepc 5,
     Li 10 0, Li 11 0, Li 12 0, Li 13 0, Li 14 0, Li 15 0, Li 16 0, Li 17 0, Sret]"

definition boot :: "'d platform \<Rightarrow> ('d cpu_state, unit) kernel_op" where
  "boot P =
     mthen (exec P boot_entry)
     (mthen stack_loop
     (mthen (exec P boot_clear)
     (mthen stack_loop
     (mthen (exec P boot_calls)
       (exec P (boot_user_stack @ boot_leave))))))"

section \<open>The stack\<close>

lemma sint_small:
  assumes "unat w < 2 ^ 63"
  shows "sint (w :: u64) = int (unat w)"
proof -
  have "uint w = int (unat w)" by simp
  also have "\<dots> < 2 ^ 63" using assms by (metis of_nat_less_iff of_nat_numeral of_nat_power)
  finally have "sint w = uint w"
    unfolding sint_uint by (intro signed_take_bit_int_eq_self) (simp_all add: order_trans [OF _ uint_nonnegative])
  then show ?thesis by simp
qed

lemma store64_at:
  assumes "unat p + 8 < 2 ^ 64"
  shows "store64 p v m a = (if unat p \<le> unat a \<and> unat a < unat p + 8 then le_bytes 8 v ! (unat a - unat p) else m a)"
proof (cases "unat p \<le> unat a")
  case True
  then have "unat (a - p) = unat a - unat p" by (simp add: unat_sub word_le_nat_alt)
  then show ?thesis using True by (auto simp: store64_def store_bytes_def)
next
  case False
  have "8 \<le> unat (a - p)"
  proof (rule ccontr)
    assume "\<not> 8 \<le> unat (a - p)"
    then have "unat (p + (a - p)) = unat p + unat (a - p)" using assms by (intro unat_add_small) simp
    then show False using False by simp
  qed
  then show ?thesis using False by (simp add: store64_outside)
qed

lemma fill_loop_run:
  assumes "unat t3 < unat sp" and "unat sp + 7 < 2 ^ 63"
  shows "\<exists>m'. fill_loop v sp t3 m = (sp, m') \<and> (\<forall>a. unat a < unat t3 \<or> unat sp + 7 \<le> unat a \<longrightarrow> m' a = m a) \<and>
    (v = 0 \<longrightarrow> (\<forall>a. unat t3 \<le> unat a \<and> unat a < unat sp + 7 \<longrightarrow> m' a = 0))"
  using assms(1)
proof (induction "unat sp - unat t3" arbitrary: t3 m)
  case (Suc n)
  let ?m = "store64 t3 v m"
  have t: "unat (t3 + 1) = unat t3 + 1" using Suc.prems assms(2) by (subst unat_add_small) simp_all
  have st: "?m a = (if unat t3 \<le> unat a \<and> unat a < unat t3 + 8 then le_bytes 8 v ! (unat a - unat t3) else m a)" for a
    using Suc.prems assms(2) by (intro store64_at) simp
  have zero: "le_bytes 8 (0 :: u64) ! i = 0" if "i < 8" for i using that by (simp add: nth_le_bytes)
  have s: "sint (t3 + 1) = int (unat t3 + 1)" "sint sp = int (unat sp)"
    using Suc.prems assms(2) by (simp_all add: sint_small t)
  have cmp: "sint (t3 + 1) < sint sp \<longleftrightarrow> unat t3 + 1 < unat sp" unfolding s by (simp only: of_nat_less_iff)
  show ?case
  proof (cases "unat (t3 + 1) < unat sp")
    case True
    then have "n = unat sp - unat (t3 + 1)" using Suc.hyps(2) t by simp
    from Suc.hyps(1) [OF this True, of ?m] obtain m' where m': "fill_loop v sp (t3 + 1) ?m = (sp, m')"
      "\<forall>a. unat a < unat t3 + 1 \<or> unat sp + 7 \<le> unat a \<longrightarrow> m' a = ?m a"
      "v = 0 \<longrightarrow> (\<forall>a. unat t3 + 1 \<le> unat a \<and> unat a < unat sp + 7 \<longrightarrow> m' a = 0)" unfolding t by blast
    have "fill_loop v sp t3 m = (sp, m')"
      using True m'(1) t by (subst fill_loop.simps) (simp add: Let_def cmp)
    moreover have "m' a = m a" if "unat a < unat t3 \<or> unat sp + 7 \<le> unat a" for a
      using that m'(2) st [of a] True t by auto
    moreover have "m' a = 0" if "v = 0" "unat t3 \<le> unat a" "unat a < unat sp + 7" for a
      using that m'(2,3) st [of a] zero [of 0] by (cases "unat a = unat t3") auto
    ultimately show ?thesis by (intro exI [of _ m']) auto
  next
    case False
    then have at_sp: "t3 + 1 = sp" using Suc.prems t by (intro word_eq_unatI) simp
    then have "unat sp = unat t3 + 1" using t by simp
    moreover have "fill_loop v sp t3 m = (sp, ?m)" using False at_sp t by (subst fill_loop.simps) (simp add: Let_def cmp)
    ultimately show ?thesis using st zero by auto
  qed
qed simp

section \<open>What the configuration functions leave alone\<close>

lemma keeps_arena_mismatch: "keeps upper (\<lambda>s. arena_mismatch w (f s) (g s) s)"
  by (simp add: within_def arena_mismatch_def monad_simps)

lemma keeps_initialize_heap [frame_intros]: "keeps upper (initialize_heap ld)"
  unfolding initialize_heap_def Let_def
  by (intro frame_intros keeps_arena_mismatch within_mmodify; simp)

lemma keeps_forever_alloc [frame_intros]: "keeps upper (forever_alloc_aligned ld sz al)"
  by (simp add: within_def forever_alloc_aligned_def Let_def monad_simps)

lemma keeps_vring_init [frame_intros]: "keeps upper (vring_init ld r qsz)"
  unfolding vring_init_def by (intro frame_intros)

lemma keeps_device_registers [frame_intros]:
  "keeps upper (virtio_device_queue_select hw h q)" "keeps upper (virtio_device_queue_size_read hw h)"
  "keeps upper (queue_desc_write hw h r)" "keeps upper (virtio_device_set_status hw h st)"
  "keeps upper (pci_device_set_bar hw pd w v)" "keeps upper (pci_device_set_status hw pd st)"
  unfolding virtio_device_queue_select_def virtio_device_queue_size_read_def queue_desc_write_def
    virtio_device_queue_desc_write_def virtio_device_set_status_def pci_device_set_bar_def pci_device_set_status_def
  by (intro frame_intros)+

lemma keeps_eprint [frame_intros]: "keeps upper (eprint c)" "keeps upper (eprint_num n)"
  by (simp_all add: within_def monad_simps)

lemma keeps_driver_parts [frame_intros]:
  "keeps upper (attach_device hw d pd h p)" "keeps upper (driver_up hw d h)" "keeps upper (alloc_vrings d n)"
  "keeps upper (set_vring_num r q)"
  unfolding attach_device_def driver_up_def alloc_vrings_def set_vring_num_def by (intro frame_intros)+

lemma keeps_init_f [frame_intros]: "keeps upper (call_init_f hw ld f d pd a b c h p)"
proof -
  have "keeps upper (init_entropy_virtio hw ld d pd a b c h p)" "keeps upper (init_blk_virtio hw ld d pd a b c h p)"
    "keeps upper (init_console_virtio hw ld d pd a b c h p)"
    unfolding init_entropy_virtio_def init_blk_virtio_def init_console_virtio_def by (intro frame_intros)+
  then show ?thesis by (auto simp: call_init_f_def intro!: frame_intros split: option.split driver_init_f.split)
qed

lemma keeps_config_space [frame_intros]: "keeps upper pci_config_space_alloc"
  by (simp add: within_def pci_config_space_alloc_def monad_simps)

lemma keeps_scan_one [frame_intros]: "keeps upper (pci_scan_one hw ld i)"
  unfolding pci_scan_one_def configure_pci_device_def Let_def by (intro frame_intros)

lemma keeps_scan [frame_intros]: "keeps upper (pci_scan_from hw ld i)"
proof (induction hw ld i rule: pci_scan_from.induct)
  case (1 hw ld i)
  then show ?case by (subst pci_scan_from.simps) (auto intro!: frame_intros)
qed

lemma keeps_load_drivers [frame_intros]: "keeps upper (load_drivers ds)"
  by (induction ds) (auto intro!: frame_intros)

lemma keeps_configure_pci [frame_intros]: "keeps upper (configure_pci hw ld)"
  unfolding configure_pci_def pci_scan_def by (intro frame_intros)

section \<open>The calls\<close>

text \<open>What is watched during the calls.\<close>

definition boot_part :: "('d, 'z) os_state_scheme \<Rightarrow> bool \<times> u64 \<times> 'z" where
  "boot_part s = (no_deferred s, brk (current s), above_os s)"

definition watch :: "'d cpu_state \<Rightarrow> io_descriptor list \<times> syscall_handler option list \<times> bool \<times> u64 \<times> (csr \<Rightarrow> u64) \<times> u64" where
  "watch s = (fds s, syscall_handlers s, no_deferred s, brk (current s), csrs s, regs s 2)"

lemma keeps_boot_part: "keeps upper m \<Longrightarrow> keeps boot_part m"
proof (erule within_mono)
  fix s t :: "('d, 'z) os_state_scheme"
  show "upper t = upper s \<Longrightarrow> boot_part t = boot_part s" by (cases s; cases t) (simp add: boot_part_def no_deferred_def)
qed

lemma keeps_dl_random: "keeps boot_part (configure_dl_random hw fr p)"
  unfolding configure_dl_random_def
  by (intro frame_intros keeps_boot_part [OF keeps_mbus] keeps_boot_part [OF keeps_get_randomness] keeps_boot_part [OF keeps_eprint_str]
    keeps_boot_part [OF keeps_epoweroff] within_mmodify) (simp add: boot_part_def no_deferred_def)

lemma watch_return:
  assumes "keeps boot_part m" and "mthen m (c_return P None) s = Ok () t"
  shows "watch t = watch s"
proof -
  obtain r u where u: "m s = Ok r u" "c_return P None u = Ok () t"
    using assms(2) by (auto simp: mthen_def split: outcome.splits)
  have "boot_part u = boot_part s" using within_Ok [OF assms(1) u(1)] .
  then have "watch u = watch s" by (cases s; cases u) (simp add: boot_part_def watch_def)
  moreover have "watch t = watch u" using u(2) by (auto simp: monad_simps watch_def caller_saved_def no_deferred_def)
  ultimately show ?thesis by simp
qed

lemma watch_calls:
  "f \<in> {C_initialize_heap, C_configure_pci, C_configure_dl_random} \<Longrightarrow> call_function P f s = Ok () t \<Longrightarrow> watch t = watch s"
  by (auto simp: call_function_def dest!: watch_return [OF keeps_boot_part [OF keeps_initialize_heap]]
    watch_return [OF keeps_boot_part [OF keeps_configure_pci]] watch_return [OF keeps_dl_random])

lemma exec_Call: "exec P (Call f # is) s = Ok r u \<longleftrightarrow> (\<exists>t. call_function P f s = Ok () t \<and> exec P is t = Ok r u)"
  by (cases "call_function P f s") (simp_all add: exec.simps(2) monad_simps)

lemma set_brk_call:
  assumes "call_function P C_set_brk_s s = Ok () t" and "reg 10 s \<noteq> 0"
  shows "watch t = (fds s, syscall_handlers s, no_deferred s, reg 10 s, csrs s, regs s 2)"
  using assms by (auto simp: call_function_def set_brk_s_def monad_simps watch_def caller_saved_def no_deferred_def)

lemma configure_io_call:
  assumes "call_function P C_configure_io s = Ok () t"
  shows "watch t = ((fds s)[1 := (fds s ! 1)\<lparr>write_handler := Some Stdout_write_handler, fd_open := True\<rparr>],
    syscall_handlers s, no_deferred s, brk (current s), csrs s, regs s 2)"
  using assms by (auto simp: call_function_def configure_io_def configure_stdio_def set_fd_def monad_simps watch_def caller_saved_def no_deferred_def)

lemma configure_handlers_call:
  assumes "call_function P C_configure_syscall_handlers s = Ok () t" and "278 < length (syscall_handlers s)"
  shows "\<exists>hs. watch t = (fds s, hs, no_deferred s, brk (current s), csrs s, regs s 2) \<and> length hs = length (syscall_handlers s) \<and>
    (\<forall>i < length hs. hs ! i = Some (handler_of i))"
proof -
  obtain hs where "configure_syscall_handlers s = Ok () (s\<lparr>syscall_handlers := hs\<rparr>)" "length hs = length (syscall_handlers s)"
    "\<forall>i < length hs. hs ! i = Some (handler_of i)"
    using configure_syscall_handlers_ok [OF assms(2)] by auto
  then show ?thesis
    using assms(1) by (auto simp: call_function_def monad_simps watch_def caller_saved_def no_deferred_def)
qed

lemma boot_calls_run:
  assumes run: "exec P boot_calls s = Ok () u" and brk: "sym_brk_start (p_sym P) \<noteq> 0" and n: "278 < length (syscall_handlers s)"
  shows "\<exists>hs. watch u = ((fds s)[1 := (fds s ! 1)\<lparr>write_handler := Some Stdout_write_handler, fd_open := True\<rparr>], hs, no_deferred s,
      sym_brk_start (p_sym P), (csrs s)(Stvec := sym_trap_dispatch (p_sym P), Satp := 0), regs s 2) \<and>
    length hs = length (syscall_handlers s) \<and> (\<forall>i < length hs. hs ! i = Some (handler_of i))"
proof -
  let ?is = "[La 5 sym_trap_dispatch, Csrw Stvec 5, Csrw Satp 0, La 10 sym_brk_start]"
  define s0 where "s0 = fold (effect P) ?is s"
  let ?calls = "[Call C_set_brk_s, Call C_initialize_heap, Call C_configure_pci, Call C_configure_io,
      Call C_configure_syscall_handlers, Call C_configure_dl_random]"
  have calls: "boot_calls = ?is @ ?calls" by (simp add: boot_calls_def)
  have "exec P boot_calls s = exec P ?calls s0" unfolding s0_def calls by (rule exec_plain) simp
  then have "exec P ?calls s0 = Ok () u" using run by (simp only:)
  then obtain s1 s2 s3 s4 s5 where c: "call_function P C_set_brk_s s0 = Ok () s1" "call_function P C_initialize_heap s1 = Ok () s2"
    "call_function P C_configure_pci s2 = Ok () s3" "call_function P C_configure_io s3 = Ok () s4"
    "call_function P C_configure_syscall_handlers s4 = Ok () s5" "call_function P C_configure_dl_random s5 = Ok () u"
    by (auto simp: exec_Call)
  have r0: "reg 10 s0 = sym_brk_start (p_sym P)" "csrs s0 = (csrs s)(Stvec := sym_trap_dispatch (p_sym P), Satp := 0)"
    unfolding s0_def by (simp_all add: machine_simps)
  have k0: "fds s0 = fds s" "syscall_handlers s0 = syscall_handlers s" "no_deferred s0 = no_deferred s" "regs s0 2 = regs s 2"
    unfolding s0_def by (simp_all add: effect_simps set_reg_def set_csr_def no_deferred_def)
  have w1: "watch s1 = (fds s, syscall_handlers s, no_deferred s, sym_brk_start (p_sym P), csrs s0, regs s 2)"
    using set_brk_call [OF c(1)] r0(1) brk k0 by simp
  have w3: "watch s3 = watch s1" using watch_calls [OF _ c(2)] watch_calls [OF _ c(3)] by simp
  then have w4: "watch s4 = ((fds s)[1 := (fds s ! 1)\<lparr>write_handler := Some Stdout_write_handler, fd_open := True\<rparr>],
      syscall_handlers s, no_deferred s, sym_brk_start (p_sym P), csrs s0, regs s 2)"
    using configure_io_call [OF c(4)] w1 by (simp add: watch_def)
  then have "278 < length (syscall_handlers s4)" using n by (simp add: watch_def)
  from configure_handlers_call [OF c(5) this] watch_calls [OF _ c(6)] w4 show ?thesis by (auto simp: watch_def r0(2))
qed

section \<open>The whole of booting\<close>

text \<open>Filling the stack twice leaves zeros from its end to seven bytes beyond its start.\<close>

lemma boot_fills:
  assumes "unat (sym_esp (p_sym P)) < unat (sym_sp (p_sym P))" and "unat (sym_sp (p_sym P)) + 7 < 2 ^ 63"
  shows "\<exists>u. boot P s = mthen (exec P boot_calls) (exec P (boot_user_stack @ boot_leave)) u \<and>
    u = s\<lparr>bus := (bus s)\<lparr>mem := ram u\<rparr>, regs := regs u, csrs := (csrs s)(Stvec := sym_trap_dispatch (p_sym P))\<rparr> \<and>
    regs u 2 = sym_sp (p_sym P) \<and>
    (\<forall>a. ram u a = (if unat (sym_esp (p_sym P)) \<le> unat a \<and> unat a < unat (sym_sp (p_sym P)) + 7 then 0 else ram s a))"
proof -
  let ?sp = "sym_sp (p_sym P)" and ?esp = "sym_esp (p_sym P)"
  define s1 where "s1 = fold (effect P) boot_entry s"
  have s1: "exec P boot_entry s = Ok () s1" using exec_plain [of boot_entry P "[]" s] by (simp add: s1_def boot_entry_def)
  have r1: "reg 2 s1 = ?sp" "reg 6 s1 = ?esp" "reg 28 s1 = ?esp" "ram s1 = ram s" "csrs s1 = (csrs s)(Stvec := sym_trap_dispatch (p_sym P))"
    unfolding s1_def boot_entry_def by (simp_all add: machine_simps)
  have k1: "s1 = s\<lparr>regs := regs s1, csrs := csrs s1\<rparr>"
    unfolding s1_def boot_entry_def by (simp add: effect_simps set_reg_def set_csr_def)
  obtain m1 where m1: "fill_loop (reg 7 s1) ?sp ?esp (ram s) = (?sp, m1)" "\<forall>a. unat a < unat ?esp \<or> unat ?sp + 7 \<le> unat a \<longrightarrow> m1 a = ram s a"
    using fill_loop_run [OF assms, of "reg 7 s1" "ram s"] by blast
  define s2 where "s2 = set_reg 28 ?sp (set_ram m1 s1)"
  have s2: "stack_loop s1 = Ok () s2" using m1(1) r1 by (simp add: stack_loop_def monad_simps s2_def)
  define s3 where "s3 = fold (effect P) boot_clear s2"
  have s3: "exec P boot_clear s2 = Ok () s3" using exec_plain [of boot_clear P "[]" s2] by (simp add: s3_def boot_clear_def)
  have r3: "reg 2 s3 = ?sp" "reg 28 s3 = ?esp" "reg 7 s3 = 0" "ram s3 = m1" "csrs s3 = csrs s1"
    unfolding s3_def boot_clear_def s2_def by (simp_all add: machine_simps r1)
  have k3: "s3 = s1\<lparr>bus := (bus s1)\<lparr>mem := m1\<rparr>, regs := regs s3\<rparr>"
    unfolding s3_def boot_clear_def s2_def by (simp add: effect_simps set_reg_def set_ram_def)
  obtain m2 where m2: "fill_loop 0 ?sp ?esp m1 = (?sp, m2)" "\<forall>a. unat a < unat ?esp \<or> unat ?sp + 7 \<le> unat a \<longrightarrow> m2 a = m1 a"
    "\<forall>a. unat ?esp \<le> unat a \<and> unat a < unat ?sp + 7 \<longrightarrow> m2 a = 0"
    using fill_loop_run [OF assms, of 0 m1] by blast
  define u where "u = set_reg 28 ?sp (set_ram m2 s3)"
  have u: "stack_loop s3 = Ok () u" using m2(1) r3 by (simp add: stack_loop_def monad_simps u_def)
  have "boot P s = mthen (exec P boot_calls) (exec P (boot_user_stack @ boot_leave)) u"
    by (simp add: boot_def monad_simps s1 s2 s3 u)
  moreover have "ram u = m2" by (simp add: u_def machine_simps)
  moreover have "ram u a = (if unat ?esp \<le> unat a \<and> unat a < unat ?sp + 7 then 0 else ram s a)" for a
    using m1(2) m2(2,3) by (auto simp: \<open>ram u = m2\<close>)
  moreover have "regs u 2 = ?sp" using r3(1) by (simp add: u_def set_reg_def set_ram_def reg_def)
  moreover have "u = s\<lparr>bus := (bus s)\<lparr>mem := ram u\<rparr>, regs := regs u, csrs := (csrs s)(Stvec := sym_trap_dispatch (p_sym P))\<rparr>"
    using k1 k3 r1(5) r3(5) \<open>ram u = m2\<close>
    by (cases s; cases s1; cases s3; cases "bus s") (simp add: u_def set_reg_def set_ram_def)
  ultimately show ?thesis by blast
qed

lemma boot_end:
  assumes "regs w 2 = sp"
  shows "\<exists>u. exec P (boot_user_stack @ boot_leave) w = Ok () u \<and>
    u = w\<lparr>bus := (bus w)\<lparr>mem := ram u\<rparr>, regs := regs u, csrs := csrs u, pc := sym_start (p_sym P), mode := User\<rparr> \<and>
    reg 2 u = sp \<and> (\<forall>i \<in> {10..17}. reg i u = 0) \<and> csrs u Stvec = csrs w Stvec \<and> csrs u Satp = csrs w Satp \<and> bit (csrs u Sie) 5 \<and>
    map (\<lambda>i. load64 (sp + of_nat (8 * i)) (ram u)) [0..<6] = [1, sym_pgm (p_sym P), 0, 0, 25, sym_dl_random_bytes (p_sym P)] \<and>
    (\<forall>a. 48 \<le> unat (a - sp) \<longrightarrow> ram u a = ram w a)"
proof -
  define v where "v = fold (effect P) boot_user_stack w"
  define u where "u = fold (effect P) boot_leave v"
  have run: "exec P (boot_user_stack @ boot_leave) w = Ok () u"
    using exec_plain [of "boot_user_stack @ boot_leave" P "[]" w] by (simp add: u_def v_def boot_user_stack_def boot_leave_def)
  have w: "reg 2 w = sp" using assms by (simp add: reg_def)
  have "ram u = store64 (sp + 40) (sym_dl_random_bytes (p_sym P)) (store64 (sp + 32) 25 (store64 (sp + 24) 0
      (store64 (sp + 16) 0 (store64 (sp + 8) (sym_pgm (p_sym P)) (store64 sp 1 (ram w))))))"
    unfolding u_def v_def boot_leave_def boot_user_stack_def by (simp add: machine_simps w)
  then have ram: "ram u = store_slots sp [(0, 1), (1, sym_pgm (p_sym P)), (2, 0), (3, 0), (4, 25), (5, sym_dl_random_bytes (p_sym P))] (ram w)"
    by (simp add: store_slots_def)
  have "load64 (sp + of_nat (i * 8)) (ram u) = [1, sym_pgm (p_sym P), 0, 0, 25, sym_dl_random_bytes (p_sym P)] ! i" if "i < 6" for i
    unfolding ram using that by (intro load_slot) (auto simp: less_Suc_eq numeral_eq_Suc)
  then have stack: "map (\<lambda>i. load64 (sp + of_nat (8 * i)) (ram u)) [0..<6] = [1, sym_pgm (p_sym P), 0, 0, 25, sym_dl_random_bytes (p_sym P)]"
    by (intro nth_equalityI) (simp_all add: mult.commute del: upt_rec_numeral)
  have sp: "reg 2 u = sp" unfolding u_def v_def boot_leave_def boot_user_stack_def by (simp add: machine_simps w)
  have args: "reg i u = 0" if "i \<in> {10..17}" for i
  proof -
    have "i \<in> {10, 11, 12, 13, 14, 15, 16, 17}" using that by auto
    then show ?thesis unfolding u_def boot_leave_def by (auto simp: machine_simps)
  qed
  have csr: "csrs u Stvec = csrs w Stvec" "csrs u Satp = csrs w Satp" "bit (csrs u Sie) 5"
    unfolding u_def v_def boot_leave_def boot_user_stack_def
    by (simp_all add: machine_simps sret_def Let_def bit_simps) 
  have rest: "u = w\<lparr>bus := (bus w)\<lparr>mem := ram u\<rparr>, regs := regs u, csrs := csrs u, pc := sym_start (p_sym P), mode := User\<rparr>"
    unfolding u_def v_def boot_leave_def boot_user_stack_def
    by (simp add: effect_simps set_reg_def set_ram_def set_csr_def sret_def Let_def reg_def bit_simps)
  have kept: "ram u a = ram w a" if "48 \<le> unat (a - sp)" for a
    unfolding ram using that by (intro store_slots_outside [where n = 6]) auto
  show ?thesis by (intro exI [of _ u] conjI ballI allI impI run rest sp args csr stack kept)
qed

lemma console_fds:
  assumes "fds s = (replicate max_fd zero_fd)[1 := zero_fd\<lparr>write_handler := Some Stdout_write_handler, fd_open := True\<rparr>]"
  shows "fds_ok s" "fd_view s = [1 \<mapsto> Console]"
proof -
  show "fds_ok s" using assms by (auto simp: fds_ok_def list_all_length nth_list_update fd_ok_def zero_fd_def max_fd_def)
  show "fd_view s = [1 \<mapsto> Console]"
    using assms by (auto simp: fd_view_def open_view_def nth_list_update zero_fd_def max_fd_def fun_eq_iff)
qed

section \<open>The configuration functions return\<close>

lemma call_returns:
  "m s = Ok r t \<Longrightarrow> \<exists>R. mthen m (c_return P x) s = Ok () (t\<lparr>regs := R\<rparr>)"
  "m s = Ok r t \<Longrightarrow> \<exists>R. mbind m (\<lambda>r. c_return P (f r)) s = Ok () (t\<lparr>regs := R\<rparr>)"
  by (auto simp: mthen_def mbind_def c_return_def mmodify_def)

lemma free_heap:
  assumes "\<forall>k<9970. ram s (ld_heap_start ld + of_nat k) = 0"
  shows "free_elements 64 (placed_heap ld s) \<noteq> []"
proof -
  have "ram s (ld_heap_start ld + 980) = 0" using assms [rule_format, of 980] by simp
  then show ?thesis
    by (simp add: free_elements_def arenas_def arena_free_def placed_heap_def Let_def arena_element_def arena_element_size_def upt_rec)
qed

text \<open>Where configuring the kernel may write: the heap, and the two buffers for the random bytes.\<close>

definition configured_memory :: "'d platform \<Rightarrow> u64 set" where
  "configured_memory P = (\<lambda>k. ld_heap_start (p_ld P) + of_nat k) ` {..<9970} \<union>
     (\<lambda>i. p_randomness P + of_nat i) ` {..<8} \<union> (\<lambda>i. rng_buf (p_frame P) + of_nat i) ` {..<8}"

lemma first_free_inside:
  assumes "unat (ld_heap_start (p_ld P)) + 9970 \<le> unat (ld_heap_end (p_ld P))" and "free_elements 64 (placed_heap (p_ld P) s) \<noteq> []"
  shows "snd (hd (free_elements 64 (placed_heap (p_ld P) s))) \<in> configured_memory P"
proof -
  obtain x e where e: "hd (free_elements 64 (placed_heap (p_ld P) s)) = (x, e)" by fastforce
  then have "(x, e) \<in> set (free_elements 64 (placed_heap (p_ld P) s))" using assms(2) by (metis hd_in_set)
  from free_elements_member [OF arenas_placed_heap [OF assms(1)] this] obtain i where
    i: "x \<in> {32, 64, 128, 256, 512}" "i < 10" "e = heap_start (placed_heap (p_ld P) s) + of_nat (slot_off x i)" by blast
  then have "slot_off x i < 9970" by (auto simp: slot_off_def arena_base_def)
  then have "e \<in> configured_memory P" using i(3) by (auto simp: configured_memory_def placed_heap_def Let_def)
  then show ?thesis by (simp add: e)
qed

text \<open>The plain instructions, and the first two calls.\<close>

definition to_pci :: "instr list" where
  "to_pci = [Call C_configure_pci, Call C_configure_io, Call C_configure_syscall_handlers, Call C_configure_dl_random]"

lemma boot_calls_heap:
  assumes "unat (ld_heap_start (p_ld P)) + 9970 \<le> unat (ld_heap_end (p_ld P))"
  shows "\<exists>R C c. exec P boot_calls s = exec P to_pci ((placed_heap (p_ld P) (s\<lparr>current := c, csrs := C\<rparr>))\<lparr>regs := R\<rparr>)"
proof -
  let ?is = "[La 5 sym_trap_dispatch, Csrw Stvec 5, Csrw Satp 0, La 10 sym_brk_start]"
  define s0 where "s0 = fold (effect P) ?is s"
  have s0: "s0 = s\<lparr>regs := regs s0, csrs := csrs s0\<rparr>"
    unfolding s0_def by (simp add: effect_simps set_reg_def set_csr_def)
  have "boot_calls = ?is @ Call C_set_brk_s # Call C_initialize_heap # to_pci" by (simp add: boot_calls_def to_pci_def)
  then have run0: "exec P boot_calls s = exec P (Call C_set_brk_s # Call C_initialize_heap # to_pci) s0"
    unfolding s0_def using exec_plain [of ?is P "Call C_set_brk_s # Call C_initialize_heap # to_pci" s] by simp
  obtain c R1 where c: "call_function P C_set_brk_s s0 = Ok () (s0\<lparr>current := c, regs := R1\<rparr>)"
  proof -
    have "\<exists>c. set_brk_s a s0 = Ok (brk c) (s0\<lparr>current := c\<rparr>)" for a
      by (rule exI [of _ "if a = 0 then current s0 else (current s0)\<lparr>brk := a\<rparr>"]) (simp add: set_brk_s_def monad_simps)
    then obtain c where "set_brk_s (reg 10 s0) s0 = Ok (brk c) (s0\<lparr>current := c\<rparr>)" by blast
    from call_returns(2) [where m = "set_brk_s (reg 10 s0)" and s = s0, OF this, of P Some] that
    show ?thesis by (auto simp: call_function_def mbind_def mgets_def)
  qed
  define s1 where "s1 = s0\<lparr>current := c, regs := R1\<rparr>"
  have fits: "\<not> ld_heap_end (p_ld P) < ld_heap_start (p_ld P) + 9970"
    using assms unat_add_of_nat [of "ld_heap_start (p_ld P)" 9970] unat_u64_less [of "ld_heap_end (p_ld P)"]
    by (simp add: word_less_nat_alt)
  obtain R2 where h: "call_function P C_initialize_heap s1 = Ok () ((placed_heap (p_ld P) s1)\<lparr>regs := R2\<rparr>)"
    using call_returns(1) [of "initialize_heap (p_ld P)" s1 "()" "placed_heap (p_ld P) s1" P None] fits
    by (auto simp: call_function_def initialize_heap_eq)
  have "(placed_heap (p_ld P) s1)\<lparr>regs := R2\<rparr> = (placed_heap (p_ld P) (s\<lparr>current := c, csrs := csrs s0\<rparr>))\<lparr>regs := R2\<rparr>"
    unfolding s1_def using s0 by (cases s; cases s0) (simp add: placed_heap_def Let_def)
  moreover have "exec P boot_calls s = exec P to_pci ((placed_heap (p_ld P) s1)\<lparr>regs := R2\<rparr>)"
    using run0 c h by (simp add: exec.simps(2) monad_simps s1_def)
  ultimately show ?thesis by metis
qed

lemma configure_io_returns: "\<exists>R F. call_function P C_configure_io s = Ok () (s\<lparr>fds := F, regs := R\<rparr>)"
  by (simp add: call_function_def configure_io_def configure_stdio_def set_fd_def c_return_def monad_simps) blast

lemma configure_handlers_returns:
  assumes "278 < length (syscall_handlers s)"
  shows "\<exists>R hs. call_function P C_configure_syscall_handlers s = Ok () (s\<lparr>syscall_handlers := hs, regs := R\<rparr>)"
proof -
  obtain hs where "configure_syscall_handlers s = Ok () (s\<lparr>syscall_handlers := hs\<rparr>)" using configure_syscall_handlers_ok [OF assms] by blast
  from call_returns(1) [where m = configure_syscall_handlers and s = s, OF this, of P None] show ?thesis
    unfolding call_function_def by auto
qed

lemma boot_calls_entropy:
  assumes heap: "unat (ld_heap_start (p_ld P)) + 9970 \<le> unat (ld_heap_end (p_ld P))" "\<forall>k<9970. ram s (ld_heap_start (p_ld P) + of_nat k) = 0"
    and m: "entropy_machine (p_hw P) rv i h p n" and "length (virtio_drivers s) = MAX_VIRTIO_DEVICE_ID"
    and "h = HOST_CONF_BASE + ucast (pci_config_base s)" and "p = ALIGN_UP (forever_storage_frontier s) 4096"
    and "p + ucast (virtq_size (ucast n)) \<le> ld_forever_storage_stop (p_ld P)" and "queue_blank p n (bus s)"
    and "rv_seen rv (dev (bus s)) = 0" and "278 < length (syscall_handlers s)"
    and "disjoint_ranges (p_randomness P) 8 (rng_buf (p_frame P)) 8"
  shows "\<exists>w. exec P boot_calls s = Ok () w \<and> dl_random_bytes w = le_word (bytes_at (rv_bytes rv (dev (bus s))) 0 8) \<and>
    (\<forall>a. a \<notin> configured_memory P \<longrightarrow> ram w a = ram s a)"
proof -
  obtain R C c where heap_run: "exec P boot_calls s = exec P to_pci ((placed_heap (p_ld P) (s\<lparr>current := c, csrs := C\<rparr>))\<lparr>regs := R\<rparr>)"
    using boot_calls_heap [OF heap(1)] by blast
  define s2 where "s2 = (placed_heap (p_ld P) (s\<lparr>current := c, csrs := C\<rparr>))\<lparr>regs := R\<rparr>"
  have s2: "bus s2 = bus s" "virtio_drivers s2 = virtio_drivers s" "pci_config_base s2 = pci_config_base s"
    "forever_storage_frontier s2 = forever_storage_frontier s" "syscall_handlers s2 = syscall_handlers s"
    by (simp_all add: s2_def placed_heap_def Let_def)
  have elems: "free_elements 64 s2 = free_elements 64 (placed_heap (p_ld P) s)"
    by (simp add: s2_def placed_heap_def Let_def free_elements_def arenas_def)
  then have free: "free_elements 64 s2 \<noteq> []" using free_heap [OF heap(2)] by simp
  obtain t where t: "configure_pci (p_hw P) (p_ld P) s2 = Ok () t" "rng_ready (p_hw P) rv (p_frame P) 5 t"
    "rv_bytes rv (dev (bus t)) = rv_bytes rv (dev (bus s))" "ram t = (ram s2)(snd (hd (free_elements 64 s2)) := 1)"
    using configure_pci_entropy [OF m, of s2 "p_ld P" "p_frame P"] assms(4-9) free s2 by auto
  obtain R3 where c3: "call_function P C_configure_pci s2 = Ok () (t\<lparr>regs := R3\<rparr>)"
    using call_returns(1) [where m = "configure_pci (p_hw P) (p_ld P)" and s = s2, OF t(1), of P None] by (auto simp: call_function_def)
  then have "syscall_handlers (t\<lparr>regs := R3\<rparr>) = syscall_handlers s" using watch_calls [of C_configure_pci P s2] s2(5) by (simp add: watch_def)
  obtain R4 F where c4: "call_function P C_configure_io (t\<lparr>regs := R3\<rparr>) = Ok () (t\<lparr>fds := F, regs := R4\<rparr>)"
    using configure_io_returns [of P "t\<lparr>regs := R3\<rparr>"] by auto
  obtain R5 hs where c5: "call_function P C_configure_syscall_handlers (t\<lparr>fds := F, regs := R4\<rparr>) =
      Ok () (t\<lparr>fds := F, syscall_handlers := hs, regs := R5\<rparr>)"
    using configure_handlers_returns [of "t\<lparr>fds := F, regs := R4\<rparr>" P] \<open>syscall_handlers (t\<lparr>regs := R3\<rparr>) = _\<close> assms(10) by auto
  define s5 where "s5 = t\<lparr>fds := F, syscall_handlers := hs, regs := R5\<rparr>"
  have "rng_ready (p_hw P) rv (p_frame P) 5 s5" using t(2) rng_ready_cong [of s5 t] by (simp add: s5_def)
  from configure_dl_random_run [OF this assms(11)] obtain w where w: "configure_dl_random (p_hw P) (p_frame P) (p_randomness P) s5 = Ok () w"
    "dl_random_bytes w = le_word (bytes_at (rv_bytes rv (dev (bus s))) 0 8)"
    "\<forall>a. (\<forall>i<8. a \<noteq> p_randomness P + of_nat i) \<longrightarrow> (\<forall>i<8. a \<noteq> rng_buf (p_frame P) + of_nat i) \<longrightarrow> ram w a = ram s5 a"
    using t(3) by (auto simp: s5_def)
  have "ram w a = ram s a" if "a \<notin> configured_memory P" for a
  proof -
    have "a \<noteq> snd (hd (free_elements 64 s2))"
      using that first_free_inside [OF heap(1)] free unfolding elems by blast
    then have "ram t a = ram s a" using t(4) s2(1) by simp
    moreover have "\<forall>i<8. a \<noteq> p_randomness P + of_nat i" "\<forall>i<8. a \<noteq> rng_buf (p_frame P) + of_nat i"
      using that by (auto simp: configured_memory_def)
    ultimately show ?thesis using w(3) by (simp add: s5_def)
  qed
  note kept = this
  obtain R6 where c6: "call_function P C_configure_dl_random s5 = Ok () (w\<lparr>regs := R6\<rparr>)"
    using call_returns(1) [where m = "configure_dl_random (p_hw P) (p_frame P) (p_randomness P)" and s = s5, OF w(1), of P None] by (auto simp: call_function_def)
  have "exec P boot_calls s = Ok () (w\<lparr>regs := R6\<rparr>)"
    unfolding heap_run s2_def [symmetric] to_pci_def using c3 c4 c5 c6 by (simp add: exec.simps monad_simps s5_def)
  then show ?thesis using w(2) kept by simp
qed

section \<open>What booting promises\<close>

text \<open>The state that the loader leaves: tables and heap are zero, and the stack and the heap have room.\<close>

definition boot_ready :: "'d platform \<Rightarrow> 'd cpu_state \<Rightarrow> bool" where
  "boot_ready P s \<longleftrightarrow> unat (sym_esp (p_sym P)) < unat (sym_sp (p_sym P)) \<and> unat (sym_sp (p_sym P)) + 7 < 2 ^ 63 \<and>
     sym_brk_start (p_sym P) \<noteq> 0 \<and> fds s = replicate max_fd zero_fd \<and> wakeup_time (deferred (kernel s)) = 0 \<and>
     278 < length (syscall_handlers s) \<and> length (virtio_drivers s) = MAX_VIRTIO_DEVICE_ID \<and>
     unat (ld_heap_start (p_ld P)) + 9970 \<le> unat (ld_heap_end (p_ld P)) \<and>
     (\<forall>k<9970. ram s (ld_heap_start (p_ld P) + of_nat k) = 0)"

text \<open>
  All memory that booting may write: what configuring writes, the stack, the seven bytes above it that
  the loops clear, and the values for the start code.  The table of trap handlers must be elsewhere, and apart from the first
  trap frame.
\<close>

definition boot_memory :: "'d platform \<Rightarrow> u64 set" where
  "boot_memory P = configured_memory P \<union> {a. unat (sym_esp (p_sym P)) \<le> unat a \<and> unat a < unat (sym_sp (p_sym P)) + 7} \<union>
     {a. unat (a - sym_sp (p_sym P)) < 48}"

definition table_loaded :: "'d platform \<Rightarrow> 'd cpu_state \<Rightarrow> bool" where
  "table_loaded P s \<longleftrightarrow>
     (\<forall>i < 9. load64 (sym_trap_handlers (p_sym P) + of_nat (i * 8)) (ram s) = trap_handlers (p_sym P) ! i) \<and>
     distinct [0, sym_software_interrupt_handler (p_sym P), sym_timer_interrupt_handler (p_sym P), sym_system_call_dispatcher (p_sym P)] \<and>
     (\<forall>i < 72. sym_trap_handlers (p_sym P) + of_nat i \<notin> boot_memory P) \<and>
     disjoint_ranges (sym_trap_handlers (p_sym P)) 72 (sym_sp (p_sym P) - 344) 344"

lemma table_survives:
  assumes "table_loaded P s" and "\<forall>a. a \<notin> boot_memory P \<longrightarrow> ram u a = ram s a"
    and "csrs u Stvec = sym_trap_dispatch (p_sym P)" and "reg 2 u = sym_sp (p_sym P)"
  shows "table_in_place P u"
proof -
  note l = assms(1) [unfolded table_loaded_def]
  let ?T = "sym_trap_handlers (p_sym P)"
  have "load_bytes ?T 72 (ram u) = load_bytes ?T 72 (ram s)" using l assms(2) by (simp add: load_bytes_def)
  then have "load64 (?T + of_nat (i * 8)) (ram u) = load64 (?T + of_nat (i * 8)) (ram s)" if "i < 9" for i
    using that load_bytes_slice [of "i * 8" 8 72 ?T] by (simp add: load64_def del: of_nat_mult)
  then show ?thesis using l assms(3,4) by (simp add: table_in_place_def del: of_nat_mult)
qed

lemma boot_enters:
  assumes ready: "boot_ready P s" and v: "boot P s = mthen (exec P boot_calls) (exec P (boot_user_stack @ boot_leave)) v"
    "v = s\<lparr>bus := (bus s)\<lparr>mem := ram v\<rparr>, regs := regs v, csrs := (csrs s)(Stvec := sym_trap_dispatch (p_sym P))\<rparr>"
    "regs v 2 = sym_sp (p_sym P)" and w: "exec P boot_calls v = Ok () w"
  shows "\<exists>u. boot P s = Ok () u \<and> kernel_ok u \<and> fd_view u = [1 \<mapsto> Console] \<and> brk (current u) = sym_brk_start (p_sym P) \<and>
    dl_random_bytes u = dl_random_bytes w \<and>
    pc u = sym_start (p_sym P) \<and> mode u = User \<and> reg 2 u = sym_sp (p_sym P) \<and> (\<forall>i \<in> {10..17}. reg i u = 0) \<and>
    csrs u Stvec = sym_trap_dispatch (p_sym P) \<and> csrs u Satp = 0 \<and> bit (csrs u Sie) 5 \<and>
    map (\<lambda>i. load64 (sym_sp (p_sym P) + of_nat (8 * i)) (ram u)) [0..<6] =
      [1, sym_pgm (p_sym P), 0, 0, 25, sym_dl_random_bytes (p_sym P)] \<and>
    (\<forall>a. 48 \<le> unat (a - sym_sp (p_sym P)) \<longrightarrow> ram u a = ram w a)"
proof -
  note r = ready [unfolded boot_ready_def]
  have k: "fds v = fds s" "syscall_handlers v = syscall_handlers s" "no_deferred v"
    using v(2) r by (cases v; simp add: no_deferred_def)+
  have "278 < length (syscall_handlers v)" using k r by simp
  from boot_calls_run [OF w _ this] r obtain hs where
    hs: "fds w = (replicate max_fd zero_fd)[1 := zero_fd\<lparr>write_handler := Some Stdout_write_handler, fd_open := True\<rparr>]"
    "syscall_handlers w = hs" "no_deferred w" "brk (current w) = sym_brk_start (p_sym P)" "csrs w Stvec = sym_trap_dispatch (p_sym P)"
    "csrs w Satp = 0" "regs w 2 = sym_sp (p_sym P)" "\<forall>i < length hs. hs ! i = Some (handler_of i)"
    using k v(3) by (auto simp: watch_def max_fd_def)
  obtain u where run: "exec P (boot_user_stack @ boot_leave) w = Ok () u"
    and upd: "u = w\<lparr>bus := (bus w)\<lparr>mem := ram u\<rparr>, regs := regs u, csrs := csrs u, pc := sym_start (p_sym P), mode := User\<rparr>"
    and u: "reg 2 u = sym_sp (p_sym P)" "\<forall>i \<in> {10..17}. reg i u = 0" "csrs u Stvec = csrs w Stvec" "csrs u Satp = csrs w Satp" "bit (csrs u Sie) 5"
    "map (\<lambda>i. load64 (sym_sp (p_sym P) + of_nat (8 * i)) (ram u)) [0..<6] = [1, sym_pgm (p_sym P), 0, 0, 25, sym_dl_random_bytes (p_sym P)]"
    "\<forall>a. 48 \<le> unat (a - sym_sp (p_sym P)) \<longrightarrow> ram u a = ram w a"
    using boot_end [OF hs(7), of P] by auto
  have p: "fds u = fds w" "syscall_handlers u = syscall_handlers w" "no_deferred u" "current u = current w" "pc u = sym_start (p_sym P)" "mode u = User"
    "dl_random_bytes u = dl_random_bytes w"
    using upd hs(3) by (cases u; simp add: no_deferred_def)+
  note fd = console_fds [of u, unfolded p(1), OF hs(1)]
  have "kernel_ok u" using fd(1) p hs by (simp add: kernel_ok_def)
  moreover have "boot P s = Ok () u" using v(1) w run by (simp add: monad_simps)
  ultimately show ?thesis using fd(2) p hs u by (intro exI [of _ u]) simp
qed


text \<open>A machine as the loader leaves it.\<close>

definition boot_state :: "'d bus \<Rightarrow> 'd cpu_state" where
  "boot_state b = strap_state.extend (io_state.extend (io_init (os_init (heap_state.extend (heap_init demandos_linker b)
     (virtio_state.fields (replicate MAX_VIRTIO_DEVICE_ID empty_driver) 0)) 0 0) ref_sb False)
     (strap_state.fields (replicate 451 None))) (cpu_state.fields (\<lambda>i. 0) (\<lambda>c. 0) 0x80000000 Supervisor)"

lemma boot_state_simps [simp]:
  "bus (boot_state b) = b" "fds (boot_state b) = replicate max_fd zero_fd" "wakeup_time (deferred (kernel (boot_state b))) = 0"
  "syscall_handlers (boot_state b) = replicate 451 None" "virtio_drivers (boot_state b) = replicate MAX_VIRTIO_DEVICE_ID empty_driver"
  "pci_config_base (boot_state b) = 0" "forever_storage_frontier (boot_state b) = 0x80306000" "console (boot_state b) = []"
  by (simp_all add: boot_state_def io_init_def os_init_def heap_init_def demandos_linker_def heap_state.defs virtio_state.defs
    os_state.defs io_state.defs strap_state.defs cpu_state.defs ref_sleep_def)

lemma boot_state_ready:
  assumes "\<And>a. 0x80003000 \<le> unat a \<Longrightarrow> mem b a = 0"
  shows "boot_ready (ref_platform hw) (boot_state b)"
proof -
  have "mem b (0x8031A000 + of_nat k) = 0" if "k < 9970" for k
    using that by (intro assms) (simp add: unat_add_of_nat)
  then show ?thesis by (simp add: boot_ready_def ref_platform_def ref_sym_def demandos_linker_def)
qed

text \<open>The bus of the entropy device, with the table of handlers in memory.\<close>

definition loaded_bus :: "ref_rng bus" where
  "loaded_bus = rng_bus\<lparr>mem := store_slots 0x80002000 (enumerate 0 (trap_handlers ref_sym)) (mem rng_bus)\<rparr>"

lemma boot_memory_above: "a \<in> boot_memory (ref_platform hw) \<Longrightarrow> 0x80003000 \<le> unat a"
proof -
  have k: "0x80003000 \<le> unat (b + of_nat k)" if "0x80003000 \<le> unat b" "unat b < 0x90000000" "k < 10000" for b :: u64 and k
    using that by (simp add: unat_add_of_nat)
  have d: "0x80003000 \<le> unat a" if "unat (a - b) < 48" "0x80003000 \<le> unat b" "unat b < 0x90000000" for b :: u64
    using k [of b "unat (a - b)"] that by simp
  assume "a \<in> boot_memory (ref_platform hw)"
  then show ?thesis
    by (auto simp: boot_memory_def configured_memory_def ref_platform_def ref_frame_def ref_sym_def demandos_linker_def intro!: k elim: d)
qed

lemma loaded_bus_zero: "mem loaded_bus a = 0" if "0x80003000 \<le> unat a"
proof -
  have "unat (a - 0x80002000) = unat a - 0x80002000" using that by (simp add: unat_sub word_le_nat_alt)
  then have "store_slots 0x80002000 (enumerate 0 (trap_handlers ref_sym)) (mem rng_bus) a = mem rng_bus a"
    using that by (intro store_slots_outside [where n = 9]) (auto simp: in_set_enumerate_eq trap_handlers_def)
  then show ?thesis by (simp add: loaded_bus_def rng_bus_def)
qed

lemma loaded_bus_table: "table_loaded (ref_platform hw) (boot_state loaded_bus)"
proof -
  have "0x80002000 + of_nat i \<notin> boot_memory (ref_platform hw)" if "i < 72" for i
    using boot_memory_above [of "0x80002000 + of_nat i" hw] that by (auto simp: unat_add_of_nat)
  moreover have "disjoint_ranges 0x80002000 72 (0x80303FF0 - 344) 344" by (rule disjoint_rangesI) simp_all
  ultimately show ?thesis using table_stored
    by (simp add: table_loaded_def ref_platform_def ref_sym_def loaded_bus_def del: of_nat_mult)
qed

lemma rng_machine: "entropy_machine (rng_hw (queue_of 0x80306000 8)) rng_ref 0x8000 0x3001000 0x80306000 8"
proof -
  have "PCI_BASE + ucast j = (0x30008000 :: u64) \<longleftrightarrow> j = 0x8000" "PCI_BASE + ucast j \<noteq> (0x30008002 :: u64)" "PCI_BASE + ucast j \<noteq> (0x300100C :: u64)"
    if "j < MAX_PCI_OFF" "j mod 4096 = 0" for j :: u32
  proof -
    have j: "unat j < 0x308000" "unat j mod 4096 = 0"
      using that unat_mod_distrib [of j 4096] by (simp_all add: pci_consts word_less_nat_alt)
    have a: "unat (PCI_BASE + ucast j) = 0x30000000 + unat j"
      using j(1) by (subst unat_add_small) (simp_all add: PCI_BASE_def unat_ucast_up)
    have eq: "PCI_BASE + ucast j = (c :: u64) \<longleftrightarrow> 0x30000000 + unat j = unat c" for c
      using a by (auto intro: word_eq_unatI)
    show "PCI_BASE + ucast j = (0x30008000 :: u64) \<longleftrightarrow> j = 0x8000"
      unfolding eq by (auto intro: word_eq_unatI)
    show "PCI_BASE + ucast j \<noteq> (0x30008002 :: u64)" "PCI_BASE + ucast j \<noteq> (0x300100C :: u64)"
      unfolding eq using j(2) by auto
  qed
  then have "lone_virtio (rng_hw (queue_of 0x80306000 8)) 0x8000"
    by (auto simp: lone_virtio_def pci_consts rng_hw_def)
  moreover have "registers_only (rng_hw v) g A" for v and g :: "ref_rng \<Rightarrow> u16 \<times> (nat \<Rightarrow> u8)" and A
    unfolding registers_only_def rng_hw_def by simp (metis bus.surjective bus.update_convs(5))
  ultimately show ?thesis
    using rng_hw_device [of "queue_of 0x80306000 8"] by (simp add: entropy_machine_def) (simp add: rng_hw_def PCI_BASE_def)
qed




end
