(* ===== verification/Spec2Isabelle.thy ===== *)
theory Spec2Isabelle
  imports Programs Structs Boot
begin

text \<open>
  A verification development for DemandOS, a small kernel for RISC-V machines with virtio devices that
  runs a single program (src/src, src/include and src/driver).

  \<^bold>\<open>The program.\<close>  The processor boots into boot.S, which fills the stack, calls the functions that configure the
  kernel and enters the program in user mode; traps go through strap.S.  The program makes system calls (strap_handler.c), which reach files through a table of descriptors
  (io.c), an ext2 file system (ext2.c), a block driver (blk.c) and virtqueues (virtio.c) that are
  shared with the device.  Drivers are found by a scan of the PCI bus (pci.c) and started by
  virtio_driver.c, with memory from two allocators (memory.c).  A timer (system.c, os.c) wakes the
  program from waiting.  Messages go to the console of the firmware (e.c, util.c).  Linked to the kernel are the stubs of
  demandos.c and either the runtime (runtime.c) or a program of driver/.

  \<^bold>\<open>How it is modelled.\<close>  An operation of the kernel is a function from a state to an outcome: a result
  and a new state, or a fault and the state in which it happened (Prelude).  A fault is the end
  of the run: power off, a call through or access to a null pointer, an access outside an array, a division by
  zero, a failed assertion, or a loop without end.  The state is a record that is
  extended from component to component, in the order of the theories below.  Machine integers are words of their width, with
  wrap-around.  Memory is a function from addresses to bytes; the three parts of a virtqueue
  are kept as typed memory beside it (Bus).  The devices, the clock and the bus are the parameter \<open>hw\<close>
  (what a write or read of a register does, and what happens while the processor polls); the addresses of
  stack objects of the block and entropy functions and the contents of uninitialised ones are the parameter \<open>fr\<close>, the addresses
  from the linker script the parameter \<open>ld\<close>, and the effect of a deferred function the parameter \<open>call\<close>; the assembly
  takes them together as a \<open>platform\<close>, with the addresses of symbols and what compiled code leaves in the
  registers it need not preserve.  The C library of the programs is a parameter as well.
  Function pointers are values of datatypes with a constructor for each function that is stored.
  The definitions are those of the default build, without trace output and tests; the self test and the allocator with
  trace output are modelled beside them.

  \<^bold>\<open>Theories.\<close>
  \<^item> Prelude: the outcome monad, lists, words, little-endian numbers.  Bus: the memory shared with
    devices.  Ecall: console and power off.
  \<^item> Memory: the heap of five arenas with a used byte per element, and the forever storage; the locale
    \<open>block_allocator\<close> gives that the blocks of a run never overlap, and is interpreted for both.
  \<^item> Virtio: descriptor chains, posting, polling, queue layout, registers, randomness.
  \<^item> Blk: sector requests and reads and writes of byte ranges.  What is assumed of a block device
    (\<open>blk_device\<close>) is the virtio specification; a device in memory meets it.  The locale \<open>byte_store\<close>
    states the disk as a sequence of bytes, and its interpretation is what the file system rests on.
  \<^item> Ext2_Layout, Ext2: the packed structures and every operation of ext2.c that the kernel uses.  Ext2_Proofs,
    Ext2_Dir, Ext2_Image, Filesystem: where inodes and file bytes are, directories and paths, a small image, and the
    theorems.
  \<^item> System: timer register, deferred work, timer interrupt, the waiting calls; the locale \<open>waiting\<close>
    for their loops.
  \<^item> Io: descriptor table, handlers, open, close, mount.  Framing: what operations leave alone, as
    the locales \<open>frame_relation\<close> and \<open>disk_relation\<close>.  Descriptors: the locale \<open>fd_table\<close>, a table that gives out the lowest
    free number, and open and close as insertion and deletion.
  \<^item> Strap: system call handlers, table, dispatcher.  Kernel: the step relation of the system and its
    invariant; dispatch, seeking, bad descriptors.  Storage: files from the memory of a program to the
    disk and back, and mounting.
  \<^item> Pci: configuration space, scan, driver table, initialisation of the three drivers.  Devices: what
    they achieve.  Entropy: the contract of an entropy device, reading from it, and the scan of a bus that has one or none.
  \<^item> Machine: registers, control registers, traps and the instructions that the assembly uses.  Trap: the code
    of strap.S and the frame it saves.  User: traps as the program sees them, the stubs and the runtime.  Boot: the code of
    boot.S and what it achieves.
  \<^item> Selftest: the directory listing and the test of the file system.  Structs: the layout of C structures, and \<open>fstat\<close>.
    Programs: the programs of driver/; the locale \<open>random_access_file\<close> is what they rely on, and its interpretation
    on the system calls is the top of the stack of interfaces that starts with \<open>byte_store\<close>.

  \<^bold>\<open>What is shown.\<close>  Data that a program writes to a file is what it reads back, through all layers; the same
  for files and for byte ranges of the disk, with exactly the bytes changed that should be.  Path lookup follows directories, with the comparison
  the code really makes.  Allocated blocks never overlap.  The tables of descriptors and handlers
  are well-formed in every reachable state.  The timer register holds the earliest deadline, and waiting
  ends when the clock passes it.  Starting the block driver establishes what the rest relies on.  Booting on a
  machine with an entropy device ends in the program, with the stack that the C library expects and the
  kernel in its invariant, and its trap table in place; without one it powers off.  A system call returns behind the call with its result, and a timer interrupt
  leaves every register as it was.  A test program that writes and reads a file prints what it wrote.
  Error paths are stated as such: what is refused with -1, what powers off, what runs into undefined
  behaviour.

  \<^bold>\<open>Loops.\<close>  Loops over bytes, blocks, path components and configuration space are total functions, with
  termination proofs.  Polling a queue, waiting, scanning a directory and finding the end of a string may not end and are
  partial functions whose \<open>None\<close> becomes the fault \<open>Diverges\<close>; that they return is proved where it is
  claimed.  There is no fuel.

  \<^bold>\<open>Not modelled.\<close>  Fences, which have no effect on a single processor in this model.  Interrupts that arrive while the kernel
  runs, apart from the window of \<open>yield\<close>, which is one step of the devices followed by the handler if the timer is
  due; boot.S and strap.S leave interrupts disabled otherwise.  Address translation, which boot.S switches off.  Trace
  output, other than that of the allocator and of the self test.  argcv.c, which holds only initial values, and the unit tests under test/, which
  run on the host.
\<close>

end
